(* ===== verification/Prelude.thy ===== *)
theory Prelude
  imports Main "HOL-Library.AList" "HOL-Library.Multiset" "HOL-Library.Word"
begin

text \<open>
  Shared vocabulary of the development: Go's error values and the two-valued returns
  \<open>(T, error)\<close>, Go maps as association lists with one entry per key, and the generic
  lemmas on lists, maps and multisets that the component theories rely on. The
  collection \<open>res_iff\<close> holds the success rules of fallible steps, \<open>gomap\<close> the
  rules about Go maps.
\<close>

named_theorems res_iff \<open>when a fallible step succeeds\<close>
named_theorems gomap \<open>reading and writing Go maps\<close>

section \<open>Errors\<close>

text \<open>
  A Go error is a package-level sentinel (compared by identity in \<open>errors.Is\<close>), a
  fresh \<open>errors.New\<close>, an error handed back by a library or a service, or one of these
  wrapped by \<open>fmt.Errorf("prefix: %w", err)\<close>.
\<close>

datatype go_error =
    Sentinel string
  | ErrNew string
  | ErrExt string
  | ErrWrap string go_error

type_synonym 'a res = "go_error + 'a"

fun err_Error :: "go_error \<Rightarrow> string" where
  "err_Error (Sentinel m) = m"
| "err_Error (ErrNew m) = m"
| "err_Error (ErrExt m) = m"
| "err_Error (ErrWrap p e) = p @ '': '' @ err_Error e"

fun errors_Is :: "go_error \<Rightarrow> string \<Rightarrow> bool" where
  "errors_Is (Sentinel m) s = (m = s)"
| "errors_Is (ErrNew m) s = False"
| "errors_Is (ErrExt m) s = False"
| "errors_Is (ErrWrap p e) s = errors_Is e s"

definition ok_res :: "'a res \<Rightarrow> bool" where
  "ok_res r = (case r of Inl _ \<Rightarrow> False | Inr _ \<Rightarrow> True)"

lemma ok_res_simps [simp]: "ok_res (Inr x)" "\<not> ok_res (Inl e)"
  by (simp_all add: ok_res_def)

lemma ok_res_iff [res_iff]: "ok_res r \<longleftrightarrow> (\<exists>x. r = Inr x)"
  by (cases r) simp_all

lemma case_sum_Inr_iff [res_iff]:
  "(case r of Inl e \<Rightarrow> Inl (f e) | Inr x \<Rightarrow> g x) = Inr y \<longleftrightarrow> (\<exists>x. r = Inr x \<and> g x = Inr y)"
  by (cases r) simp_all

lemma if_Inl_eq_Inr [res_iff]: "(if b then Inl e else r) = Inr y \<longleftrightarrow> \<not> b \<and> r = Inr y"
  by simp

section \<open>Panics\<close>

text \<open>A call that may panic: the panic is a value, with its message.\<close>

datatype 'a go = Panic string | Return 'a

section \<open>Go maps\<close>

text \<open>
  A Go map is an association list with distinct keys: the list order stands for one
  iteration order of the map (Go leaves it open), \<open>len\<close> is the length, a read of a
  missing key gives the zero value.
\<close>

type_synonym ('k, 'v) gomap = "('k \<times> 'v) list"

abbreviation map_set :: "'k \<Rightarrow> 'v \<Rightarrow> ('k, 'v) gomap \<Rightarrow> ('k, 'v) gomap" where
  "map_set \<equiv> AList.update"

abbreviation map_del :: "'k \<Rightarrow> ('k, 'v) gomap \<Rightarrow> ('k, 'v) gomap" where
  "map_del \<equiv> AList.delete"

definition map_get :: "'v \<Rightarrow> ('k, 'v) gomap \<Rightarrow> 'k \<Rightarrow> 'v" where
  "map_get zero m k = (case map_of m k of None \<Rightarrow> zero | Some v \<Rightarrow> v)"

definition wf_map :: "('k, 'v) gomap \<Rightarrow> bool" where
  "wf_map m = distinct (map fst m)"

lemma wf_map_Nil [simp]: "wf_map []"
  by (simp add: wf_map_def)

lemma wf_map_Cons [simp]: "wf_map (p # m) \<longleftrightarrow> fst p \<notin> fst ` set m \<and> wf_map m"
  by (simp add: wf_map_def)

lemma wf_map_set [simp]: "wf_map m \<Longrightarrow> wf_map (map_set k v m)"
  by (simp add: wf_map_def distinct_update)

lemma wf_map_del [simp]: "wf_map m \<Longrightarrow> wf_map (map_del k m)"
  by (simp add: wf_map_def distinct_delete)

lemma map_of_set [simp, gomap]: "map_of (map_set k v m) = (map_of m)(k \<mapsto> v)"
  by (rule update_conv')

lemma map_of_del [simp, gomap]: "map_of (map_del k m) = (map_of m)(k := None)"
  by (rule delete_conv')

lemma map_get_set [simp, gomap]:
  "map_get z (map_set k v m) k' = (if k' = k then v else map_get z m k')"
  by (simp add: map_get_def)

lemma map_get_del [simp, gomap]:
  "map_get z (map_del k m) k' = (if k' = k then z else map_get z m k')"
  by (simp add: map_get_def)

lemma map_get_Nil [simp]: "map_get z [] k = z"
  by (simp add: map_get_def)

lemma in_set_wf_map: "wf_map m \<Longrightarrow> (k, v) \<in> set m \<longleftrightarrow> map_of m k = Some v"
  by (simp add: wf_map_def)

lemma set_map_set_subset: "set (map_set k v m) \<subseteq> insert (k, v) (set m)"
  by (induction m) auto

lemma set_map_del: "set (map_del k m) = {p \<in> set m. fst p \<noteq> k}"
  by (auto simp: AList.delete_eq)

lemma map_set_neq_Nil [simp]: "map_set k v m \<noteq> []"
  by (cases m) (auto split: if_splits)

lemma map_del_Nil_lookup: "map_del k m = [] \<Longrightarrow> k' \<noteq> k \<Longrightarrow> map_of m k' = None"
  by (metis map_of_delete map_of.simps(1))

lemma map_del_eq_Nil_iff: "map_del k m = [] \<longleftrightarrow> fst ` set m \<subseteq> {k}"
  by (auto simp: AList.delete_eq filter_empty_conv)

section \<open>Machine integers\<close>

text \<open>
  Go's \<open>int\<close> and \<open>int64\<close> are 64 bits wide and wrap around. \<open>int64\<close> reduces a
  mathematical integer to that range; inside the range it is the identity.
\<close>

definition min_int64 :: int where
  "min_int64 = - (2 ^ 63)"

definition max_int64 :: int where
  "max_int64 = 2 ^ 63 - 1"

definition int64 :: "int \<Rightarrow> int" where
  "int64 n = (n + 2 ^ 63) mod 2 ^ 64 - 2 ^ 63"

definition in_int64 :: "int \<Rightarrow> bool" where
  "in_int64 n \<longleftrightarrow> min_int64 \<le> n \<and> n \<le> max_int64"

lemmas int64_bounds = min_int64_def max_int64_def in_int64_def

lemma int64_id: "in_int64 n \<Longrightarrow> int64 n = n"
  by (simp add: int64_def int64_bounds)

lemma in_int64_int64 [simp]: "in_int64 (int64 n)"
proof -
  have "0 \<le> (n + 2 ^ 63) mod 2 ^ 64" "(n + 2 ^ 63) mod 2 ^ 64 < (2 ^ 64 :: int)"
    by simp_all
  then show ?thesis unfolding int64_def int64_bounds by simp
qed

section \<open>Time\<close>

text \<open>
  Instants and durations in nanoseconds, as in \<open>time.Time\<close> and \<open>time.Duration\<close>. The
  readings of the clock are arguments of the operations.
\<close>

type_synonym time = int
type_synonym duration = int

text \<open>The successive readings of \<open>time.Now\<close> within one request.\<close>

type_synonym clock = "nat \<Rightarrow> time"

definition Second :: duration where
  "Second = 1000000000"

definition Minute :: duration where
  "Minute = 60 * Second"

definition Hour :: duration where
  "Hour = 60 * Minute"

section \<open>Identifiers\<close>

text \<open>
  \<open>uuid.UUID\<close> is an array of sixteen bytes. Its textual form and its parser belong to
  the package \<open>google/uuid\<close> and are parameters wherever they are used; \<open>uuid_codec\<close>
  is what the code relies on: parsing the printed form gives the identifier back.
\<close>

type_synonym uuid = "128 word"

record uuid_pkg =
  uuid_String :: "uuid \<Rightarrow> string"
  uuid_Parse :: "string \<Rightarrow> uuid option"

definition uuid_codec :: "uuid_pkg \<Rightarrow> bool" where
  "uuid_codec up \<longleftrightarrow> (\<forall>u. uuid_Parse up (uuid_String up u) = Some u)"

lemma uuid_codecD [simp]: "uuid_codec up \<Longrightarrow> uuid_Parse up (uuid_String up u) = Some u"
  by (simp add: uuid_codec_def)

lemma uuid_String_inj: "uuid_codec up \<Longrightarrow> uuid_String up u = uuid_String up v \<longleftrightarrow> u = v"
  by (metis uuid_codecD option.inject)

end
