(* ===== verification/Go_Strings.thy ===== *)
theory Go_Strings
  imports Prelude
begin

text \<open>
  What the backend uses of Go's string packages. A Go string is a sequence of bytes,
  which is exactly Isabelle's \<open>string\<close> (a list of 8-bit characters). Modelled here:
  decimal printing and parsing (\<open>strconv.Itoa\<close>, \<open>strconv.Atoi\<close>), \<open>strings.Split\<close>
  on a one-byte separator, \<open>strings.Join\<close>, \<open>strings.TrimSpace\<close> with the full list of
  Unicode white space in UTF-8, \<open>strings.Contains\<close> and \<open>strings.EqualFold\<close> for
  ASCII text.
\<close>

section \<open>Decimal numbers\<close>

definition digit_char :: "nat \<Rightarrow> char" where
  "digit_char d = char_of (48 + d)"

definition char_digit :: "char \<Rightarrow> nat" where
  "char_digit c = of_char c - 48"

definition is_digit :: "char \<Rightarrow> bool" where
  "is_digit c \<longleftrightarrow> 48 \<le> (of_char c :: nat) \<and> (of_char c :: nat) \<le> 57"

fun nat_dec :: "nat \<Rightarrow> string" where
  "nat_dec n = (if n < 10 then [digit_char n] else nat_dec (n div 10) @ [digit_char (n mod 10)])"

declare nat_dec.simps [simp del]

definition dec_nat :: "string \<Rightarrow> nat" where
  "dec_nat s = foldl (\<lambda>a c. a * 10 + char_digit c) 0 s"

definition Itoa :: "int \<Rightarrow> string" where
  "Itoa i = (if i < 0 then ''-'' @ nat_dec (nat (- i)) else nat_dec (nat i))"

text \<open>
  \<open>strconv.Atoi\<close> returns a value and an error: zero and an error for text that is not
  a decimal number, the nearest bound and an error when the number does not fit 64 bits.
  The result here is the value with a flag that says whether the error is nil.
\<close>

definition Atoi :: "string \<Rightarrow> int \<times> bool" where
  "Atoi s =
     (let (neg, ds) = (case s of
          [] \<Rightarrow> (False, [])
        | c # cs \<Rightarrow> if c = CHR ''-'' then (True, cs)
                   else if c = CHR ''+'' then (False, cs) else (False, s))
      in if ds = [] \<or> \<not> list_all is_digit ds then (0, False)
         else let v = (if neg then - int (dec_nat ds) else int (dec_nat ds))
              in if v < min_int64 then (min_int64, False)
                 else if max_int64 < v then (max_int64, False)
                 else (v, True))"

lemma of_char_digit_char: "d < 10 \<Longrightarrow> of_char (digit_char d) = 48 + d"
  by (simp add: digit_char_def)

lemma char_digit_char [simp]: "d < 10 \<Longrightarrow> char_digit (digit_char d) = d"
  by (simp add: char_digit_def of_char_digit_char)

lemma is_digit_char [simp]: "d < 10 \<Longrightarrow> is_digit (digit_char d)"
  by (simp add: is_digit_def of_char_digit_char)

lemma nat_dec_digits [simp]: "list_all is_digit (nat_dec n)"
  by (induction n rule: nat_dec.induct) (subst nat_dec.simps, simp)

lemma nat_dec_neq_Nil [simp]: "nat_dec n \<noteq> []"
  by (subst nat_dec.simps) simp

lemma dec_nat_snoc [simp]: "dec_nat (s @ [c]) = dec_nat s * 10 + char_digit c"
  by (simp add: dec_nat_def)

lemma dec_nat_Nil [simp]: "dec_nat [] = 0"
  by (simp add: dec_nat_def)

lemma dec_nat_dec [simp]: "dec_nat (nat_dec n) = n"
proof (induction n rule: nat_dec.induct)
  case (1 n)
  show ?case
  proof (cases "n < 10")
    case True
    then show ?thesis by (subst nat_dec.simps) (simp add: dec_nat_def)
  next
    case False
    with 1 show ?thesis by (subst nat_dec.simps) simp
  qed
qed

lemma is_digit_not_sign: "is_digit c \<Longrightarrow> c \<noteq> CHR ''-'' \<and> c \<noteq> CHR ''+''"
  by (auto simp: is_digit_def)

lemma nat_dec_Cons: "\<exists>c cs. nat_dec n = c # cs \<and> is_digit c"
  using nat_dec_digits [of n] nat_dec_neq_Nil [of n] by (cases "nat_dec n") auto

lemma Atoi_Itoa: "in_int64 i \<Longrightarrow> Atoi (Itoa i) = (i, True)"
proof -
  assume i: "in_int64 i"
  obtain c cs where c: "nat_dec (nat i) = c # cs" "is_digit c"
    using nat_dec_Cons by blast
  show ?thesis
  proof (cases "i < 0")
    case True
    with i show ?thesis by (simp add: Atoi_def Itoa_def int64_bounds)
  next
    case False
    have "Atoi (Itoa i) = (let v = int (dec_nat (nat_dec (nat i))) in
        if v < min_int64 then (min_int64, False)
        else if max_int64 < v then (max_int64, False) else (v, True))"
      using False is_digit_not_sign [OF c(2)] nat_dec_digits [of "nat i"]
      by (simp add: Atoi_def Itoa_def c(1) del: nat_dec_digits)
    with False i show ?thesis by (simp add: Let_def int64_bounds)
  qed
qed

section \<open>Splitting, joining, trimming\<close>

text \<open>\<open>strings.Split(s, sep)\<close> for a one-byte separator: never empty, \<open>[""]\<close> for \<open>""\<close>.\<close>

fun Split :: "char \<Rightarrow> string \<Rightarrow> string list" where
  "Split c [] = [[]]"
| "Split c (x # xs) =
     (if x = c then [] # Split c xs
      else (case Split c xs of [] \<Rightarrow> [[x]] | p # ps \<Rightarrow> (x # p) # ps))"

fun Join :: "string \<Rightarrow> string list \<Rightarrow> string" where
  "Join sep [] = []"
| "Join sep [p] = p"
| "Join sep (p # q # ps) = p @ sep @ Join sep (q # ps)"

lemma Split_neq_Nil [simp]: "Split c s \<noteq> []"
  by (induction s) (auto split: list.splits)

lemma Split_no_sep: "c \<notin> set s \<Longrightarrow> Split c s = [s]"
  by (induction s) auto

lemma Split_append: "c \<notin> set p \<Longrightarrow> Split c (p @ c # s) = p # Split c s"
  by (induction p) auto

lemma Split_pieces: "p \<in> set (Split c s) \<Longrightarrow> c \<notin> set p"
  by (induction s arbitrary: p) (auto split: list.splits if_splits)

lemma Join_Split [simp]: "Join [c] (Split c s) = s"
proof (induction s)
  case Nil
  then show ?case by simp
next
  case (Cons x xs)
  obtain p ps where "Split c xs = p # ps"
    by (meson Split_neq_Nil list.exhaust)
  with Cons show ?case by (cases ps) auto
qed

lemma Split_Join: "ps \<noteq> [] \<Longrightarrow> \<forall>p \<in> set ps. c \<notin> set p \<Longrightarrow> Split c (Join [c] ps) = ps"
proof (induction "[c]" ps rule: Join.induct)
  case (3 p q ps)
  then show ?case using Split_append [of c p "Join [c] (q # ps)"] by simp
qed (auto simp: Split_no_sep)

text \<open>
  White space of \<open>unicode.IsSpace\<close>, each as its UTF-8 bytes. \<open>TrimSpace\<close> removes such
  byte sequences from both ends.
\<close>

definition utf8 :: "nat list \<Rightarrow> string" where
  "utf8 bs = map char_of bs"

definition space_runes :: "string list" where
  "space_runes = map utf8
     ([[9], [10], [11], [12], [13], [32], [0xC2, 0x85], [0xC2, 0xA0], [0xE1, 0x9A, 0x80],
       [0xE2, 0x80, 0xA8], [0xE2, 0x80, 0xA9], [0xE2, 0x80, 0xAF], [0xE2, 0x81, 0x9F],
       [0xE3, 0x80, 0x80]] @ map (\<lambda>b. [0xE2, 0x80, b]) [0x80..<0x8B])"

fun strip_prefix :: "'a list \<Rightarrow> 'a list \<Rightarrow> 'a list option" where
  "strip_prefix [] s = Some s"
| "strip_prefix (x # xs) [] = None"
| "strip_prefix (x # xs) (y # ys) = (if x = y then strip_prefix xs ys else None)"

fun first_strip :: "string list \<Rightarrow> string \<Rightarrow> string option" where
  "first_strip [] s = None"
| "first_strip (r # rs) s =
     (case strip_prefix r s of None \<Rightarrow> first_strip rs s | Some t \<Rightarrow> Some t)"

lemma strip_prefix_Some: "strip_prefix p s = Some t \<longleftrightarrow> s = p @ t"
  by (induction p s rule: strip_prefix.induct) auto

lemma first_strip_Some:
  "first_strip rs s = Some t \<Longrightarrow> \<exists>r \<in> set rs. s = r @ t"
  by (induction rs) (auto simp: strip_prefix_Some split: option.splits)

lemma first_strip_shorter:
  "first_strip rs s = Some t \<Longrightarrow> [] \<notin> set rs \<Longrightarrow> length t < length s"
  by (drule first_strip_Some) (metis length_append length_greater_0_conv less_add_same_cancel2)

lemma space_runes_nonempty [simp]: "[] \<notin> set space_runes"
  by (auto simp: space_runes_def utf8_def)

function trim_left :: "string list \<Rightarrow> string \<Rightarrow> string" where
  "trim_left rs s =
     (if [] \<in> set rs then s
      else case first_strip rs s of None \<Rightarrow> s | Some t \<Rightarrow> trim_left rs t)"
  by pat_completeness auto
termination
  by (relation "measure (\<lambda>(rs, s). length s)") (auto dest: first_strip_shorter)

declare trim_left.simps [simp del]

definition TrimSpace :: "string \<Rightarrow> string" where
  "TrimSpace s = rev (trim_left (map rev space_runes) (rev (trim_left space_runes s)))"

section \<open>Searching and comparing\<close>

definition Contains :: "string \<Rightarrow> string \<Rightarrow> bool" where
  "Contains s sub \<longleftrightarrow> (\<exists>i \<in> {0..length s}. take (length sub) (drop i s) = sub)"

definition ascii_lower :: "char \<Rightarrow> char" where
  "ascii_lower c = (if 65 \<le> (of_char c :: nat) \<and> (of_char c :: nat) \<le> 90
     then char_of (of_char c + 32 :: nat) else c)"

definition is_ascii :: "string \<Rightarrow> bool" where
  "is_ascii s = list_all (\<lambda>c. (of_char c :: nat) < 128) s"

section \<open>Identifiers as decimal text\<close>

text \<open>A printed form of identifiers that keeps \<open>uuid_codec\<close>, for concrete runs.\<close>

definition dec_uuid :: uuid_pkg where
  "dec_uuid = \<lparr>uuid_String = (\<lambda>u. nat_dec (unat u)),
     uuid_Parse = (\<lambda>s. if s \<noteq> [] \<and> list_all is_digit s then Some (word_of_nat (dec_nat s)) else None)\<rparr>"

lemma dec_uuid_codec [simp]: "uuid_codec dec_uuid"
  by (simp add: uuid_codec_def dec_uuid_def)

lemma ascii_digits: "list_all is_digit s \<Longrightarrow> is_ascii s"
  by (auto simp: is_ascii_def list_all_iff is_digit_def)

lemma ascii_dec_uuid: "is_ascii (uuid_String dec_uuid u)"
  by (simp add: dec_uuid_def ascii_digits)

section \<open>Quoted strings\<close>

text \<open>
  The quoting of \<open>%q\<close> (\<open>strconv.Quote\<close>). Bytes from \<open>0x80\<close> on are kept, as Go does when
  they are the UTF-8 encoding of printable characters.
\<close>

definition hex_byte :: "nat \<Rightarrow> string" where
  "hex_byte n = [''0123456789abcdef'' ! (n div 16 mod 16), ''0123456789abcdef'' ! (n mod 16)]"

definition quote_char :: "char \<Rightarrow> string" where
  "quote_char c =
     (if c = CHR 0x22 \<or> c = CHR 0x5C then [CHR 0x5C, c]
      else case map_of [(CHR 0x07, CHR ''a''), (CHR 0x08, CHR ''b''), (CHR 0x0C, CHR ''f''), (CHR 0x0A, CHR ''n''),
                        (CHR 0x0D, CHR ''r''), (CHR 0x09, CHR ''t''), (CHR 0x0B, CHR ''v'')] c of
          Some l \<Rightarrow> [CHR 0x5C, l]
        | None \<Rightarrow> if of_char c < (0x20 :: nat) \<or> c = CHR 0x7F then [CHR 0x5C, CHR ''x''] @ hex_byte (of_char c) else [c])"

definition quoted :: "string \<Rightarrow> string" where
  "quoted v = [CHR 0x22] @ concat (map quote_char v) @ [CHR 0x22]"

end
