(* ===== verification/Json.thy ===== *)
theory Json
  imports Go_Strings
begin

text \<open>
  JSON texts as bytes, the way \<open>encoding/json\<close> reads and writes them: the scanner's grammar with
  its nesting limit, string escapes with surrogate pairs and the replacement of invalid UTF-8, and
  the encoder's escaping (HTML-safe, as \<open>json.Marshal\<close> does by default). A number is kept as its
  literal. Printing followed by parsing is the identity on values whose strings are ASCII.
\<close>

datatype jv =
    JvNull
  | JvBool bool
  | JvNum string
  | JvStr string
  | JvArr "jv list"
  | JvObj "(string \<times> jv) list"

abbreviation quote :: char where "quote \<equiv> CHR 0x22"
abbreviation backslash :: char where "backslash \<equiv> CHR 0x5C"

section \<open>UTF-8\<close>

text \<open>The replacement character, and the encoding of a code point (\<open>utf8.AppendRune\<close>).\<close>

definition RuneError :: string where
  "RuneError = utf8 [0xEF, 0xBF, 0xBD]"

definition rune_bytes :: "nat \<Rightarrow> string" where
  "rune_bytes r =
     (if 0xD800 \<le> r \<and> r < 0xE000 \<or> 0x10FFFF < r then RuneError
      else if r < 0x80 then utf8 [r]
      else if r < 0x800 then utf8 [0xC0 + r div 64, 0x80 + r mod 64]
      else if r < 0x10000 then utf8 [0xE0 + r div 4096, 0x80 + r div 64 mod 64, 0x80 + r mod 64]
      else utf8 [0xF0 + r div 262144, 0x80 + r div 4096 mod 64, 0x80 + r div 64 mod 64, 0x80 + r mod 64])"

definition cont_byte :: "nat \<Rightarrow> bool" where
  "cont_byte b \<longleftrightarrow> 0x80 \<le> b \<and> b \<le> 0xBF"

text \<open>The number of bytes of the first character, \<open>0\<close> when they are not valid UTF-8.\<close>

fun rune_len :: "nat list \<Rightarrow> nat" where
  "rune_len [] = 0"
| "rune_len (a # bs) =
     (if a < 0x80 then 1
      else if 0xC2 \<le> a \<and> a \<le> 0xDF then
        (case bs of b # _ \<Rightarrow> if cont_byte b then 2 else 0 | _ \<Rightarrow> 0)
      else if 0xE0 \<le> a \<and> a \<le> 0xEF then
        (case bs of b # c # _ \<Rightarrow>
           if cont_byte b \<and> cont_byte c \<and> (a = 0xE0 \<longrightarrow> 0xA0 \<le> b) \<and> (a = 0xED \<longrightarrow> b \<le> 0x9F) then 3 else 0
         | _ \<Rightarrow> 0)
      else if 0xF0 \<le> a \<and> a \<le> 0xF4 then
        (case bs of b # c # d # _ \<Rightarrow>
           if cont_byte b \<and> cont_byte c \<and> cont_byte d \<and> (a = 0xF0 \<longrightarrow> 0x90 \<le> b) \<and> (a = 0xF4 \<longrightarrow> b \<le> 0x8F) then 4 else 0
         | _ \<Rightarrow> 0)
      else 0)"

section \<open>String literals\<close>

definition hex_val :: "char \<Rightarrow> nat option" where
  "hex_val c =
     (let n = of_char c :: nat
      in if 48 \<le> n \<and> n \<le> 57 then Some (n - 48)
         else if 97 \<le> n \<and> n \<le> 102 then Some (n - 87)
         else if 65 \<le> n \<and> n \<le> 70 then Some (n - 55)
         else None)"

text \<open>\<open>getu4\<close> without the leading backslash and \<open>u\<close>.\<close>

fun hex4 :: "string \<Rightarrow> nat option" where
  "hex4 (a # b # c # d # _) =
     (case (hex_val a, hex_val b, hex_val c, hex_val d) of
        (Some w, Some x, Some y, Some z) \<Rightarrow> Some (((w * 16 + x) * 16 + y) * 16 + z)
      | _ \<Rightarrow> None)"
| "hex4 _ = None"

definition getu4 :: "string \<Rightarrow> nat option" where
  "getu4 s = (case s of b # u # r \<Rightarrow> if b = backslash \<and> u = CHR ''u'' then hex4 r else None | _ \<Rightarrow> None)"

text \<open>\<open>utf16.DecodeRune\<close>: a high surrogate followed by a low one.\<close>

definition surrogate_pair :: "nat \<Rightarrow> nat \<Rightarrow> nat option" where
  "surrogate_pair hi lo =
     (if 0xD800 \<le> hi \<and> hi < 0xDC00 \<and> 0xDC00 \<le> lo \<and> lo < 0xE000
      then Some (0x10000 + (hi - 0xD800) * 1024 + (lo - 0xDC00)) else None)"

definition simple_escape :: "char \<Rightarrow> char option" where
  "simple_escape c = map_of
     [(quote, quote), (backslash, backslash), (CHR ''/'', CHR ''/''), (CHR ''b'', CHR 0x08),
      (CHR ''f'', CHR 0x0C), (CHR ''n'', CHR 0x0A), (CHR ''r'', CHR 0x0D), (CHR ''t'', CHR 0x09)] c"

abbreviation emit :: "string \<Rightarrow> (string \<times> string) option \<Rightarrow> (string \<times> string) option" where
  "emit t \<equiv> map_option (\<lambda>(s, r). (t @ s, r))"

text \<open>One character or escape of a literal: the bytes it stands for, and the rest.\<close>

definition scan_item :: "string \<Rightarrow> (string \<times> string) option" where
  "scan_item s =
     (case s of
        [] \<Rightarrow> None
      | c # cs \<Rightarrow>
          if c = backslash then
            (case cs of
               [] \<Rightarrow> None
             | e # es \<Rightarrow>
                 if e = CHR ''u'' then
                   (case hex4 es of
                      None \<Rightarrow> None
                    | Some v \<Rightarrow>
                        if 0xD800 \<le> v \<and> v < 0xE000 then
                          (case Option.bind (getu4 (drop 4 es)) (surrogate_pair v) of
                             Some r \<Rightarrow> Some (rune_bytes r, drop 10 es)
                           | None \<Rightarrow> Some (RuneError, drop 4 es))
                        else Some (rune_bytes v, drop 4 es))
                 else map_option (\<lambda>x. ([x], es)) (simple_escape e))
          else if (of_char c :: nat) < 0x20 then None
          else let n = rune_len (map of_char (c # take 3 cs))
               in if n = 0 then Some (RuneError, cs) else Some (take n (c # cs), drop (n - 1) cs))"

lemma scan_item_length: "scan_item s = Some (t, r) \<Longrightarrow> length r < length s"
  by (auto simp: scan_item_def Let_def split: if_splits option.splits list.splits)

text \<open>The contents of a literal after its opening quote, and what follows its closing quote.\<close>

function scan_str :: "string \<Rightarrow> (string \<times> string) option" where
  "scan_str s =
     (if s = [] then None
      else if hd s = quote then Some ([], tl s)
      else case scan_item s of None \<Rightarrow> None | Some (t, r) \<Rightarrow> emit t (scan_str r))"
  by pat_completeness auto
termination by (relation "measure length") (auto dest: scan_item_length)

declare scan_str.simps [simp del]

lemma scan_str_simps [simp]:
  "scan_str [] = None" "scan_str (quote # s) = Some ([], s)"
  by (simp_all add: scan_str.simps)

text \<open>What the encoder writes for a string (\<open>appendString\<close> with HTML escaping).\<close>

definition hex_digit :: "nat \<Rightarrow> char" where
  "hex_digit n = ''0123456789abcdef'' ! n"

definition escape_ascii :: "char \<Rightarrow> string" where
  "escape_ascii c =
     (if c = quote \<or> c = backslash then [backslash, c]
      else case map_of [(CHR 0x08, CHR ''b''), (CHR 0x0C, CHR ''f''), (CHR 0x0A, CHR ''n''), (CHR 0x0D, CHR ''r''), (CHR 0x09, CHR ''t'')] c of
          Some e \<Rightarrow> [backslash, e]
        | None \<Rightarrow>
            if (of_char c :: nat) < 0x20 \<or> c = CHR ''<'' \<or> c = CHR ''>'' \<or> c = CHR ''&''
            then [backslash, CHR ''u'', CHR ''0'', CHR ''0'', hex_digit (of_char c div 16), hex_digit (of_char c mod 16)]
            else [c])"

function escape_body :: "string \<Rightarrow> string" where
  "escape_body [] = []"
| "escape_body (c # cs) =
     (if (of_char c :: nat) < 0x80 then escape_ascii c @ escape_body cs
      else let n = rune_len (map of_char (c # take 3 cs))
           in if n = 0 then [backslash] @ ''ufffd'' @ escape_body cs
              else let t = take n (c # cs)
                   in (if t = utf8 [0xE2, 0x80, 0xA8] then [backslash] @ ''u2028''
                       else if t = utf8 [0xE2, 0x80, 0xA9] then [backslash] @ ''u2029'' else t)
                      @ escape_body (drop (n - 1) cs))"
  by pat_completeness auto
termination by (relation "measure length") auto

declare escape_body.simps [simp del]

definition print_str :: "string \<Rightarrow> string" where
  "print_str s = [quote] @ escape_body s @ [quote]"

section \<open>Numbers\<close>

text \<open>
  A literal: optional minus, an integer part without leading zeros, optional fraction and exponent,
  as long as possible.
\<close>

definition scan_digits :: "string \<Rightarrow> (string \<times> string) option" where
  "scan_digits s = (if takeWhile is_digit s = [] then None else Some (takeWhile is_digit s, dropWhile is_digit s))"

definition scan_int_part :: "string \<Rightarrow> (string \<times> string) option" where
  "scan_int_part s =
     (case s of c # cs \<Rightarrow> if c = CHR ''0'' then Some (''0'', cs) else scan_digits s | [] \<Rightarrow> None)"

definition scan_frac :: "string \<Rightarrow> (string \<times> string) option" where
  "scan_frac s =
     (case s of c # cs \<Rightarrow> if c = CHR ''.'' then emit ''.'' (scan_digits cs) else Some ([], s) | [] \<Rightarrow> Some ([], []))"

definition scan_exp :: "string \<Rightarrow> (string \<times> string) option" where
  "scan_exp s =
     (case s of
        c # cs \<Rightarrow>
          if c = CHR ''e'' \<or> c = CHR ''E'' then
            (case cs of
               d # ds \<Rightarrow> if d = CHR ''+'' \<or> d = CHR ''-'' then emit [c, d] (scan_digits ds) else emit [c] (scan_digits cs)
             | [] \<Rightarrow> None)
          else Some ([], s)
      | [] \<Rightarrow> Some ([], []))"

definition scan_num :: "string \<Rightarrow> (string \<times> string) option" where
  "scan_num s =
     (let (sg, s0) = (case s of c # cs \<Rightarrow> if c = CHR ''-'' then (''-'', cs) else ([], s) | [] \<Rightarrow> ([], []))
      in Option.bind (scan_int_part s0) (\<lambda>(i, s1).
         Option.bind (scan_frac s1) (\<lambda>(f, s2).
         Option.bind (scan_exp s2) (\<lambda>(e, s3). Some (sg @ i @ f @ e, s3)))))"

section \<open>Values\<close>

definition is_ws :: "char \<Rightarrow> bool" where
  "is_ws c \<longleftrightarrow> c = CHR '' '' \<or> c = CHR 0x09 \<or> c = CHR 0x0A \<or> c = CHR 0x0D"

definition skip_ws :: "string \<Rightarrow> string" where
  "skip_ws s = dropWhile is_ws s"

definition maxNestingDepth :: nat where
  "maxNestingDepth = 10000"

lemma skip_ws_length [simp]: "length (skip_ws s) \<le> length s"
  by (simp add: skip_ws_def length_dropWhile_le)

lemma skip_ws_Cons: "skip_ws s = c # r \<Longrightarrow> length r < length s"
  using skip_ws_length [of s] by simp

lemma scan_str_length: "scan_str s = Some (t, r) \<Longrightarrow> length r < length s"
proof (induction s arbitrary: t rule: scan_str.induct)
  case (1 s)
  show ?case
  proof (cases "s = [] \<or> hd s = quote")
    case True
    with 1(2) show ?thesis by (cases s) auto
  next
    case False
    with 1(2) obtain u v w where "scan_item s = Some (u, v)" "scan_str v = Some (w, r)"
      by (auto simp: scan_str.simps [of s] split: option.splits)
    with 1(1) False have "length r < length v" "length v < length s" by (auto dest: scan_item_length)
    then show ?thesis by simp
  qed
qed

text \<open>Every call of the parser below works on a shorter text, or on the same text one level further in.\<close>

definition parse_measure :: "(nat \<times> string) + (nat \<times> string) + (nat \<times> string) \<Rightarrow> nat" where
  "parse_measure x = (case x of Inl (d, s) \<Rightarrow> 2 * length s | Inr (Inl (d, s)) \<Rightarrow> 2 * length s + 1 | Inr (Inr (d, s)) \<Rightarrow> 2 * length s + 1)"

lemma skip_ws_skip [dest]: "skip_ws s = c # r \<Longrightarrow> length r + 1 \<le> length s"
  using skip_ws_length [of s] by simp

text \<open>
  The parser of \<open>json.Decoder\<close>: \<open>d\<close> is the number of arrays and objects that may still be opened.
  After a value the rest of the text is returned unread.
\<close>

function parse_value :: "nat \<Rightarrow> string \<Rightarrow> (jv \<times> string) option"
  and parse_elems :: "nat \<Rightarrow> string \<Rightarrow> (jv list \<times> string) option"
  and parse_members :: "nat \<Rightarrow> string \<Rightarrow> ((string \<times> jv) list \<times> string) option" where
  "parse_value d s =
     (case skip_ws s of
        [] \<Rightarrow> None
      | c # cs \<Rightarrow>
          if c = quote then map_option (\<lambda>(t, r). (JvStr t, r)) (scan_str cs)
          else if c = CHR ''{'' then
            (if d = 0 then None
             else case skip_ws cs of
                 x # r \<Rightarrow> if x = CHR ''}'' then Some (JvObj [], r)
                   else map_option (\<lambda>(ms, r). (JvObj ms, r)) (parse_members (d - 1) (x # r))
               | [] \<Rightarrow> None)
          else if c = CHR ''['' then
            (if d = 0 then None
             else case skip_ws cs of
                 x # r \<Rightarrow> if x = CHR '']'' then Some (JvArr [], r)
                   else map_option (\<lambda>(vs, r). (JvArr vs, r)) (parse_elems (d - 1) (x # r))
               | [] \<Rightarrow> None)
          else if take 4 (c # cs) = ''true'' then Some (JvBool True, drop 3 cs)
          else if take 5 (c # cs) = ''false'' then Some (JvBool False, drop 4 cs)
          else if take 4 (c # cs) = ''null'' then Some (JvNull, drop 3 cs)
          else map_option (\<lambda>(n, r). (JvNum n, r)) (scan_num (c # cs)))"
| "parse_elems d s =
     (case parse_value d s of
        None \<Rightarrow> None
      | Some (v, r) \<Rightarrow>
          (case skip_ws r of
             c # r1 \<Rightarrow>
               if length r1 < length s then
                 (if c = CHR '']'' then Some ([v], r1)
                  else if c = CHR '','' then map_option (\<lambda>(vs, q). (v # vs, q)) (parse_elems d r1)
                  else None)
               else None
           | [] \<Rightarrow> None))"
| "parse_members d s =
     (case skip_ws s of
        x # s1 \<Rightarrow>
          if x \<noteq> quote then None
          else (case scan_str s1 of
             None \<Rightarrow> None
           | Some (k, s2) \<Rightarrow>
               (case skip_ws s2 of
                  y # s3 \<Rightarrow>
                    if y \<noteq> CHR '':'' then None
                    else (case parse_value d s3 of
                       None \<Rightarrow> None
                     | Some (v, r) \<Rightarrow>
                         (case skip_ws r of
                            c # r1 \<Rightarrow>
                              if length r1 < length s then
                                (if c = CHR ''}'' then Some ([(k, v)], r1)
                                 else if c = CHR '','' then map_option (\<lambda>(ms, q). ((k, v) # ms, q)) (parse_members d r1)
                                 else None)
                              else None
                          | [] \<Rightarrow> None))
                | [] \<Rightarrow> None))
      | [] \<Rightarrow> None)"
  by pat_completeness auto

termination
  by (relation "measure parse_measure") (auto simp: parse_measure_def dest!: skip_ws_skip scan_str_length)

declare parse_value.simps [simp del] parse_elems.simps [simp del] parse_members.simps [simp del]

lemma scan_digits_length: "scan_digits s = Some (t, r) \<Longrightarrow> length r < length s \<and> t \<noteq> []"
proof -
  assume "scan_digits s = Some (t, r)"
  then have t: "t = takeWhile is_digit s" "r = dropWhile is_digit s" "t \<noteq> []"
    by (auto simp: scan_digits_def split: if_splits)
  then have "length t + length r = length s" by (metis length_append takeWhile_dropWhile_id)
  moreover have "0 < length t" using t(3) by simp
  ultimately show ?thesis using t(3) by linarith
qed

lemma scan_num_length: "scan_num s = Some (t, r) \<Longrightarrow> length r < length s"
proof -
  assume n: "scan_num s = Some (t, r)"
  define s0 where "s0 = snd (case s of c # cs \<Rightarrow> if c = CHR ''-'' then (''-'', cs) else ([], s) | [] \<Rightarrow> ([], []))"
  have s0: "length s0 \<le> length s" by (auto simp: s0_def split: list.splits)
  from n obtain i s1 f s2 e where p: "scan_int_part s0 = Some (i, s1)" "scan_frac s1 = Some (f, s2)" "scan_exp s2 = Some (e, r)"
    by (auto simp: scan_num_def s0_def Let_def case_prod_beta split: Option.bind_splits)
  have "length s1 < length s0"
    using p(1) by (auto simp: scan_int_part_def split: list.splits if_splits dest: scan_digits_length)
  moreover have "length s2 \<le> length s1"
    using p(2) by (auto simp: scan_frac_def split: list.splits if_splits dest!: scan_digits_length)
  moreover have "length r \<le> length s2"
    using p(3) by (auto simp: scan_exp_def split: list.splits if_splits dest!: scan_digits_length)
  ultimately show ?thesis using s0 by linarith
qed

text \<open>A parsed value is never empty text, so the bounds on the rest in the parser always hold.\<close>

lemma parse_shorter:
  "parse_value d s = Some (v, r) \<Longrightarrow> length r < length s"
  "parse_elems d s = Some (vs, r) \<Longrightarrow> length r < length s"
  "parse_members d s = Some (ms, r) \<Longrightarrow> length r < length s"
proof (induction d s and d s and d s arbitrary: v r and vs r and ms r rule: parse_value_parse_elems_parse_members.induct)
  case (1 d s)
  obtain c cs where s: "skip_ws s = c # cs" "length cs < length s"
    using 1(3) by (cases "skip_ws s") (auto simp: parse_value.simps [of d s] dest: skip_ws_Cons)
  consider (str) t where "scan_str cs = Some (t, r)"
    | (obj) x q ms where "d \<noteq> 0" "skip_ws cs = x # q" "r = q \<or> parse_members (d - 1) (x # q) = Some (ms, r)" "c = CHR ''{''" "x \<noteq> CHR ''}'' \<or> r = q"
    | (arr) x q vs where "d \<noteq> 0" "skip_ws cs = x # q" "r = q \<or> parse_elems (d - 1) (x # q) = Some (vs, r)" "c = CHR ''[''" "x \<noteq> CHR '']'' \<or> r = q"
    | (lit) n where "r = drop n cs" | (num) n where "scan_num (c # cs) = Some (n, r)"
    using 1(3) s by (subst (asm) parse_value.simps) (auto split: if_splits list.splits)
  then show ?case
  proof cases
    case str
    with s show ?thesis by (auto dest: scan_str_length)
  next
    case obj
    with 1(1) s have "length r \<le> length (x # q)" by (auto simp: less_imp_le)
    with obj s skip_ws_Cons [of cs] show ?thesis by fastforce
  next
    case arr
    with 1(2) s have "length r \<le> length (x # q)" by (auto simp: less_imp_le)
    with arr s skip_ws_Cons [of cs] show ?thesis by fastforce
  next
    case num
    with s skip_ws_length [of s] show ?thesis by (auto dest!: scan_num_length)
  qed (use s in auto)
next
  case (2 d s)
  then obtain w q c r1 where q: "parse_value d s = Some (w, q)" "skip_ws q = c # r1" "length r1 < length s"
    "r = r1 \<or> c = CHR '','' \<and> (\<exists>us. parse_elems d r1 = Some (us, r))"
    by (subst (asm) parse_elems.simps) (auto split: if_splits list.splits option.splits)
  moreover have "length r < length r1" if "c = CHR '',''" "parse_elems d r1 = Some (us, r)" for us
    by (rule 2(2) [OF q(1) refl q(2,3)]) (use that in simp_all)
  ultimately show ?case by fastforce
next
  case (3 d s)
  then obtain x s1 k s2 y s3 w q c r1 where q: "skip_ws s = x # s1" "\<not> x \<noteq> quote" "scan_str s1 = Some (k, s2)"
    "skip_ws s2 = y # s3" "\<not> y \<noteq> CHR '':''" "parse_value d s3 = Some (w, q)" "skip_ws q = c # r1" "length r1 < length s"
    "r = r1 \<or> c = CHR '','' \<and> (\<exists>us. parse_members d r1 = Some (us, r))"
    by (subst (asm) parse_members.simps) (auto split: if_splits list.splits option.splits)
  moreover have "length r < length r1" if "c = CHR '',''" "parse_members d r1 = Some (us, r)" for us
    by (rule 3(2) [OF q(1,2,3) refl q(4,5,6) refl q(7,8)]) (use that in simp_all)
  ultimately show ?case by fastforce
qed

section \<open>Printing\<close>

fun print_jv :: "jv \<Rightarrow> string" where
  "print_jv JvNull = ''null''"
| "print_jv (JvBool b) = (if b then ''true'' else ''false'')"
| "print_jv (JvNum n) = n"
| "print_jv (JvStr s) = print_str s"
| "print_jv (JvArr vs) = ''['' @ Join '','' (map print_jv vs) @ '']''"
| "print_jv (JvObj ms) = ''{'' @ Join '','' (map (\<lambda>(k, v). print_str k @ '':'' @ print_jv v) ms) @ ''}''"

text \<open>Values that survive: ASCII strings, integers as the encoder writes them, bounded nesting.\<close>

fun plain_jv :: "nat \<Rightarrow> jv \<Rightarrow> bool" where
  "plain_jv d (JvNum n) = (n = Itoa (fst (Atoi n)))"
| "plain_jv d (JvStr s) = is_ascii s"
| "plain_jv d (JvArr vs) = (0 < d \<and> list_all (plain_jv (d - 1)) vs)"
| "plain_jv d (JvObj ms) = (0 < d \<and> list_all (\<lambda>(k, v). is_ascii k \<and> plain_jv (d - 1) v) ms)"
| "plain_jv d _ = True"

subsection \<open>Strings\<close>

lemma hex_digit_val: "n < 16 \<Longrightarrow> hex_val (hex_digit n) = Some n"
proof -
  have "list_all (\<lambda>n. hex_val (hex_digit n) = Some n) [0..<16]" by code_simp
  then show "n < 16 \<Longrightarrow> ?thesis" by (simp add: list_all_iff)
qed

lemma ascii_rune: "(of_char c :: nat) < 0x80 \<Longrightarrow> rune_len (map of_char (c # cs)) = 1"
  by simp

lemma scan_item_escape:
  assumes "(of_char c :: nat) < 0x80"
  shows "scan_item (escape_ascii c @ t) = Some ([c], t)" and "hd (escape_ascii c @ t) \<noteq> quote"
proof -
  let ?n = "of_char c :: nat"
  have hex: "hex4 (CHR ''0'' # CHR ''0'' # hex_digit (?n div 16) # hex_digit (?n mod 16) # t) = Some ?n"
    using assms by (simp add: hex_digit_val) (simp add: hex_val_def)
  have byte: "rune_bytes ?n = [c]" using assms by (simp add: rune_bytes_def utf8_def)
  let ?short = "[quote, backslash, CHR 0x08, CHR 0x0C, CHR 0x0A, CHR 0x0D, CHR 0x09]"
  have long: "escape_ascii c = (if ?n < 0x20 \<or> c = CHR ''<'' \<or> c = CHR ''>'' \<or> c = CHR ''&''
      then [backslash, CHR ''u'', CHR ''0'', CHR ''0'', hex_digit (?n div 16), hex_digit (?n mod 16)] else [c])"
    if "c \<notin> set ?short"
    using that by (simp add: escape_ascii_def)
  consider (short) "c \<in> set ?short"
    | (hex) "escape_ascii c = [backslash, CHR ''u'', CHR ''0'', CHR ''0'', hex_digit (?n div 16), hex_digit (?n mod 16)]"
    | (self) "escape_ascii c = [c]" "c \<noteq> quote" "c \<noteq> backslash" "\<not> ?n < 0x20"
    using long by (cases "c \<in> set ?short"; cases "?n < 0x20 \<or> c = CHR ''<'' \<or> c = CHR ''>'' \<or> c = CHR ''&''") auto
  then have "scan_item (escape_ascii c @ t) = Some ([c], t) \<and> hd (escape_ascii c @ t) \<noteq> quote"
  proof cases
    case hex
    with assms \<open>hex4 _ = _\<close> byte show ?thesis by (simp add: scan_item_def del: hex4.simps)
  next
    case self
    with assms show ?thesis by (simp add: scan_item_def)
  next
    case short
    then show ?thesis
      unfolding set_simps insert_iff
      by (elim disjE) (simp_all add: escape_ascii_def scan_item_def simple_escape_def)
  qed
  then show "scan_item (escape_ascii c @ t) = Some ([c], t)" "hd (escape_ascii c @ t) \<noteq> quote" by simp_all
qed

lemma escape_ascii_neq_Nil [simp]: "escape_ascii c \<noteq> []"
  by (simp add: escape_ascii_def split: option.split)

lemma scan_str_escape: "is_ascii s \<Longrightarrow> scan_str (escape_body s @ quote # t) = Some (s, t)"
proof (induction s)
  case (Cons c s)
  then have c: "(of_char c :: nat) < 0x80" "is_ascii s" by (simp_all add: is_ascii_def)
  let ?r = "escape_body s @ quote # t"
  have "escape_body (c # s) @ quote # t = escape_ascii c @ ?r"
    using c by (simp add: escape_body.simps)
  moreover have "scan_str (escape_ascii c @ ?r) = emit [c] (scan_str ?r)"
    using scan_item_escape [OF c(1), of ?r] by (subst scan_str.simps) simp
  ultimately show ?case using Cons c by simp
qed (simp add: escape_body.simps)

subsection \<open>Numbers\<close>

lemma nat_dec_zero: "nat_dec n = CHR ''0'' # cs \<Longrightarrow> n = 0 \<and> cs = []"
proof (induction n arbitrary: cs rule: nat_dec.induct)
  case (1 n)
  show ?case
  proof (cases "n < 10")
    case True
    then have "digit_char n = CHR ''0''" "cs = []" using 1(2) by (simp_all add: nat_dec.simps [of n])
    with True show ?thesis using char_digit_char [of n] by (simp add: char_digit_def)
  next
    case False
    then obtain c ds where d: "nat_dec (n div 10) = c # ds" by (metis nat_dec_neq_Nil list.exhaust)
    with 1(2) False have "c = CHR ''0''" by (simp add: nat_dec.simps [of n])
    with 1(1) False d have "n div 10 = 0" by blast
    with False show ?thesis by simp
  qed
qed

definition num_stop :: "string \<Rightarrow> bool" where
  "num_stop s \<longleftrightarrow> s = [] \<or> \<not> is_digit (hd s) \<and> hd s \<noteq> CHR ''.'' \<and> hd s \<noteq> CHR ''e'' \<and> hd s \<noteq> CHR ''E''"

lemma scan_int_part_dec:
  assumes "num_stop r"
  shows "scan_int_part (nat_dec n @ r) = Some (nat_dec n, r)"
proof -
  have tw: "takeWhile is_digit (nat_dec n @ r) = nat_dec n" "dropWhile is_digit (nat_dec n @ r) = r"
    using nat_dec_digits [of n] assms
    by (cases r; auto simp: num_stop_def list_all_iff takeWhile_append2 dropWhile_append2)+
  obtain c cs where c: "nat_dec n = c # cs" by (metis nat_dec_neq_Nil list.exhaust)
  with nat_dec_zero [of n cs] tw show ?thesis
    by (auto simp: scan_int_part_def scan_digits_def)
qed

lemma scan_num_Itoa:
  assumes "num_stop r"
  shows "scan_num (Itoa i @ r) = Some (Itoa i, r)"
proof -
  have tail: "scan_frac r = Some ([], r)" "scan_exp r = Some ([], r)"
    using assms by (cases r; simp add: num_stop_def scan_frac_def scan_exp_def)+
  obtain c cs where c: "nat_dec (nat i) = c # cs" "is_digit c" using nat_dec_Cons by blast
  show ?thesis
  proof (cases "i < 0")
    case True
    then show ?thesis using tail by (simp add: scan_num_def Itoa_def scan_int_part_dec [OF assms])
  next
    case False
    then show ?thesis
      using tail is_digit_not_sign [OF c(2)] scan_int_part_dec [OF assms, of "nat i"]
      by (simp add: scan_num_def Itoa_def c(1))
  qed
qed

subsection \<open>Values\<close>

lemma skip_ws_id: "s \<noteq> [] \<Longrightarrow> \<not> is_ws (hd s) \<Longrightarrow> skip_ws s = s"
  by (cases s) (simp_all add: skip_ws_def)

lemma skip_ws_char [simp]: "\<not> is_ws c \<Longrightarrow> skip_ws (c # s) = c # s"
  by (simp add: skip_ws_def)

lemma not_ws [simp]: "\<not> is_ws quote" "\<not> is_ws CHR ''{''" "\<not> is_ws CHR ''}''" "\<not> is_ws CHR ''[''"
  "\<not> is_ws CHR '']''" "\<not> is_ws CHR '',''" "\<not> is_ws CHR '':''"
  by (simp_all add: is_ws_def)

lemma num_stop_simps [simp]:
  "num_stop []" "num_stop (CHR '']'' # s)" "num_stop (CHR ''}'' # s)" "num_stop (CHR '','' # s)"
  by (simp_all add: num_stop_def is_digit_def)

text \<open>The first character of a printed value is not white space and closes nothing.\<close>

lemma Itoa_Cons: "\<exists>c cs. Itoa i = c # cs \<and> (is_digit c \<or> c = CHR ''-'')"
  using nat_dec_Cons [of "nat i"] by (auto simp: Itoa_def)

lemma print_jv_hd:
  assumes "plain_jv d v"
  obtains c cs where "print_jv v = c # cs" "\<not> is_ws c" "c \<noteq> CHR '']''" "c \<noteq> CHR ''}''"
proof (cases v)
  case (JvNum n)
  obtain c cs where "n = c # cs" "is_digit c \<or> c = CHR ''-''"
    using assms JvNum Itoa_Cons [of "fst (Atoi n)"] by fastforce
  with JvNum show thesis by (intro that) (auto simp: is_ws_def is_digit_def)
next
  case (JvBool b)
  then show thesis using that by (cases b) (auto simp: is_ws_def)
qed (use that in \<open>auto simp: print_str_def is_ws_def split: if_splits\<close>)

lemma parse_str: "is_ascii s \<Longrightarrow> parse_value d (print_str s @ r) = Some (JvStr s, r)"
  by (simp add: parse_value.simps print_str_def scan_str_escape)

lemma parse_num: "num_stop r \<Longrightarrow> parse_value d (Itoa i @ r) = Some (JvNum (Itoa i), r)"
proof -
  assume r: "num_stop r"
  obtain c cs where c: "Itoa i @ r = c # cs" "is_digit c \<or> c = CHR ''-''"
    using Itoa_Cons [of i] by fastforce
  then have "c \<noteq> quote" "c \<noteq> CHR ''{''" "c \<noteq> CHR ''[''" "c \<noteq> CHR ''t''" "c \<noteq> CHR ''f''" "c \<noteq> CHR ''n''" "\<not> is_ws c"
    by (auto simp: is_digit_def is_ws_def)
  with scan_num_Itoa [OF r, of i] show ?thesis
    by (simp add: parse_value.simps c(1))
qed

lemma Join_Cons: "Join sep (p # ps) = p @ (if ps = [] then [] else sep @ Join sep ps)"
  by (cases ps) simp_all

lemma parse_elems_print:
  assumes "vs \<noteq> []" and "\<And>v r. v \<in> set vs \<Longrightarrow> num_stop r \<Longrightarrow> parse_value d (print_jv v @ r) = Some (v, r)"
  shows "parse_elems d (Join '','' (map print_jv vs) @ CHR '']'' # r) = Some (vs, r)"
  using assms
proof (induction vs)
  case (Cons v vs)
  show ?case
  proof (cases "vs = []")
    case True
    with Cons(3) [of v "CHR '']'' # r"] show ?thesis by (simp add: parse_elems.simps)
  next
    case False
    let ?r = "Join '','' (map print_jv vs) @ CHR '']'' # r"
    have "parse_value d (print_jv v @ CHR '','' # ?r) = Some (v, CHR '','' # ?r)" using Cons(3) by simp
    moreover have "parse_elems d ?r = Some (vs, r)" using Cons False by simp
    ultimately show ?thesis using False by (simp add: Join_Cons parse_elems.simps [of d "print_jv v @ _"])
  qed
qed simp

abbreviation print_member :: "string \<times> jv \<Rightarrow> string" where
  "print_member m \<equiv> (case m of (k, v) \<Rightarrow> print_str k @ '':'' @ print_jv v)"

lemma parse_members_print:
  assumes "ms \<noteq> []" and "\<And>k v. (k, v) \<in> set ms \<Longrightarrow> is_ascii k"
    and "\<And>k v r. (k, v) \<in> set ms \<Longrightarrow> num_stop r \<Longrightarrow> parse_value d (print_jv v @ r) = Some (v, r)"
  shows "parse_members d (Join '','' (map print_member ms) @ CHR ''}'' # r) = Some (ms, r)"
  using assms
proof (induction ms)
  case (Cons m ms)
  obtain k v where m: "m = (k, v)" by (cases m)
  have k: "scan_str (escape_body k @ quote # t) = Some (k, t)" for t
    using Cons(3) m by (intro scan_str_escape) auto
  show ?case
  proof (cases "ms = []")
    case True
    with Cons(4) [of k v "CHR ''}'' # r"] k m show ?thesis
      by (simp add: parse_members.simps print_str_def)
  next
    case False
    let ?r = "Join '','' (map print_member ms) @ CHR ''}'' # r"
    have v: "parse_value d (print_jv v @ CHR '','' # ?r) = Some (v, CHR '','' # ?r)"
      by (rule Cons(4) [of k]) (simp_all add: m)
    have "parse_members d ?r = Some (ms, r)" using Cons False by fastforce
    with v k m False show ?thesis
      by (simp add: Join_Cons print_str_def parse_members.simps [of d "quote # _"])
  qed
qed simp

lemma parse_print:
  "plain_jv d v \<Longrightarrow> num_stop r \<Longrightarrow> parse_value d (print_jv v @ r) = Some (v, r)"
proof (induction v arbitrary: d r)
  case (JvNum n)
  then show ?case using parse_num [of r d "fst (Atoi n)"] by simp
next
  case (JvStr s)
  then show ?case by (simp add: parse_str)
next
  case (JvArr vs)
  show ?case
  proof (cases "vs = []")
    case True
    with JvArr show ?thesis by (simp add: parse_value.simps)
  next
    case False
    then obtain v us where vs: "vs = v # us" by (cases vs) auto
    with JvArr(2) obtain c cs where c: "print_jv v = c # cs" "\<not> is_ws c" "c \<noteq> CHR '']''"
      by (auto elim: print_jv_hd)
    have "parse_elems (d - 1) (Join '','' (map print_jv vs) @ CHR '']'' # r) = Some (vs, r)"
      using JvArr False by (intro parse_elems_print) (auto simp: list_all_iff)
    with c JvArr(2) vs show ?thesis by (simp add: Join_Cons parse_value.simps [of d])
  qed
next
  case (JvObj ms)
  show ?case
  proof (cases "ms = []")
    case True
    with JvObj show ?thesis by (simp add: parse_value.simps)
  next
    case False
    then obtain m us where ms: "ms = m # us" by (cases ms) auto
    have "parse_members (d - 1) (Join '','' (map print_member ms) @ CHR ''}'' # r) = Some (ms, r)"
    proof (rule parse_members_print [OF False])
      fix k v r'
      assume kv: "(k, v) \<in> set ms"
      then show "is_ascii k" using JvObj(2) by (auto simp: list_all_iff)
      assume "num_stop r'"
      with kv JvObj(2) show "parse_value (d - 1) (print_jv v @ r') = Some (v, r')"
        by (intro JvObj(1) [of "(k, v)"]) (auto simp: list_all_iff)
    qed
    with JvObj(2) ms show ?thesis by (cases m) (simp add: Join_Cons print_str_def parse_value.simps [of d])
  qed
qed (simp_all add: parse_value.simps is_ws_def skip_ws_def)

text \<open>An object ends at its brace, whatever follows.\<close>

lemma parse_obj:
  assumes "plain_jv d (JvObj ms)"
  shows "parse_value d (print_jv (JvObj ms) @ r) = Some (JvObj ms, r)"
proof (cases "ms = []")
  case True
  with assms show ?thesis by (simp add: parse_value.simps)
next
  case False
  then obtain m us where ms: "ms = m # us" by (cases ms) auto
  have "parse_members (d - 1) (Join '','' (map print_member ms) @ CHR ''}'' # r) = Some (ms, r)"
    using assms by (intro parse_members_print [OF False] parse_print) (auto simp: list_all_iff)
  with assms ms show ?thesis by (cases m) (simp add: Join_Cons print_str_def parse_value.simps [of d])
qed

end
