(* ===== verification/Base64.thy ===== *)
theory Base64
  imports Go_Strings
begin

text \<open>
  \<open>encoding/base64\<close> as the backend uses it: \<open>StdEncoding\<close> (padded) for TURN
  credentials and \<open>RawStdEncoding\<close> (no padding) for password hashes; and
  \<open>encoding/hex\<close>. Bytes are the characters of a string.
\<close>

definition b64_alphabet :: string where
  "b64_alphabet = ''ABCDEFGHIJKLMNOPQRSTUVWXYZabcdefghijklmnopqrstuvwxyz0123456789+/''"

definition b64_char :: "nat \<Rightarrow> char" where
  "b64_char i = b64_alphabet ! i"

fun index_of :: "char \<Rightarrow> string \<Rightarrow> nat option" where
  "index_of c [] = None"
| "index_of c (x # xs) = (if x = c then Some 0 else map_option Suc (index_of c xs))"

definition b64_val :: "char \<Rightarrow> nat option" where
  "b64_val c = index_of c b64_alphabet"

fun enc_sextets :: "nat list \<Rightarrow> nat list" where
  "enc_sextets [] = []"
| "enc_sextets [a] = [a div 4, (a mod 4) * 16]"
| "enc_sextets [a, b] = [a div 4, (a mod 4) * 16 + b div 16, (b mod 16) * 4]"
| "enc_sextets (a # b # c # r) =
     [a div 4, (a mod 4) * 16 + b div 16, (b mod 16) * 4 + c div 64, c mod 64] @ enc_sextets r"

text \<open>One left-over sextet is an error; surplus bits of the last sextet are dropped.\<close>

fun dec_sextets :: "nat list \<Rightarrow> nat list option" where
  "dec_sextets [] = Some []"
| "dec_sextets [x] = None"
| "dec_sextets [x, y] = Some [x * 4 + y div 16]"
| "dec_sextets [x, y, z] = Some [x * 4 + y div 16, (y mod 16) * 16 + z div 4]"
| "dec_sextets (x # y # z # w # r) =
     map_option (\<lambda>bs. [x * 4 + y div 16, (y mod 16) * 16 + z div 4, (z mod 4) * 64 + w] @ bs)
       (dec_sextets r)"

fun all_some :: "'a option list \<Rightarrow> 'a list option" where
  "all_some [] = Some []"
| "all_some (None # xs) = None"
| "all_some (Some x # xs) = map_option ((#) x) (all_some xs)"

definition raw_EncodeToString :: "string \<Rightarrow> string" where
  "raw_EncodeToString s = map b64_char (enc_sextets (map of_char s))"

text \<open>The decoder skips carriage returns and line feeds.\<close>

definition raw_DecodeString :: "string \<Rightarrow> string res" where
  "raw_DecodeString s =
     (case all_some (map b64_val (filter (\<lambda>c. c \<noteq> CHR 0x0D \<and> c \<noteq> CHR 0x0A) s)) of
        None \<Rightarrow> Inl (ErrExt ''illegal base64 data'')
      | Some xs \<Rightarrow>
          (case dec_sextets xs of
             None \<Rightarrow> Inl (ErrExt ''illegal base64 data'')
           | Some bs \<Rightarrow> Inr (map char_of bs)))"

definition std_EncodeToString :: "string \<Rightarrow> string" where
  "std_EncodeToString s =
     raw_EncodeToString s @ replicate ((3 - length s mod 3) mod 3) CHR ''=''"

definition hex_digits :: string where
  "hex_digits = ''0123456789abcdef''"

definition hex_EncodeToString :: "string \<Rightarrow> string" where
  "hex_EncodeToString s =
     concat (map (\<lambda>c. [hex_digits ! (of_char c div 16), hex_digits ! (of_char c mod 16)]) s)"

section \<open>Round trips\<close>

lemma b64_table:
  "list_all (\<lambda>i. b64_val (b64_char i) = Some i \<and> b64_char i \<noteq> CHR 0x0D \<and> b64_char i \<noteq> CHR 0x0A
     \<and> b64_char i \<noteq> CHR ''$'') [0..<64]"
  by code_simp

lemma b64_val_char [simp]:
  "i < 64 \<Longrightarrow> b64_val (b64_char i) = Some i"
  "i < 64 \<Longrightarrow> b64_char i \<noteq> CHR 0x0D" "i < 64 \<Longrightarrow> b64_char i \<noteq> CHR 0x0A" "i < 64 \<Longrightarrow> b64_char i \<noteq> CHR ''$''"
  using b64_table by (auto simp: list_all_iff)

lemma enc_sextets_bound: "\<forall>b \<in> set bs. b < 256 \<Longrightarrow> x \<in> set (enc_sextets bs) \<Longrightarrow> x < 64"
proof (induction bs rule: enc_sextets.induct)
  case (3 a b)
  have "(a mod 4) * 16 + b div 16 < 64" "(b mod 16) * 4 < 64" "a div 4 < 64" using 3 by auto
  with 3 show ?case by auto
next
  case (4 a b c r)
  have "(a mod 4) * 16 + b div 16 < 64" "(b mod 16) * 4 + c div 64 < 64" "a div 4 < 64" "c mod 64 < 64"
    using 4 by auto
  with 4 show ?case by auto
qed auto

lemma div_mod_combine:
  fixes a b k m :: nat
  assumes "b < k * m" and "0 < m"
  shows "(a * k + b div m) div k = a" "(a * k + b div m) mod k = b div m"
proof -
  have "b div m < k" using assms by (simp add: less_mult_imp_div_less)
  then show "(a * k + b div m) div k = a" "(a * k + b div m) mod k = b div m" by simp_all
qed

lemma dec_enc_sextets: "\<forall>b \<in> set bs. b < 256 \<Longrightarrow> dec_sextets (enc_sextets bs) = Some bs"
proof (induction bs rule: enc_sextets.induct)
  case (3 a b)
  then show ?case using div_mod_combine [of b 16 16 "a mod 4"] by simp
next
  case (4 a b c r)
  then show ?case
    using div_mod_combine [of b 16 16 "a mod 4"] div_mod_combine [of c 4 64 "b mod 16"] by simp
qed auto

lemma all_some_map: "(\<And>x. x \<in> set xs \<Longrightarrow> f (g x) = Some x) \<Longrightarrow> all_some (map f (map g xs)) = Some xs"
  by (induction xs) simp_all

lemma of_char_bound [simp]: "(of_char c :: nat) < 256"
  using of_char_mod_256 [of c] by (metis mod_less_divisor zero_less_numeral)

lemma raw_roundtrip: "raw_DecodeString (raw_EncodeToString s) = Inr s"
proof -
  let ?xs = "enc_sextets (map of_char s)"
  have b: "\<And>x. x \<in> set ?xs \<Longrightarrow> x < 64" by (rule enc_sextets_bound) auto
  have "filter (\<lambda>c. c \<noteq> CHR 0x0D \<and> c \<noteq> CHR 0x0A) (map b64_char ?xs) = map b64_char ?xs"
    using b by (auto simp: filter_id_conv)
  moreover have "all_some (map b64_val (map b64_char ?xs)) = Some ?xs"
    using b by (intro all_some_map) simp
  moreover have "dec_sextets ?xs = Some (map of_char s)"
    by (rule dec_enc_sextets) auto
  ultimately show ?thesis
    by (simp add: raw_DecodeString_def raw_EncodeToString_def o_def)
qed

lemma raw_no_dollar: "CHR ''$'' \<notin> set (raw_EncodeToString s)"
proof
  assume "CHR ''$'' \<in> set (raw_EncodeToString s)"
  then obtain x where x: "x \<in> set (enc_sextets (map of_char s))" "b64_char x = CHR ''$''"
    by (auto simp: raw_EncodeToString_def)
  then have "x < 64" using enc_sextets_bound [of "map of_char s" x] by auto
  with x(2) show False using b64_val_char(4) by blast
qed

lemma length_hex [simp]: "length (hex_EncodeToString s) = 2 * length s"
  by (simp add: hex_EncodeToString_def length_concat o_def sum_list_triv)

text \<open>
  The padded decoder: the text without line breaks has a length divisible by four and ends in at most
  two \<open>=\<close>.
\<close>

definition strip_pad :: "string \<Rightarrow> string" where
  "strip_pad s =
     (if drop (length s - 2) s = ''=='' then take (length s - 2) s
      else if drop (length s - 1) s = ''='' then take (length s - 1) s else s)"

definition std_DecodeString :: "string \<Rightarrow> string res" where
  "std_DecodeString s =
     (let t = filter (\<lambda>c. c \<noteq> CHR 0x0D \<and> c \<noteq> CHR 0x0A) s
      in if length t mod 4 \<noteq> 0 then Inl (ErrExt ''illegal base64 data'') else raw_DecodeString (strip_pad t))"

lemma length_enc_sextets:
  "length (enc_sextets bs) = 4 * (length bs div 3) + (if length bs mod 3 = 0 then 0 else length bs mod 3 + 1)"
proof (induction bs rule: enc_sextets.induct)
  case (4 a b c r)
  define n where "n = length r"
  have "length (a # b # c # r) = n + 3" by (simp add: n_def)
  moreover have "(n + 3) div 3 = n div 3 + 1" "(n + 3) mod 3 = n mod 3" by simp_all
  moreover have "length (enc_sextets (a # b # c # r)) = length (enc_sextets r) + 4" by simp
  ultimately show ?case using 4 unfolding n_def by (simp only:) simp
qed simp_all

lemma padded_length:
  fixes n :: nat
  shows "(4 * (n div 3) + (if n mod 3 = 0 then 0 else n mod 3 + 1) + (3 - n mod 3) mod 3) mod 4 = 0"
proof -
  have "n mod 3 = 0 \<or> n mod 3 = 1 \<or> n mod 3 = 2" by linarith
  then show ?thesis by (elim disjE) simp_all
qed

lemma b64_no_pad: "i < 64 \<Longrightarrow> b64_char i \<noteq> CHR ''=''"
proof -
  have "list_all (\<lambda>i. b64_char i \<noteq> CHR ''='') [0..<64]" by code_simp
  then show "i < 64 \<Longrightarrow> ?thesis" by (simp add: list_all_iff)
qed

lemma raw_chars:
  assumes "c \<in> set (raw_EncodeToString s)"
  shows "c \<noteq> CHR ''=''" "c \<noteq> CHR 0x0D" "c \<noteq> CHR 0x0A"
proof -
  obtain i where "i \<in> set (enc_sextets (map of_char s))" "c = b64_char i"
    using assms by (auto simp: raw_EncodeToString_def)
  moreover then have "i < 64" using enc_sextets_bound [of "map of_char s" i] by auto
  ultimately show "c \<noteq> CHR ''=''" "c \<noteq> CHR 0x0D" "c \<noteq> CHR 0x0A" by (simp_all add: b64_no_pad)
qed

lemma strip_pad_append:
  assumes "CHR ''='' \<notin> set s" and "k < 3"
  shows "strip_pad (s @ replicate k CHR ''='') = s"
proof -
  consider "k = 0" | "k = 1" | "k = 2" using assms(2) by linarith
  then show ?thesis
  proof cases
    case 1
    have "CHR ''='' \<in> set s" if "drop n s = ''=='' \<or> drop n s = ''=''" for n
      using that by (metis in_set_dropD list.set_intros(1))
    with assms(1) 1 show ?thesis by (auto simp: strip_pad_def)
  next
    case 2
    with assms(1) show ?thesis by (cases s rule: rev_cases) (auto simp: strip_pad_def)
  next
    case 3
    then show ?thesis by (simp add: strip_pad_def numeral_2_eq_2)
  qed
qed

lemma std_roundtrip: "std_DecodeString (std_EncodeToString s) = Inr s"
proof -
  let ?k = "(3 - length s mod 3) mod 3"
  have f: "filter (\<lambda>c. c \<noteq> CHR 0x0D \<and> c \<noteq> CHR 0x0A) (std_EncodeToString s) = std_EncodeToString s"
    by (auto simp: std_EncodeToString_def filter_id_conv dest: raw_chars)
  have "length (std_EncodeToString s) mod 4 = 0"
    using padded_length [of "length s"] by (simp add: std_EncodeToString_def raw_EncodeToString_def length_enc_sextets)
  moreover have "strip_pad (std_EncodeToString s) = raw_EncodeToString s"
    unfolding std_EncodeToString_def by (rule strip_pad_append) (auto dest: raw_chars)
  ultimately show ?thesis by (simp add: std_DecodeString_def f raw_roundtrip)
qed

lemma ascii_std: "is_ascii (std_EncodeToString s)"
proof -
  have "list_all (\<lambda>i. (of_char (b64_char i) :: nat) < 128) [0..<64]" by code_simp
  then have b: "i < 64 \<Longrightarrow> (of_char (b64_char i) :: nat) < 128" for i by (simp add: list_all_iff)
  have "x < 64" if "x \<in> set (enc_sextets (map of_char s))" for x
    using enc_sextets_bound [OF _ that] by auto
  with b show ?thesis
    by (auto simp: is_ascii_def std_EncodeToString_def raw_EncodeToString_def list_all_iff)
qed

lemma ascii_hex: "is_ascii (hex_EncodeToString s)"
proof -
  have "list_all (\<lambda>i. (of_char (hex_digits ! i) :: nat) < 128) [0..<16]" by code_simp
  then have "i < 16 \<Longrightarrow> (of_char (hex_digits ! i) :: nat) < 128" for i by (simp add: list_all_iff)
  then show ?thesis by (auto simp: is_ascii_def hex_EncodeToString_def list_all_iff Let_def less_mult_imp_div_less)
qed

end
