(* ===== verification/Http.thy ===== *)
theory Http
  imports Go_Strings
begin

text \<open>
  Requests and responses as the handlers see them. A request carries its query parameters,
  headers (under their canonical names), path values, the address of the peer and the
  principal that the authentication middleware stores in its context. A response is a status,
  headers and a body, which is plain text or a JSON value; \<open>WriteJSON\<close> and
  \<open>WriteError\<close> are those of \<open>httputil/json.go\<close>. The bytes of JSON texts are not
  modelled: a handler takes the outcome of \<open>httputil.DecodeJSON\<close> (a request struct or
  an error) as an argument.
\<close>

datatype json =
    JNull
  | JBool bool
  | JInt int
  | JStr string
  | JTime time
  | JArr "json list"
  | JObj "(string \<times> json) list"

datatype rbody = NoBody | Plain string | Json json

record response =
  rs_status :: int
  rs_headers :: "(string, string) gomap"
  rs_body :: rbody

definition WriteJSON :: "int \<Rightarrow> json option \<Rightarrow> response" where
  "WriteJSON status v =
     \<lparr>rs_status = status, rs_headers = [(''Content-Type'', ''application/json'')],
      rs_body = (case v of None \<Rightarrow> NoBody | Some j \<Rightarrow> Json j)\<rparr>"

definition WriteError :: "int \<Rightarrow> string \<Rightarrow> response" where
  "WriteError status msg = WriteJSON status (Some (JObj [(''error'', JStr msg)]))"

text \<open>\<open>http.Error\<close> and a bare \<open>WriteHeader\<close> followed by \<open>Write\<close>.\<close>

definition http_Error :: "string \<Rightarrow> int \<Rightarrow> response" where
  "http_Error msg status =
     \<lparr>rs_status = status, rs_headers = [(''Content-Type'', ''text/plain; charset=utf-8''),
        (''X-Content-Type-Options'', ''nosniff'')], rs_body = Plain (msg @ [CHR 0x0A])\<rparr>"

definition http_Text :: "int \<Rightarrow> string \<Rightarrow> response" where
  "http_Text status msg = \<lparr>rs_status = status, rs_headers = [], rs_body = Plain msg\<rparr>"

abbreviation "StatusOK \<equiv> 200 :: int"
abbreviation "StatusCreated \<equiv> 201 :: int"
abbreviation "StatusBadRequest \<equiv> 400 :: int"
abbreviation "StatusUnauthorized \<equiv> 401 :: int"
abbreviation "StatusForbidden \<equiv> 403 :: int"
abbreviation "StatusNotFound \<equiv> 404 :: int"
abbreviation "StatusConflict \<equiv> 409 :: int"
abbreviation "StatusTooManyRequests \<equiv> 429 :: int"
abbreviation "StatusInternalServerError \<equiv> 500 :: int"
abbreviation "StatusServiceUnavailable \<equiv> 503 :: int"

section \<open>Requests\<close>

record Principal =
  pr_UserID :: uuid
  pr_OrgID :: uuid
  pr_Role :: string

record request =
  rq_method :: string
  rq_path :: string
  rq_query :: "(string, string) gomap"
  rq_header :: "(string, string) gomap"
  rq_pathvals :: "(string, string) gomap"
  rq_RemoteAddr :: string
  rq_principal :: "Principal option"

definition FromContext :: "request \<Rightarrow> Principal option" where
  "FromContext r = rq_principal r"

definition with_principal :: "Principal \<Rightarrow> request \<Rightarrow> request" where
  "with_principal p r = r\<lparr>rq_principal := Some p\<rparr>"

definition Header_Get :: "request \<Rightarrow> string \<Rightarrow> string" where
  "Header_Get r k = map_get '''' (rq_header r) k"

definition Query_Get :: "request \<Rightarrow> string \<Rightarrow> string" where
  "Query_Get r k = map_get '''' (rq_query r) k"

definition PathValue :: "request \<Rightarrow> string \<Rightarrow> string" where
  "PathValue r k = map_get '''' (rq_pathvals r) k"

type_synonym 's handler = "request \<Rightarrow> 's \<Rightarrow> response \<times> 's"

lemma status_simps [simp]:
  "rs_status (WriteJSON n v) = n" "rs_status (WriteError n m) = n"
  "rs_status (http_Error m n) = n" "rs_status (http_Text n m) = n"
  by (simp_all add: WriteJSON_def WriteError_def http_Error_def http_Text_def)

lemma body_simps [simp]:
  "rs_body (WriteJSON n (Some j)) = Json j"
  "rs_body (WriteError n m) = Json (JObj [(''error'', JStr m)])"
  "rs_body (http_Error m n) = Plain (m @ [CHR 0x0A])"
  by (simp_all add: WriteJSON_def WriteError_def http_Error_def)

lemma FromContext_with [simp]: "FromContext (with_principal p r) = Some p"
  by (simp add: FromContext_def with_principal_def)

end
