(* ===== verification/Requests.thy ===== *)
theory Requests
  imports Json Base64 Http
begin

text \<open>
  Decoding request bodies (\<open>httputil.DecodeJSON\<close>) and the structs that travel as JSON through Redis.
  A destination struct is the list of its JSON field names with their current values; the dynamic
  type of a value is its constructor. Decoding stores what fits, remembers the first error and goes
  on, as \<open>encoding/json\<close> does. The wording of the library's errors is abbreviated.
\<close>

datatype fval = VStr string | VInt int | VBool bool | VBytes string

type_synonym struct = "(string \<times> fval) list"

section \<open>Structs\<close>

definition errType :: go_error where
  "errType = ErrExt ''json: cannot unmarshal value into Go struct field''"

definition errUnknown :: "string \<Rightarrow> go_error" where
  "errUnknown k = ErrExt (''json: unknown field '' @ [quote] @ k @ [quote])"

text \<open>\<open>null\<close> leaves scalars alone; numbers must be integers that fit 64 bits.\<close>

fun store :: "fval \<Rightarrow> jv \<Rightarrow> fval res" where
  "store (VBytes _) JvNull = Inr (VBytes [])"
| "store old JvNull = Inr old"
| "store (VStr _) (JvStr s) = Inr (VStr s)"
| "store (VBool _) (JvBool b) = Inr (VBool b)"
| "store (VInt _) (JvNum n) = (case Atoi n of (i, ok) \<Rightarrow> if ok then Inr (VInt i) else Inl errType)"
| "store (VBytes _) (JvStr s) = (case std_DecodeString s of Inl e \<Rightarrow> Inl e | Inr bs \<Rightarrow> Inr (VBytes bs))"
| "store _ _ = Inl errType"

text \<open>
  Field names match exactly, or else up to case; the two letters outside ASCII that fold to an ASCII
  letter are the long s and the Kelvin sign.
\<close>

fun fold_key :: "string \<Rightarrow> string" where
  "fold_key (a # b # c # s) =
     (if [a, b] = utf8 [0xC5, 0xBF] then CHR ''s'' # fold_key (c # s)
      else if [a, b, c] = utf8 [0xE2, 0x84, 0xAA] then CHR ''k'' # fold_key s
      else ascii_lower a # fold_key (b # c # s))"
| "fold_key [a, b] = (if [a, b] = utf8 [0xC5, 0xBF] then [CHR ''s''] else [ascii_lower a, ascii_lower b])"
| "fold_key [a] = [ascii_lower a]"
| "fold_key [] = []"

definition find_field :: "struct \<Rightarrow> string \<Rightarrow> string option" where
  "find_field st k =
     (if k \<in> fst ` set st then Some k else map_option fst (find (\<lambda>(f, _). fold_key f = fold_key k) st))"

definition store_member :: "bool \<Rightarrow> string \<times> jv \<Rightarrow> struct \<times> go_error option \<Rightarrow> struct \<times> go_error option" where
  "store_member strict kv acc =
     (case (kv, acc) of ((k, v), (st, err)) \<Rightarrow>
        (case find_field st k of
           None \<Rightarrow> (st, if strict \<and> err = None then Some (errUnknown k) else err)
         | Some f \<Rightarrow>
             (case store (the (map_of st f)) v of
                Inl e \<Rightarrow> (st, if err = None then Some e else err)
              | Inr x \<Rightarrow> (map_set f x st, err))))"

definition decode_struct :: "bool \<Rightarrow> struct \<Rightarrow> jv \<Rightarrow> struct \<times> go_error option" where
  "decode_struct strict st v =
     (case v of
        JvObj ms \<Rightarrow> fold (store_member strict) ms (st, None)
      | JvNull \<Rightarrow> (st, None)
      | _ \<Rightarrow> (st, Some errType))"

text \<open>\<open>json.Unmarshal\<close>: the whole text is one value; unknown fields are ignored.\<close>

definition Unmarshal :: "struct \<Rightarrow> string \<Rightarrow> struct \<times> go_error option" where
  "Unmarshal st s =
     (case parse_value maxNestingDepth s of
        None \<Rightarrow> (st, Some (ErrExt ''invalid JSON''))
      | Some (v, r) \<Rightarrow> if skip_ws r = [] then decode_struct False st v else (st, Some (ErrExt ''invalid JSON'')))"

fun jv_of :: "fval \<Rightarrow> jv" where
  "jv_of (VStr s) = JvStr s"
| "jv_of (VInt i) = JvNum (Itoa i)"
| "jv_of (VBool b) = JvBool b"
| "jv_of (VBytes s) = JvStr (std_EncodeToString s)"

definition struct_jv :: "struct \<Rightarrow> jv" where
  "struct_jv st = JvObj (map (\<lambda>(k, x). (k, jv_of x)) st)"

definition Marshal :: "struct \<Rightarrow> string" where
  "Marshal st = print_jv (struct_jv st)"

section \<open>Request bodies\<close>

definition maxBodyBytes :: nat where
  "maxBodyBytes = 2 ^ 20"

definition container :: "jv \<Rightarrow> bool" where
  "container v = (case v of JvObj _ \<Rightarrow> True | JvArr _ \<Rightarrow> True | _ \<Rightarrow> False)"

text \<open>
  The reader delivers the first mebibyte and then fails if there is more. The decoder reads one value
  (which has ended when its bracket closes, and otherwise when the next byte or the end of the text
  is seen), stores it, and then expects the end of the text.
\<close>

definition errTooLarge :: go_error where
  "errTooLarge = ErrExt ''http: request body too large''"

definition DecodeJSON :: "struct \<Rightarrow> string \<Rightarrow> struct \<times> go_error option" where
  "DecodeJSON dst body =
     (let s = take maxBodyBytes body; more = (maxBodyBytes < length body)
      in if skip_ws s = [] then (dst, Some (if more then errTooLarge else ErrExt ''EOF''))
         else case parse_value maxNestingDepth s of
           None \<Rightarrow> (dst, Some (ErrExt ''invalid JSON''))
         | Some (v, r) \<Rightarrow>
             if more \<and> r = [] \<and> \<not> container v then (dst, Some errTooLarge)
             else case decode_struct True dst v of
               (dst1, Some e) \<Rightarrow> (dst1, Some e)
             | (dst1, None) \<Rightarrow>
                 if skip_ws r = [] \<and> \<not> more then (dst1, None)
                 else (dst1, Some (ErrNew ''request body must contain a single JSON object'')))"

section \<open>Reading fields\<close>

fun fval_str :: "fval option \<Rightarrow> string" where
  "fval_str (Some (VStr s)) = s"
| "fval_str (Some (VBytes s)) = s"
| "fval_str _ = ''''"

fun fval_int :: "fval option \<Rightarrow> int" where
  "fval_int (Some (VInt i)) = i"
| "fval_int _ = 0"

section \<open>Storing members\<close>

lemma store_err_mono: "snd acc \<noteq> None \<Longrightarrow> snd (store_member strict kv acc) \<noteq> None"
  by (cases kv; cases acc) (auto simp: store_member_def split: option.split sum.split)

lemma fold_err_mono: "snd acc \<noteq> None \<Longrightarrow> snd (fold (store_member strict) ms acc) \<noteq> None"
  by (induction ms arbitrary: acc) (simp_all add: store_err_mono del: not_None_eq)

text \<open>A member that fits: its field exists and takes the value. This depends on the type only.\<close>

fun same_type :: "fval \<Rightarrow> fval \<Rightarrow> bool" where
  "same_type (VStr _) (VStr _) = True"
| "same_type (VInt _) (VInt _) = True"
| "same_type (VBool _) (VBool _) = True"
| "same_type (VBytes _) (VBytes _) = True"
| "same_type _ _ = False"

definition same_fields :: "struct \<Rightarrow> struct \<Rightarrow> bool" where
  "same_fields st st' \<longleftrightarrow> list_all2 (\<lambda>(k, x) (k', y). k = k' \<and> same_type x y) st st'"

definition fits :: "struct \<Rightarrow> string \<times> jv \<Rightarrow> bool" where
  "fits st kv = (case kv of (k, v) \<Rightarrow>
     (case find_field st k of None \<Rightarrow> False | Some f \<Rightarrow> ok_res (store (the (map_of st f)) v)))"

lemma same_type_refl [simp]: "same_type x x"
  by (cases x) simp_all

lemma same_type_store: "store x v = Inr y \<Longrightarrow> same_type x y"
  by (cases x; cases v) (auto split: prod.splits if_splits sum.splits)

lemma same_type_ok: "same_type x y \<Longrightarrow> ok_res (store x v) = ok_res (store y v)"
  by (cases x; cases y; cases v) (auto split: prod.splits if_splits sum.splits)

lemma same_fields_refl [simp]: "same_fields st st"
  by (simp add: same_fields_def list.rel_refl_strong case_prod_beta)

lemma same_fields_keys: "same_fields st st' \<Longrightarrow> map fst st = map fst st'"
  unfolding same_fields_def by (induction rule: list_all2_induct) auto

lemma same_fields_find: "same_fields st st' \<Longrightarrow> find_field st k = find_field st' k"
proof -
  assume a: "same_fields st st'"
  have "map_option fst (find (\<lambda>(f, _). P f) st) = map_option fst (find (\<lambda>(f, _). P f) st')" for P
    using a unfolding same_fields_def by (induction rule: list_all2_induct) auto
  moreover have "fst ` set st = fst ` set st'" using same_fields_keys [OF a] by (metis list.set_map)
  ultimately show ?thesis by (simp add: find_field_def)
qed

lemma same_fields_map_of:
  "same_fields st st' \<Longrightarrow> map_of st k = Some x \<Longrightarrow> \<exists>y. map_of st' k = Some y \<and> same_type x y"
  unfolding same_fields_def by (induction rule: list_all2_induct) (auto split: if_splits)

lemma find_field_Some: "find_field st k = Some f \<Longrightarrow> \<exists>x. map_of st f = Some x"
proof -
  assume "find_field st k = Some f"
  then have "f \<in> fst ` set st" by (auto simp: find_field_def find_Some_iff split: if_splits) (metis fst_conv image_eqI nth_mem)
  then show ?thesis by (metis map_of_eq_None_iff not_None_eq)
qed

lemma same_fields_fits: "same_fields st st' \<Longrightarrow> fits st kv = fits st' kv"
proof -
  assume a: "same_fields st st'"
  obtain k v where kv: "kv = (k, v)" by (cases kv)
  show ?thesis
  proof (cases "find_field st k")
    case (Some f)
    then obtain x where "map_of st f = Some x" using find_field_Some by blast
    with same_fields_map_of [OF a] obtain y where "map_of st' f = Some y" "same_type x y" by blast
    with Some \<open>map_of st f = Some x\<close> show ?thesis
      by (simp add: fits_def kv same_fields_find [OF a, symmetric] same_type_ok)
  qed (simp add: fits_def kv same_fields_find [OF a, symmetric])
qed

lemma same_fields_set:
  "map_of st f = Some x \<Longrightarrow> same_type x y \<Longrightarrow> same_fields st (map_set f y st)"
  by (induction st) (auto simp: same_fields_def list.rel_refl_strong case_prod_beta split: if_splits)

lemma same_fields_trans: "same_fields a b \<Longrightarrow> same_fields b c \<Longrightarrow> same_fields a c"
proof -
  have t: "same_type x y \<Longrightarrow> same_type y z \<Longrightarrow> same_type x z" for x y z by (cases x; cases y; cases z) auto
  assume "same_fields a b" "same_fields b c"
  then show ?thesis unfolding same_fields_def by (rule list_all2_trans [rotated]) (auto intro: t)
qed

lemma store_member_fits:
  assumes "fits st kv"
  obtains st' where "store_member strict kv (st, err) = (st', err)" "same_fields st st'"
proof -
  obtain k v f x where kv: "kv = (k, v)" "find_field st k = Some f" "store (the (map_of st f)) v = Inr x"
    using assms by (cases kv) (auto simp: fits_def ok_res_iff split: option.splits)
  then obtain y where y: "map_of st f = Some y" using find_field_Some by blast
  with kv(3) have "same_type y x" using same_type_store by simp
  with y have "same_fields st (map_set f x st)" by (rule same_fields_set)
  with kv show thesis by (intro that) (simp_all add: store_member_def)
qed

lemma store_member_misfit: "\<not> fits st kv \<Longrightarrow> snd (store_member True kv (st, None)) \<noteq> None"
  by (cases kv) (auto simp: fits_def store_member_def ok_res_iff split: option.splits sum.splits)

lemma decode_members_ok:
  "snd (fold (store_member True) ms (st, None)) = None \<longleftrightarrow> list_all (fits st) ms"
proof (induction ms arbitrary: st)
  case (Cons kv ms)
  show ?case
  proof (cases "fits st kv")
    case True
    then obtain st' where "store_member True kv (st, None) = (st', None)" "same_fields st st'"
      by (rule store_member_fits)
    with Cons True same_fields_fits show ?thesis by (auto simp: list_all_iff)
  next
    case False
    from fold_err_mono [OF store_member_misfit [OF this], of True ms] False show ?thesis by simp
  qed
qed simp

section \<open>Round trip of structs\<close>

text \<open>A value that its encoding determines.\<close>

fun plain_fval :: "fval \<Rightarrow> bool" where
  "plain_fval (VStr s) = is_ascii s"
| "plain_fval (VInt i) = in_int64 i"
| "plain_fval _ = True"

definition plain_struct :: "struct \<Rightarrow> bool" where
  "plain_struct st \<longleftrightarrow> wf_map st \<and> list_all (\<lambda>(k, x). is_ascii k \<and> plain_fval x) st"

lemma store_jv_of: "plain_fval x \<Longrightarrow> same_type z x \<Longrightarrow> store z (jv_of x) = Inr x"
  by (cases z; cases x) (simp_all add: Atoi_Itoa std_roundtrip)

lemma plain_jv_of: "plain_fval x \<Longrightarrow> plain_jv d (jv_of x)"
  by (cases x) (simp_all add: Atoi_Itoa ascii_std)

lemma plain_struct_jv: "plain_struct st \<Longrightarrow> plain_jv (Suc d) (struct_jv st)"
  by (auto simp: plain_struct_def struct_jv_def list_all_iff intro: plain_jv_of)

lemma map_set_mid: "f \<notin> fst ` set pre \<Longrightarrow> map_set f x (pre @ (f, z) # suf) = pre @ (f, x) # suf"
  by (induction pre) auto

lemma fold_struct:
  assumes "list_all2 (\<lambda>(k, x) (k', y). k = k' \<and> same_type x y) zs ys"
    and "wf_map (pre @ ys)" and "list_all (\<lambda>(k, x). plain_fval x) ys"
  shows "fold (store_member strict) (map (\<lambda>(k, x). (k, jv_of x)) ys) (pre @ zs, None) = (pre @ ys, None)"
  using assms
proof (induction arbitrary: pre rule: list_all2_induct)
  case (Cons z zs y ys)
  obtain k zv x where k: "z = (k, zv)" "y = (k, x)" "same_type zv x" using Cons(1) by auto
  have "k \<notin> fst ` set pre" using Cons(4) k by (auto simp: wf_map_def)
  moreover then have "map_of pre k = None" by (simp add: map_of_eq_None_iff)
  moreover then have "map_of (pre @ (k, zv) # zs) k = Some zv" by (simp add: map_add_def)
  moreover have "store zv (jv_of x) = Inr x" using Cons(5) k by (simp add: store_jv_of)
  ultimately have "store_member strict (k, jv_of x) (pre @ z # zs, None) = ((pre @ [y]) @ zs, None)"
    using k by (simp add: store_member_def find_field_def map_set_mid)
  moreover have "fold (store_member strict) (map (\<lambda>(k, x). (k, jv_of x)) ys) ((pre @ [y]) @ zs, None) = ((pre @ [y]) @ ys, None)"
    using Cons by (intro Cons(3)) simp_all
  ultimately show ?case using k by simp
qed simp

lemma decode_struct_own:
  assumes "plain_struct st" and "same_fields zero st"
  shows "decode_struct strict zero (struct_jv st) = (st, None)"
  using assms fold_struct [of zero st "[]" strict]
  by (auto simp: decode_struct_def struct_jv_def same_fields_def plain_struct_def list_all_iff)

lemma parse_Marshal:
  assumes "plain_struct st" and "num_stop r"
  shows "parse_value maxNestingDepth (Marshal st @ r) = Some (struct_jv st, r)"
  unfolding Marshal_def
proof (rule parse_print [OF _ assms(2)])
  show "plain_jv maxNestingDepth (struct_jv st)"
    using plain_struct_jv [OF assms(1), of "maxNestingDepth - 1"] by (simp add: maxNestingDepth_def)
qed

lemma Unmarshal_Marshal:
  assumes "plain_struct st" and "same_fields zero st"
  shows "Unmarshal zero (Marshal st) = (st, None)"
  using parse_Marshal [OF assms(1), of "[]"] decode_struct_own [OF assms]
  by (simp add: Unmarshal_def skip_ws_def)

lemma Marshal_hd: "\<exists>cs. Marshal st = CHR ''{'' # cs"
  by (simp add: Marshal_def struct_jv_def)

lemma skip_ws_eq_Nil: "skip_ws s = [] \<longleftrightarrow> list_all is_ws s"
  by (simp add: skip_ws_def list_all_iff)

section \<open>What is accepted\<close>

lemma decode_too_large: "maxBodyBytes < length body \<Longrightarrow> snd (DecodeJSON dst body) \<noteq> None"
  by (simp add: DecodeJSON_def Let_def split: option.split prod.split)

lemma decode_one_value:
  assumes "length body \<le> maxBodyBytes" and "skip_ws body \<noteq> []" and "parse_value maxNestingDepth body = Some (v, t)"
  shows "snd (DecodeJSON dst body) = None \<longleftrightarrow> snd (decode_struct True dst v) = None \<and> list_all is_ws t"
  using assms by (cases "decode_struct True dst v"; cases "snd (decode_struct True dst v)")
    (simp_all add: DecodeJSON_def Let_def skip_ws_eq_Nil)



section \<open>Types\<close>

lemma store_member_types: "same_fields st (fst (store_member strict kv (st, err)))"
proof (cases "fits st kv")
  case True
  then show ?thesis by (metis store_member_fits fst_conv)
next
  case False
  then have "fst (store_member strict kv (st, err)) = st"
    by (cases kv) (auto simp: fits_def store_member_def ok_res_iff split: option.splits sum.splits)
  then show ?thesis by simp
qed

lemma fold_types: "same_fields st (fst acc) \<Longrightarrow> same_fields st (fst (fold (store_member strict) ms acc))"
proof (induction ms arbitrary: acc)
  case (Cons kv ms)
  have "same_fields st (fst (store_member strict kv acc))"
    using same_fields_trans [OF Cons.prems store_member_types, of strict kv "snd acc"] by simp
  with Cons.IH show ?case by simp
qed simp

lemma decode_struct_types: "same_fields st (fst (decode_struct strict st v))"
  by (simp add: decode_struct_def fold_types split: jv.split)


end
