(* ===== verification/Redis_Service.thy ===== *)
theory Redis_Service
  imports Go_Strings
begin

text \<open>
  The Redis server is not part of the repository: every operation that talks to it takes
  the client as an argument, a function \<open>exec\<close> that runs a list of commands as one
  transaction (one command for a plain call, several for a \<open>TxPipeline\<close>) and returns
  the replies or an error. What the backend relies on is the documented meaning of the
  commands it sends, written once here as \<open>redis_run\<close> on a keyspace with expiry times,
  and the locale \<open>redis_service\<close>: a successful call had exactly that effect at some
  later instant, a failed call had either no effect or that effect (the reply was lost).
  Time may pass in every call. The locale is interpreted twice: on a server that never
  fails and on a server driven by an arbitrary plan of delays, lost requests and lost
  replies.
\<close>

datatype redis_cmd =
    GET string
  | SET_NX string string duration
  | INCR string
  | EXPIRE string duration
  | DEL "string list"
  | HINCRBY string string int
  | HGETALL string
  | PING

datatype redis_reply =
    RNil
  | RStr string
  | RInt int
  | RBool bool
  | RMap "(string, string) gomap"
  | RErr string

datatype rval = RvStr string | RvHash "(string, string) gomap"

record keyspace =
  ks_clock :: time
  ks_map :: "string \<Rightarrow> (rval \<times> time option) option"

definition ks_empty :: "time \<Rightarrow> keyspace" where
  "ks_empty t = \<lparr>ks_clock = t, ks_map = Map.empty\<rparr>"

definition live :: "keyspace \<Rightarrow> string \<Rightarrow> (rval \<times> time option) option" where
  "live ks k = (case ks_map ks k of
     None \<Rightarrow> None
   | Some (v, None) \<Rightarrow> Some (v, None)
   | Some (v, Some e) \<Rightarrow> if ks_clock ks < e then Some (v, Some e) else None)"

definition ks_put :: "string \<Rightarrow> rval \<Rightarrow> time option \<Rightarrow> keyspace \<Rightarrow> keyspace" where
  "ks_put k v e ks = ks\<lparr>ks_map := (ks_map ks)(k \<mapsto> (v, e))\<rparr>"

definition ks_remove :: "string list \<Rightarrow> keyspace \<Rightarrow> keyspace" where
  "ks_remove dead ks = ks\<lparr>ks_map := (\<lambda>k. if k \<in> set dead then None else ks_map ks k)\<rparr>"

text \<open>Time passes and nothing else happens.\<close>

definition later :: "duration \<Rightarrow> keyspace \<Rightarrow> keyspace" where
  "later d ks = ks\<lparr>ks_clock := ks_clock ks + d\<rparr>"

text \<open>\<open>EXPIRE\<close> takes whole seconds; the client rounds a positive fraction up to one.\<close>

definition expire_secs :: "duration \<Rightarrow> duration" where
  "expire_secs d = (if 0 < d \<and> d < Second then Second else (d div Second) * Second)"

fun redis_cmd_run :: "redis_cmd \<Rightarrow> keyspace \<Rightarrow> redis_reply \<times> keyspace" where
  "redis_cmd_run (GET k) ks =
     (case live ks k of
        None \<Rightarrow> (RNil, ks)
      | Some (RvStr s, _) \<Rightarrow> (RStr s, ks)
      | Some (RvHash _, _) \<Rightarrow> (RErr ''WRONGTYPE'', ks))"
| "redis_cmd_run (SET_NX k v ttl) ks =
     (if ttl < 0 then (RErr ''ERR invalid expire time'', ks)
      else case live ks k of
        None \<Rightarrow> (RBool True,
          ks_put k (RvStr v) (if ttl = 0 then None else Some (ks_clock ks + ttl)) ks)
      | Some _ \<Rightarrow> (RBool False, ks))"
| "redis_cmd_run (INCR k) ks =
     (case live ks k of
        None \<Rightarrow> (RInt 1, ks_put k (RvStr (Itoa 1)) None ks)
      | Some (RvStr s, e) \<Rightarrow>
          (let (n, ok) = Atoi s in
           if \<not> ok then (RErr ''ERR value is not an integer'', ks)
           else if n = max_int64 then (RErr ''ERR increment would overflow'', ks)
           else (RInt (n + 1), ks_put k (RvStr (Itoa (n + 1))) e ks))
      | Some (RvHash _, _) \<Rightarrow> (RErr ''WRONGTYPE'', ks))"
| "redis_cmd_run (EXPIRE k ttl) ks =
     (case live ks k of
        None \<Rightarrow> (RBool False, ks)
      | Some (v, _) \<Rightarrow>
          (RBool True,
           if expire_secs ttl \<le> 0 then ks_remove [k] ks
           else ks_put k v (Some (ks_clock ks + expire_secs ttl)) ks))"
| "redis_cmd_run (DEL dead) ks =
     (RInt (int (length (filter (\<lambda>k. live ks k \<noteq> None) (remdups dead)))), ks_remove dead ks)"
| "redis_cmd_run (HINCRBY k f n) ks =
     (case live ks k of
        None \<Rightarrow> (RInt n, ks_put k (RvHash [(f, Itoa n)]) None ks)
      | Some (RvHash h, e) \<Rightarrow>
          (let (m, ok) = (case map_of h f of None \<Rightarrow> (0, True) | Some s \<Rightarrow> Atoi s) in
           if \<not> ok then (RErr ''ERR hash value is not an integer'', ks)
           else if \<not> in_int64 (m + n) then (RErr ''ERR increment would overflow'', ks)
           else (RInt (m + n), ks_put k (RvHash (map_set f (Itoa (m + n)) h)) e ks))
      | Some (RvStr _, _) \<Rightarrow> (RErr ''WRONGTYPE'', ks))"
| "redis_cmd_run (HGETALL k) ks =
     (case live ks k of
        None \<Rightarrow> (RMap [], ks)
      | Some (RvHash h, _) \<Rightarrow> (RMap h, ks)
      | Some (RvStr _, _) \<Rightarrow> (RErr ''WRONGTYPE'', ks))"
| "redis_cmd_run PING ks = (RStr ''PONG'', ks)"

fun redis_run :: "redis_cmd list \<Rightarrow> keyspace \<Rightarrow> redis_reply list \<times> keyspace" where
  "redis_run [] ks = ([], ks)"
| "redis_run (c # cs) ks =
     (let (r, ks1) = redis_cmd_run c ks; (rs, ks2) = redis_run cs ks1 in (r # rs, ks2))"

text \<open>A key that holds a counter: its value, and when it expires.\<close>

definition key_count :: "keyspace \<Rightarrow> string \<Rightarrow> nat" where
  "key_count ks k = (case live ks k of Some (RvStr s, _) \<Rightarrow> nat (fst (Atoi s)) | _ \<Rightarrow> 0)"

definition key_ok :: "keyspace \<Rightarrow> string \<Rightarrow> bool" where
  "key_ok ks k \<longleftrightarrow> (case live ks k of
     None \<Rightarrow> True | Some (RvStr s, _) \<Rightarrow> (\<exists>n. s = Itoa n \<and> 0 \<le> n \<and> n \<le> max_int64) | Some (RvHash _, _) \<Rightarrow> False)"

definition key_expiry :: "keyspace \<Rightarrow> string \<Rightarrow> time option" where
  "key_expiry ks k = (case live ks k of Some (_, e) \<Rightarrow> e | None \<Rightarrow> None)"

fun is_RErr :: "redis_reply \<Rightarrow> bool" where
  "is_RErr (RErr _) = True"
| "is_RErr _ = False"

type_synonym 'r redis_client = "redis_cmd list \<Rightarrow> 'r \<Rightarrow> redis_reply list res \<times> 'r"

section \<open>Facts about the keyspace\<close>

lemma live_put [simp]:
  "live (ks_put k v e ks) k' =
     (if k' = k then (case e of None \<Rightarrow> Some (v, None)
        | Some t \<Rightarrow> if ks_clock ks < t then Some (v, Some t) else None)
      else live ks k')"
  by (simp add: live_def ks_put_def split: option.splits)

lemma live_remove [simp]:
  "live (ks_remove dead ks) k = (if k \<in> set dead then None else live ks k)"
  by (simp add: live_def ks_remove_def split: option.splits)

lemma ks_clock_put [simp]: "ks_clock (ks_put k v e ks) = ks_clock ks"
  by (simp add: ks_put_def)

lemma ks_clock_remove [simp]: "ks_clock (ks_remove dead ks) = ks_clock ks"
  by (simp add: ks_remove_def)

lemma live_empty [simp]: "live (ks_empty t) k = None"
  by (simp add: live_def ks_empty_def)

lemma live_later:
  "live (ks\<lparr>ks_clock := t\<rparr>) k = Some (v, e) \<longleftrightarrow>
     ks_map ks k = Some (v, e) \<and> (\<forall>x. e = Some x \<longrightarrow> t < x)"
  by (auto simp: live_def split: option.splits if_splits)

lemma live_Some_iff:
  "live ks k = Some (v, e) \<longleftrightarrow>
     ks_map ks k = Some (v, e) \<and> (\<forall>x. e = Some x \<longrightarrow> ks_clock ks < x)"
  using live_later [where ks = ks and t = "ks_clock ks"] by simp

lemma live_back:
  "live (ks\<lparr>ks_clock := t\<rparr>) k = Some x \<Longrightarrow> ks_clock ks \<le> t \<Longrightarrow> live ks k = Some x"
  by (cases x) (auto simp: live_later live_Some_iff)

lemma live_None_later:
  assumes "live ks k = None" and "ks_clock ks \<le> t"
  shows "live (ks\<lparr>ks_clock := t\<rparr>) k = None"
proof (cases "live (ks\<lparr>ks_clock := t\<rparr>) k")
  case (Some x)
  then have "live ks k = Some x" using assms(2) by (rule live_back)
  with assms(1) show ?thesis by simp
qed

lemma live_later_None:
  "live ks k = Some (v, Some t) \<Longrightarrow> t \<le> ks_clock ks + d \<Longrightarrow> live (later d ks) k = None"
  by (auto simp: live_def later_def split: option.splits if_splits)

lemma live_later_Some:
  "live ks k = Some (v, e) \<Longrightarrow> (\<And>x. e = Some x \<Longrightarrow> ks_clock ks + d < x) \<Longrightarrow>
     live (later d ks) k = Some (v, e)"
  by (auto simp: live_def later_def split: option.splits if_splits)

lemma live_later_cases:
  "0 \<le> d \<Longrightarrow> live (later d ks) k = None \<or> live (later d ks) k = live ks k"
  by (auto simp: live_def later_def split: option.splits)

lemma ks_clock_later [simp]: "ks_clock (later d ks) = ks_clock ks + d"
  by (simp add: later_def)

lemma redis_cmd_run_clock [simp]: "ks_clock (snd (redis_cmd_run c ks)) = ks_clock ks"
  by (cases c) (simp_all add: Let_def case_prod_beta split: option.split rval.split)

lemma redis_run_clock [simp]: "ks_clock (snd (redis_run cs ks)) = ks_clock ks"
  by (induction cs arbitrary: ks) (simp_all add: Let_def case_prod_beta)

lemma key_okE:
  assumes "key_ok ks k" and "live ks k = Some (v, e)"
  shows "v = RvStr (Itoa (int (key_count ks k)))" "int (key_count ks k) \<le> max_int64"
    "Atoi (Itoa (int (key_count ks k))) = (int (key_count ks k), True)"
proof -
  obtain n where n: "v = RvStr (Itoa n)" "0 \<le> n" "n \<le> max_int64"
    using assms by (auto simp: key_ok_def split: rval.splits)
  then have "Atoi (Itoa n) = (n, True)" by (intro Atoi_Itoa) (simp add: int64_bounds)
  with n assms(2) show "v = RvStr (Itoa (int (key_count ks k)))" "int (key_count ks k) \<le> max_int64"
    "Atoi (Itoa (int (key_count ks k))) = (int (key_count ks k), True)"
    by (simp_all add: key_count_def)
qed

lemma incr_run:
  assumes "key_ok ks k" and "int (key_count ks k) < max_int64"
  shows "redis_cmd_run (INCR k) ks = (RInt (int (key_count ks k) + 1),
    ks_put k (RvStr (Itoa (int (key_count ks k) + 1))) (key_expiry ks k) ks)"
    and "\<not> is_RErr (RInt (int (key_count ks k) + 1))"
proof -
  show "redis_cmd_run (INCR k) ks = (RInt (int (key_count ks k) + 1),
    ks_put k (RvStr (Itoa (int (key_count ks k) + 1))) (key_expiry ks k) ks)"
  proof (cases "live ks k")
    case None
    then show ?thesis by (simp add: key_count_def key_expiry_def)
  next
    case (Some ve)
    obtain v e where ve: "ve = (v, e)" by fastforce
    note k = key_okE [OF assms(1) Some [unfolded ve]]
    show ?thesis using assms(2) Some ve k by (simp add: key_expiry_def)
  qed
qed simp

lemma key_expiry_later: "key_expiry ks k = Some t \<Longrightarrow> ks_clock ks < t"
  by (auto simp: key_expiry_def live_Some_iff split: option.splits)

lemma key_fresh [simp]: "live ks k = None \<Longrightarrow> key_ok ks k" "live ks k = None \<Longrightarrow> key_count ks k = 0"
  "live ks k = None \<Longrightarrow> key_expiry ks k = None"
  by (simp_all add: key_ok_def key_count_def key_expiry_def)

lemma key_stored:
  assumes "live ks k = Some (RvStr (Itoa n), e)" and "0 \<le> n" and "n \<le> max_int64"
  shows "key_ok ks k" "key_count ks k = nat n" "key_expiry ks k = e"
  using assms by (auto simp: key_ok_def key_count_def key_expiry_def Atoi_Itoa int64_bounds)

section \<open>The contract\<close>

locale redis_service =
  fixes exec :: "'r redis_client"
    and view :: "'r \<Rightarrow> keyspace"
  assumes exec_ok: "exec cs r = (Inr reps, r') \<Longrightarrow>
      \<exists>t \<ge> ks_clock (view r). redis_run cs ((view r)\<lparr>ks_clock := t\<rparr>) = (reps, view r')
        \<and> list_all (\<lambda>x. \<not> is_RErr x) reps"
    and exec_err: "exec cs r = (Inl e, r') \<Longrightarrow>
      \<exists>t \<ge> ks_clock (view r). view r' = (view r)\<lparr>ks_clock := t\<rparr>
        \<or> view r' = snd (redis_run cs ((view r)\<lparr>ks_clock := t\<rparr>))"
begin

lemma clock_mono: "exec cs r = (x, r') \<Longrightarrow> ks_clock (view r) \<le> ks_clock (view r')"
proof (cases x)
  case (Inl e)
  assume "exec cs r = (x, r')"
  with Inl exec_err obtain t where t: "t \<ge> ks_clock (view r)"
    "view r' = (view r)\<lparr>ks_clock := t\<rparr> \<or>
     view r' = snd (redis_run cs ((view r)\<lparr>ks_clock := t\<rparr>))" by blast
  then have "ks_clock (view r') = t" by auto
  with t show ?thesis by simp
next
  case (Inr reps)
  assume "exec cs r = (x, r')"
  with Inr exec_ok obtain t where t: "t \<ge> ks_clock (view r)"
    "redis_run cs ((view r)\<lparr>ks_clock := t\<rparr>) = (reps, view r')" by blast
  then have "ks_clock (view r') = t"
    by (metis keyspace.select_convs(1) keyspace.surjective keyspace.update_convs(1)
        redis_run_clock snd_conv)
  with t show ?thesis by simp
qed

lemma exec_single:
  assumes "exec [c] r = (Inr reps, r')"
  obtains t rep where "ks_clock (view r) \<le> t" "reps = [rep]" "\<not> is_RErr rep"
    "redis_cmd_run c ((view r)\<lparr>ks_clock := t\<rparr>) = (rep, view r')"
proof -
  obtain t where t: "ks_clock (view r) \<le> t" "list_all (\<lambda>x. \<not> is_RErr x) reps"
    "redis_run [c] ((view r)\<lparr>ks_clock := t\<rparr>) = (reps, view r')"
    using exec_ok [OF assms] by blast
  then show thesis
    using that [OF t(1)] by (cases "redis_cmd_run c ((view r)\<lparr>ks_clock := t\<rparr>)") auto
qed

end

section \<open>Two servers that keep the contract\<close>

definition ref_exec :: "keyspace redis_client" where
  "ref_exec cs ks =
     (let (reps, ks') = redis_run cs ks
      in (if list_ex is_RErr reps then Inl (ErrExt ''redis'') else Inr reps, ks'))"

datatype fault = Serve nat | LoseRequest nat | LoseReply nat

record flaky =
  fl_ks :: keyspace
  fl_plan :: "fault list"

definition flaky_exec :: "flaky redis_client" where
  "flaky_exec cs f =
     (let tick = (\<lambda>d. (fl_ks f)\<lparr>ks_clock := ks_clock (fl_ks f) + int d\<rparr>)
      in case fl_plan f of
        [] \<Rightarrow> (let (x, ks) = ref_exec cs (fl_ks f) in (x, f\<lparr>fl_ks := ks\<rparr>))
      | Serve d # fs \<Rightarrow>
          (let (x, ks) = ref_exec cs (tick d) in (x, \<lparr>fl_ks = ks, fl_plan = fs\<rparr>))
      | LoseRequest d # fs \<Rightarrow>
          (Inl (ErrExt ''connection refused''), \<lparr>fl_ks = tick d, fl_plan = fs\<rparr>)
      | LoseReply d # fs \<Rightarrow>
          (Inl (ErrExt ''i/o timeout''),
           \<lparr>fl_ks = snd (redis_run cs (tick d)), fl_plan = fs\<rparr>))"

lemma ref_exec_single:
  "redis_cmd_run c ks = (rep, ks') \<Longrightarrow> \<not> is_RErr rep \<Longrightarrow> ref_exec [c] ks = (Inr [rep], ks')"
  by (simp add: ref_exec_def)

lemma not_list_ex_is_RErr: "\<not> list_ex is_RErr xs \<longleftrightarrow> list_all (\<lambda>x. \<not> is_RErr x) xs"
  by (induction xs) auto

lemma ref_exec_cases:
  "ref_exec cs ks = (x, ks') \<longleftrightarrow>
     (\<exists>reps. redis_run cs ks = (reps, ks') \<and>
        x = (if list_ex is_RErr reps then Inl (ErrExt ''redis'') else Inr reps))"
  by (auto simp: ref_exec_def Let_def split: prod.splits)

interpretation ref: redis_service ref_exec id
proof
  fix cs r reps r'
  assume "ref_exec cs r = (Inr reps, r')"
  then show "\<exists>t \<ge> ks_clock (id r). redis_run cs ((id r)\<lparr>ks_clock := t\<rparr>) = (reps, id r')
      \<and> list_all (\<lambda>x. \<not> is_RErr x) reps"
    by (intro exI [of _ "ks_clock r"])
       (auto simp: ref_exec_cases not_list_ex_is_RErr split: if_splits)
next
  fix cs r e r'
  assume "ref_exec cs r = (Inl e, r')"
  then show "\<exists>t \<ge> ks_clock (id r). id r' = (id r)\<lparr>ks_clock := t\<rparr>
      \<or> id r' = snd (redis_run cs ((id r)\<lparr>ks_clock := t\<rparr>))"
    by (intro exI [of _ "ks_clock r"]) (auto simp: ref_exec_cases)
qed

interpretation flaky: redis_service flaky_exec fl_ks
proof
  fix cs r reps r'
  assume a: "flaky_exec cs r = (Inr reps, r')"
  have "\<exists>d. ref_exec cs ((fl_ks r)\<lparr>ks_clock := ks_clock (fl_ks r) + int d\<rparr>) = (Inr reps, fl_ks r')"
  proof (cases "fl_plan r")
    case Nil
    with a show ?thesis
      by (intro exI [of _ 0]) (auto simp: flaky_exec_def Let_def split: prod.splits)
  next
    case (Cons p ps)
    with a show ?thesis
      by (cases p) (auto simp: flaky_exec_def Let_def split: prod.splits)
  qed
  then show "\<exists>t \<ge> ks_clock (fl_ks r). redis_run cs ((fl_ks r)\<lparr>ks_clock := t\<rparr>) = (reps, fl_ks r')
      \<and> list_all (\<lambda>x. \<not> is_RErr x) reps"
    by (auto simp: ref_exec_cases not_list_ex_is_RErr split: if_splits)
       (metis le_add_same_cancel1 of_nat_0_le_iff)
next
  fix cs r e r'
  assume a: "flaky_exec cs r = (Inl e, r')"
  have "\<exists>d. let ks = (fl_ks r)\<lparr>ks_clock := ks_clock (fl_ks r) + int d\<rparr>
        in fl_ks r' = ks \<or> fl_ks r' = snd (redis_run cs ks)"
  proof (cases "fl_plan r")
    case Nil
    with a show ?thesis
      by (intro exI [of _ 0])
         (auto simp: flaky_exec_def ref_exec_cases Let_def split: prod.splits)
  next
    case (Cons p ps)
    with a show ?thesis
      by (cases p) (auto simp: flaky_exec_def ref_exec_cases Let_def split: prod.splits,
          metis snd_conv)
  qed
  then show "\<exists>t \<ge> ks_clock (fl_ks r). fl_ks r' = (fl_ks r)\<lparr>ks_clock := t\<rparr>
      \<or> fl_ks r' = snd (redis_run cs ((fl_ks r)\<lparr>ks_clock := t\<rparr>))"
    by (auto simp: Let_def) (metis le_add_same_cancel1 of_nat_0_le_iff)+
qed

end
