(* ===== verification/Ws_Peer.thy ===== *)
theory Ws_Peer
  imports Prelude "HOL-Library.Sublist"
begin

text \<open>
  A connected WebSocket peer (\<open>signaling/handlers.go\<close>: \<open>wsPeer\<close>, \<open>Send\<close>,
  \<open>closeSend\<close>, \<open>writePump\<close>) over a model of Go's buffered channels in which a send on a
  closed channel and a second close are panics. The hub may call \<open>Send\<close> at any moment,
  \<open>readPump\<close> may call \<open>closeSend\<close> at any moment, and \<open>writePump\<close> drains the channel;
  an execution is an arbitrary interleaving of these three. The lemmas show that no
  interleaving panics, that the buffer stays within its capacity and that the frames
  written to the socket are the accepted frames in order.
\<close>

section \<open>Buffered channels\<close>

type_synonym frame = string
type_synonym room = string
type_synonym role = string

record 'a chan =
  ch_buf :: "'a list"
  ch_cap :: nat
  ch_closed :: bool

definition make_chan :: "nat \<Rightarrow> 'a chan" where
  "make_chan n = \<lparr>ch_buf = [], ch_cap = n, ch_closed = False\<rparr>"

text \<open>\<open>select { case ch <- x: return true; default: return false }\<close>\<close>

definition chan_try_send :: "'a \<Rightarrow> 'a chan \<Rightarrow> (bool \<times> 'a chan) go" where
  "chan_try_send x ch =
     (if ch_closed ch then Panic ''send on closed channel''
      else if length (ch_buf ch) < ch_cap ch then Return (True, ch\<lparr>ch_buf := ch_buf ch @ [x]\<rparr>)
      else Return (False, ch))"

definition chan_close :: "'a chan \<Rightarrow> 'a chan go" where
  "chan_close ch =
     (if ch_closed ch then Panic ''close of closed channel''
      else Return (ch\<lparr>ch_closed := True\<rparr>))"

text \<open>\<open>msg, ok := <-ch\<close>: blocks on an open empty channel, \<open>ok\<close> is false on a closed one.\<close>

datatype 'a recv = RecvBlocks | RecvMsg 'a "'a chan" | RecvClosed

definition chan_recv :: "'a chan \<Rightarrow> 'a recv" where
  "chan_recv ch = (case ch_buf ch of
     x # xs \<Rightarrow> RecvMsg x (ch\<lparr>ch_buf := xs\<rparr>)
   | [] \<Rightarrow> if ch_closed ch then RecvClosed else RecvBlocks)"

section \<open>The peer\<close>

definition sendBuffer :: nat where
  "sendBuffer = 32"

datatype ws_out = TextMessage frame | PingMessage | CloseMessage

record wsPeer =
  wp_id :: string
  wp_role :: role
  wp_out :: "ws_out list"
  wp_conn_closed :: bool
  wp_send :: "frame chan"
  wp_closed :: bool

definition new_wsPeer :: "string \<Rightarrow> role \<Rightarrow> wsPeer" where
  "new_wsPeer i r = \<lparr>wp_id = i, wp_role = r, wp_out = [], wp_conn_closed = False,
     wp_send = make_chan sendBuffer, wp_closed = False\<rparr>"

definition Send :: "frame \<Rightarrow> wsPeer \<Rightarrow> (bool \<times> wsPeer) go" where
  "Send f p =
     (if wp_closed p then Return (False, p)
      else case chan_try_send f (wp_send p) of
        Panic m \<Rightarrow> Panic m
      | Return (b, ch) \<Rightarrow> Return (b, p\<lparr>wp_send := ch\<rparr>))"

definition closeSend :: "wsPeer \<Rightarrow> wsPeer go" where
  "closeSend p =
     (if wp_closed p then Return p
      else case chan_close (wp_send p) of
        Panic m \<Rightarrow> Panic m
      | Return ch \<Rightarrow> Return (p\<lparr>wp_closed := True, wp_send := ch\<rparr>))"

text \<open>
  One turn of \<open>writePump\<close>'s select loop. Which branch is taken and whether the write to
  the socket succeeds are decided outside; \<open>None\<close> means that the chosen receive blocks,
  the boolean tells whether the loop goes on. Leaving the loop closes the connection.
\<close>

datatype pump_event = PumpMsg bool | PumpTick bool

fun writePump_step :: "pump_event \<Rightarrow> wsPeer \<Rightarrow> (bool \<times> wsPeer) option" where
  "writePump_step (PumpMsg wrote) p =
     (case chan_recv (wp_send p) of
        RecvBlocks \<Rightarrow> None
      | RecvClosed \<Rightarrow>
          Some (False, p\<lparr>wp_out := wp_out p @ (if wrote then [CloseMessage] else []),
                         wp_conn_closed := True\<rparr>)
      | RecvMsg f ch \<Rightarrow>
          if wrote then Some (True, p\<lparr>wp_send := ch, wp_out := wp_out p @ [TextMessage f]\<rparr>)
          else Some (False, p\<lparr>wp_send := ch, wp_conn_closed := True\<rparr>))"
| "writePump_step (PumpTick wrote) p =
     (if wrote then Some (True, p\<lparr>wp_out := wp_out p @ [PingMessage]\<rparr>)
      else Some (False, p\<lparr>wp_conn_closed := True\<rparr>))"

section \<open>Interleavings\<close>

datatype peer_event = DoSend frame | DoCloseSend | DoPump pump_event

record peer_run =
  pr_peer :: wsPeer
  pr_pumping :: bool
  pr_accepted :: "frame list"

definition peer_start :: "string \<Rightarrow> role \<Rightarrow> peer_run" where
  "peer_start i r = \<lparr>pr_peer = new_wsPeer i r, pr_pumping = True, pr_accepted = []\<rparr>"

fun peer_step :: "peer_event \<Rightarrow> peer_run \<Rightarrow> peer_run go" where
  "peer_step (DoSend f) s =
     (case Send f (pr_peer s) of
        Panic m \<Rightarrow> Panic m
      | Return (b, p) \<Rightarrow>
          Return (s\<lparr>pr_peer := p, pr_accepted := pr_accepted s @ (if b then [f] else [])\<rparr>))"
| "peer_step DoCloseSend s =
     (case closeSend (pr_peer s) of
        Panic m \<Rightarrow> Panic m
      | Return p \<Rightarrow> Return (s\<lparr>pr_peer := p\<rparr>))"
| "peer_step (DoPump e) s =
     (if \<not> pr_pumping s then Return s
      else case writePump_step e (pr_peer s) of
        None \<Rightarrow> Return s
      | Some (go_on, p) \<Rightarrow> Return (s\<lparr>pr_peer := p, pr_pumping := go_on\<rparr>))"

fun peer_exec :: "peer_event list \<Rightarrow> peer_run \<Rightarrow> peer_run go" where
  "peer_exec [] s = Return s"
| "peer_exec (e # es) s =
     (case peer_step e s of Panic m \<Rightarrow> Panic m | Return s' \<Rightarrow> peer_exec es s')"

section \<open>The invariant\<close>

definition wsPeer_ok :: "wsPeer \<Rightarrow> bool" where
  "wsPeer_ok p \<longleftrightarrow> (wp_closed p = ch_closed (wp_send p)) \<and> ch_cap (wp_send p) = sendBuffer
     \<and> length (ch_buf (wp_send p)) \<le> sendBuffer"

fun texts :: "ws_out list \<Rightarrow> frame list" where
  "texts [] = []"
| "texts (TextMessage f # xs) = f # texts xs"
| "texts (_ # xs) = texts xs"

lemma texts_append [simp]: "texts (xs @ ys) = texts xs @ texts ys"
  by (induction xs rule: texts.induct) auto

text \<open>
  Accounting: every accepted frame has been written, is the one frame whose write failed
  (which ends the pump) or still waits in the channel, in this order.
\<close>

definition peer_inv :: "peer_run \<Rightarrow> bool" where
  "peer_inv s \<longleftrightarrow> wsPeer_ok (pr_peer s) \<and>
     (\<exists>lost. pr_accepted s = texts (wp_out (pr_peer s)) @ lost @ ch_buf (wp_send (pr_peer s))
        \<and> length lost \<le> 1 \<and> (pr_pumping s \<longrightarrow> lost = []))"

lemma new_wsPeer_ok [simp]: "wsPeer_ok (new_wsPeer i r)"
  by (simp add: wsPeer_ok_def new_wsPeer_def make_chan_def)

lemma Send_cases:
  assumes "wsPeer_ok p"
  shows "Send f p =
    (if wp_closed p \<or> length (ch_buf (wp_send p)) = sendBuffer then Return (False, p)
     else Return (True, p\<lparr>wp_send := (wp_send p)\<lparr>ch_buf := ch_buf (wp_send p) @ [f]\<rparr>\<rparr>))"
  using assms by (auto simp: Send_def chan_try_send_def wsPeer_ok_def)

lemma closeSend_cases:
  assumes "wsPeer_ok p"
  shows "closeSend p = Return (if wp_closed p then p
     else p\<lparr>wp_closed := True, wp_send := (wp_send p)\<lparr>ch_closed := True\<rparr>\<rparr>)"
  using assms by (auto simp: closeSend_def chan_close_def wsPeer_ok_def)

lemma Send_ok:
  assumes "wsPeer_ok p"
  obtains b q where "Send f p = Return (b, q)" "wsPeer_ok q"
    "ch_buf (wp_send q) = ch_buf (wp_send p) @ (if b then [f] else [])"
    "wp_id q = wp_id p" "wp_role q = wp_role p" "wp_out q = wp_out p"
    "b \<longleftrightarrow> \<not> wp_closed p \<and> length (ch_buf (wp_send p)) < sendBuffer"
    "wp_closed q = wp_closed p"
proof (cases "wp_closed p \<or> length (ch_buf (wp_send p)) = sendBuffer")
  case True
  show thesis
    by (rule that [of False p]) (use assms True in \<open>auto simp: Send_cases wsPeer_ok_def\<close>)
next
  case False
  show thesis
    by (rule that [of True "p\<lparr>wp_send := (wp_send p)\<lparr>ch_buf := ch_buf (wp_send p) @ [f]\<rparr>\<rparr>"])
       (use assms False in \<open>auto simp: Send_cases wsPeer_ok_def\<close>)
qed

lemma closeSend_ok:
  assumes "wsPeer_ok p"
  obtains q where "closeSend p = Return q" "wsPeer_ok q" "wp_closed q"
    "ch_buf (wp_send q) = ch_buf (wp_send p)"
    "wp_id q = wp_id p" "wp_role q = wp_role p" "wp_out q = wp_out p"
  using assms that by (auto simp: closeSend_cases wsPeer_ok_def split: if_splits)

lemma writePump_step_ok:
  assumes "wsPeer_ok p" and "writePump_step e p = Some (b, q)"
  shows "wsPeer_ok q \<and> (\<exists>lost. texts (wp_out p) @ ch_buf (wp_send p)
       = texts (wp_out q) @ lost @ ch_buf (wp_send q) \<and> length lost \<le> 1 \<and> (b \<longrightarrow> lost = []))"
proof (cases e)
  case (PumpTick w)
  with assms show ?thesis by (auto simp: wsPeer_ok_def split: if_splits)
next
  case (PumpMsg w)
  show ?thesis
  proof (cases "ch_buf (wp_send p)")
    case Nil
    with assms PumpMsg show ?thesis
      by (auto simp: wsPeer_ok_def chan_recv_def split: if_splits)
  next
    case (Cons f fs)
    with assms PumpMsg show ?thesis
      by (cases w) (auto simp: wsPeer_ok_def chan_recv_def)
  qed
qed

lemma peer_step_inv:
  assumes "peer_inv s"
  obtains s' where "peer_step e s = Return s'" "peer_inv s'"
proof -
  let ?p = "pr_peer s"
  from assms obtain lost where ok: "wsPeer_ok ?p"
    and acc: "pr_accepted s = texts (wp_out ?p) @ lost @ ch_buf (wp_send ?p)"
    and lost: "length lost \<le> 1" "pr_pumping s \<longrightarrow> lost = []"
    by (auto simp: peer_inv_def)
  have "\<exists>s'. peer_step e s = Return s' \<and> peer_inv s'"
  proof (cases e)
    case (DoSend f)
    from ok show ?thesis
      by (rule Send_ok [where f = f]) (use DoSend acc lost in \<open>force simp: peer_inv_def\<close>)
  next
    case DoCloseSend
    from ok show ?thesis
      by (rule closeSend_ok) (use DoCloseSend acc lost in \<open>force simp: peer_inv_def\<close>)
  next
    case (DoPump pe)
    show ?thesis
    proof (cases "pr_pumping s \<and> writePump_step pe ?p \<noteq> None")
      case False
      with DoPump assms show ?thesis by (auto split: option.splits)
    next
      case True
      then obtain b q where w: "writePump_step pe ?p = Some (b, q)" by auto
      with DoPump True acc lost writePump_step_ok [OF ok w] show ?thesis
        by (auto simp: peer_inv_def)
    qed
  qed
  with that show thesis by blast
qed

lemma peer_exec_inv:
  assumes "peer_inv s"
  shows "\<exists>s'. peer_exec es s = Return s' \<and> peer_inv s'"
  using assms
proof (induction es arbitrary: s)
  case (Cons e es)
  from Cons.prems obtain t where "peer_step e s = Return t" "peer_inv t"
    by (rule peer_step_inv)
  with Cons.IH show ?case by auto
qed simp

lemma peer_start_inv [simp]: "peer_inv (peer_start i r)"
  by (simp add: peer_inv_def peer_start_def) (simp add: new_wsPeer_def make_chan_def)

section \<open>Theorems\<close>

text \<open>
  C23: however the senders, the closing of the connection and the write pump interleave, no call
  panics, and the frames accepted by \<open>Send\<close> reach the socket in order: they are the frames
  written so far, then at most one frame whose write failed (which stops the pump), then the
  frames still buffered, never more than \<open>sendBuffer\<close>.
\<close>

theorem peer_frames_in_order:
  "\<exists>s. peer_exec es (peer_start i r) = Return s \<and>
     length (ch_buf (wp_send (pr_peer s))) \<le> sendBuffer \<and>
     (\<exists>lost. pr_accepted s = texts (wp_out (pr_peer s)) @ lost @ ch_buf (wp_send (pr_peer s)) \<and>
        length lost \<le> 1 \<and> (pr_pumping s \<longrightarrow> lost = []))"
proof -
  obtain s where "peer_exec es (peer_start i r) = Return s" "peer_inv s"
    using peer_exec_inv [of "peer_start i r" es] by auto
  then show ?thesis by (auto simp: peer_inv_def wsPeer_ok_def)
qed

theorem peer_frames_in_order_witness:
  "\<exists>s. peer_exec [DoSend ''x'', DoPump (PumpMsg True), DoSend ''y'', DoCloseSend, DoSend ''z'',
        DoPump (PumpMsg False), DoCloseSend] (peer_start ''p'' ''agent'') = Return s \<and>
     pr_accepted s = [''x'', ''y''] \<and> texts (wp_out (pr_peer s)) = [''x''] \<and>
     length (ch_buf (wp_send (pr_peer s))) \<le> sendBuffer \<and>
     (\<exists>lost. pr_accepted s = texts (wp_out (pr_peer s)) @ lost @ ch_buf (wp_send (pr_peer s)) \<and>
        length lost \<le> 1 \<and> (pr_pumping s \<longrightarrow> lost = []))"
  using peer_frames_in_order [of "[DoSend ''x'', DoPump (PumpMsg True), DoSend ''y'', DoCloseSend,
      DoSend ''z'', DoPump (PumpMsg False), DoCloseSend]" "''p''" "''agent''"]
  by (simp add: peer_start_def new_wsPeer_def make_chan_def Send_def chan_try_send_def sendBuffer_def
      closeSend_def chan_close_def chan_recv_def)

end
