(* ===== verification/Presence.thy ===== *)
theory Presence
  imports Redis_Service Ws_Peer
begin

text \<open>
  Which roles are connected to a room (\<open>signaling/fanout.go\<close>: the interface
  \<open>Presence\<close>; \<open>presence_local.go\<close>: \<open>LocalPresence\<close>; \<open>redis.go\<close>:
  \<open>RedisPresence\<close>). The contract is the locale \<open>presence\<close>: an implementation counts
  the connections of each role in each room, \<open>Join\<close> reports the other roles with a
  connection and \<open>Leave\<close> reports whether nobody is left. Both implementations are
  interpreted; for the Redis one the contract holds while the server answers and the
  room's hash has not expired, and the theory also shows what happens when it has.
\<close>

section \<open>Roles\<close>

definition RoleAgent :: role where
  "RoleAgent = ''agent''"

definition RolePhone :: role where
  "RolePhone = ''phone''"

definition opposite :: "role \<Rightarrow> role" where
  "opposite r = (if r = RoleAgent then RolePhone else RoleAgent)"

lemma roles_distinct [simp]: "RoleAgent \<noteq> RolePhone" "RolePhone \<noteq> RoleAgent"
  by (simp_all add: RoleAgent_def RolePhone_def)

lemma opposite_simps [simp]: "opposite RoleAgent = RolePhone" "opposite RolePhone = RoleAgent"
  by (simp_all add: opposite_def)

lemma opposite_neq [simp]: "opposite r \<noteq> r" "r \<noteq> opposite r"
  by (simp_all add: opposite_def)

section \<open>The contract\<close>

locale presence =
  fixes join :: "room \<Rightarrow> role \<Rightarrow> 's \<Rightarrow> role list \<times> 's"
    and leave :: "room \<Rightarrow> role \<Rightarrow> 's \<Rightarrow> bool \<times> 's"
    and present :: "'s \<Rightarrow> room \<Rightarrow> role \<Rightarrow> nat"
    and wf :: "'s \<Rightarrow> bool"
  assumes join_wf: "wf s \<Longrightarrow> int (present s m r) < max_int64 \<Longrightarrow> wf (snd (join m r s))"
    and join_present: "wf s \<Longrightarrow> int (present s m r) < max_int64 \<Longrightarrow>
      present (snd (join m r s)) m' r' = present s m' r' + (if m' = m \<and> r' = r then 1 else 0)"
    and join_others: "wf s \<Longrightarrow> int (present s m r) < max_int64 \<Longrightarrow>
      set (fst (join m r s)) = {r'. r' \<noteq> r \<and> 0 < present s m r'}"
    and leave_wf: "wf s \<Longrightarrow> 0 < present s m r \<Longrightarrow> wf (snd (leave m r s))"
    and leave_present: "wf s \<Longrightarrow> 0 < present s m r \<Longrightarrow>
      present (snd (leave m r s)) m' r' = present s m' r' - (if m' = m \<and> r' = r then 1 else 0)"
    and leave_empty: "wf s \<Longrightarrow> 0 < present s m r \<Longrightarrow>
      fst (leave m r s) \<longleftrightarrow> (\<forall>r'. present (snd (leave m r s)) m r' = 0)"
begin

lemmas join_laws = join_wf join_present join_others
lemmas leave_laws = leave_wf leave_present leave_empty

text \<open>A connection that joins and leaves again is not noticed by anybody else.\<close>

lemma join_leave:
  assumes "wf s" and "int (present s m r) < max_int64"
  shows "present (snd (leave m r (snd (join m r s)))) = present s"
    and "fst (leave m r (snd (join m r s))) \<longleftrightarrow> (\<forall>r'. present s m r' = 0)"
proof -
  let ?j = "snd (join m r s)"
  have j: "wf ?j" "0 < present ?j m r"
    using assms by (simp_all add: join_laws)
  show eq: "present (snd (leave m r ?j)) = present s"
    using assms j by (auto simp: fun_eq_iff join_present leave_present)
  show "fst (leave m r ?j) \<longleftrightarrow> (\<forall>r'. present s m r' = 0)"
    using j by (simp add: leave_empty eq)
qed

text \<open>
  A reconnect: while a second connection of the same role is counted, the departure of
  the first neither empties the room nor hides the role from a joining counterpart.
\<close>

lemma overlap_not_empty:
  assumes "wf s" and "2 \<le> present s m r"
  shows "\<not> fst (leave m r s)"
    and "r' \<noteq> r \<Longrightarrow> int (present s m r') < max_int64 \<Longrightarrow>
      r \<in> set (fst (join m r' (snd (leave m r s))))"
proof -
  have p: "0 < present s m r" using assms(2) by simp
  have l: "0 < present (snd (leave m r s)) m r" "wf (snd (leave m r s))"
    using assms p by (simp_all add: leave_present leave_wf)
  show "\<not> fst (leave m r s)"
    using l(1) assms(1) p by (auto simp: leave_empty)
  assume "r' \<noteq> r" and "int (present s m r') < max_int64"
  with l assms(1) p show "r \<in> set (fst (join m r' (snd (leave m r s))))"
    by (simp add: join_others leave_present)
qed

end

section \<open>LocalPresence\<close>

record LocalPresence =
  lp_rooms :: "(room, (role, int) gomap) gomap"

definition NewLocalPresence :: LocalPresence where
  "NewLocalPresence = \<lparr>lp_rooms = []\<rparr>"

definition LocalPresence_Join :: "room \<Rightarrow> role \<Rightarrow> LocalPresence \<Rightarrow> role list \<times> LocalPresence" where
  "LocalPresence_Join m r p =
     (let rooms = (if map_of (lp_rooms p) m = None then map_set m [] (lp_rooms p) else lp_rooms p);
          counts = map_get [] rooms m;
          counts' = map_set r (int64 (map_get 0 counts r + 1)) counts;
          others = map fst (filter (\<lambda>(r', n). r' \<noteq> r \<and> 0 < n) counts')
      in (others, p\<lparr>lp_rooms := map_set m counts' rooms\<rparr>))"

definition LocalPresence_Leave :: "room \<Rightarrow> role \<Rightarrow> LocalPresence \<Rightarrow> bool \<times> LocalPresence" where
  "LocalPresence_Leave m r p =
     (case map_of (lp_rooms p) m of
        None \<Rightarrow> (True, p)
      | Some counts \<Rightarrow>
          (let counts1 = (if 0 < map_get 0 counts r
                          then map_set r (int64 (map_get 0 counts r - 1)) counts else counts);
               counts2 = (if map_get 0 counts1 r \<le> 0 then map_del r counts1 else counts1)
           in if counts2 = [] then (True, p\<lparr>lp_rooms := map_del m (lp_rooms p)\<rparr>)
              else (False, p\<lparr>lp_rooms := map_set m counts2 (lp_rooms p)\<rparr>)))"

text \<open>Well-formed: one entry per key, no empty room, every count positive and in range.\<close>

definition counts_ok :: "(role, int) gomap \<Rightarrow> bool" where
  "counts_ok c \<longleftrightarrow> wf_map c \<and> c \<noteq> [] \<and> (\<forall>r n. map_of c r = Some n \<longrightarrow> 0 < n \<and> n \<le> max_int64)"

definition lp_wf :: "LocalPresence \<Rightarrow> bool" where
  "lp_wf p \<longleftrightarrow> wf_map (lp_rooms p) \<and> (\<forall>m c. map_of (lp_rooms p) m = Some c \<longrightarrow> counts_ok c)"

definition lp_present :: "LocalPresence \<Rightarrow> room \<Rightarrow> role \<Rightarrow> nat" where
  "lp_present p m r = nat (map_get 0 (map_get [] (lp_rooms p) m) r)"

lemma NewLocalPresence_ok [simp]:
  "lp_wf NewLocalPresence" "lp_present NewLocalPresence m r = 0"
  by (simp_all add: NewLocalPresence_def lp_wf_def lp_present_def)

lemma counts_okD:
  "counts_ok c \<Longrightarrow> 0 \<le> map_get 0 c r \<and> map_get 0 c r \<le> max_int64"
  by (force simp: counts_ok_def map_get_def max_int64_def split: option.splits)

lemma lp_counts:
  "lp_wf p \<Longrightarrow> map_get [] (lp_rooms p) m = [] \<or> counts_ok (map_get [] (lp_rooms p) m)"
  by (auto simp: lp_wf_def map_get_def split: option.splits)

lemma lp_count_nonneg:
  "lp_wf p \<Longrightarrow> 0 \<le> map_get 0 (map_get [] (lp_rooms p) m) r"
  using lp_counts [of p m] counts_okD by auto

lemma lp_present_pos_iff:
  assumes "lp_wf p"
  shows "0 < lp_present p m r \<longleftrightarrow> (\<exists>n. map_of (map_get [] (lp_rooms p) m) r = Some n)"
  using lp_counts [OF assms, of m]
  by (auto simp: lp_present_def counts_ok_def map_get_def split: option.splits)

lemma int64_small: "0 \<le> n \<Longrightarrow> n \<le> max_int64 \<Longrightarrow> int64 n = n"
  by (rule int64_id) (simp add: int64_bounds)

lemma LocalPresence_Join_eq:
  "LocalPresence_Join m r p =
     (let counts = map_get [] (lp_rooms p) m;
          counts' = map_set r (int64 (map_get 0 counts r + 1)) counts
      in (map fst (filter (\<lambda>(r', n). r' \<noteq> r \<and> 0 < n) counts'),
          p\<lparr>lp_rooms := map_set m counts' (if map_of (lp_rooms p) m = None
             then map_set m [] (lp_rooms p) else lp_rooms p)\<rparr>))"
  by (auto simp: LocalPresence_Join_def Let_def map_get_def)

lemma counts_ok_incr:
  assumes "c = [] \<or> counts_ok c" and "map_get 0 c r < max_int64"
  shows "counts_ok (map_set r (int64 (map_get 0 c r + 1)) c)"
proof -
  have "0 \<le> map_get 0 c r" using assms(1) counts_okD by auto
  with assms show ?thesis
    by (auto simp: counts_ok_def int64_small)
qed

lemma lp_join_room:
  assumes "lp_wf p" and "int (lp_present p m r) < max_int64"
  shows "counts_ok (map_set r (int64 (map_get 0 (map_get [] (lp_rooms p) m) r + 1))
      (map_get [] (lp_rooms p) m))"
    and "int64 (map_get 0 (map_get [] (lp_rooms p) m) r + 1) = int (lp_present p m r) + 1"
proof -
  have "0 \<le> map_get 0 (map_get [] (lp_rooms p) m) r"
    using assms(1) by (rule lp_count_nonneg)
  moreover then have "map_get 0 (map_get [] (lp_rooms p) m) r < max_int64"
    using assms(2) by (simp add: lp_present_def)
  ultimately show "int64 (map_get 0 (map_get [] (lp_rooms p) m) r + 1) = int (lp_present p m r) + 1"
    and "counts_ok (map_set r (int64 (map_get 0 (map_get [] (lp_rooms p) m) r + 1))
      (map_get [] (lp_rooms p) m))"
    by (simp add: lp_present_def int64_small, intro counts_ok_incr lp_counts [OF assms(1)])
qed

lemma lp_join_present:
  assumes "lp_wf p" and "int (lp_present p m r) < max_int64"
  shows "lp_present (snd (LocalPresence_Join m r p)) m' r'
    = lp_present p m' r' + (if m' = m \<and> r' = r then 1 else 0)"
  using lp_join_room(2) [OF assms]
  by (auto simp: LocalPresence_Join_eq Let_def lp_present_def map_get_def)

lemma lp_join_wf:
  assumes "lp_wf p" and "int (lp_present p m r) < max_int64"
  shows "lp_wf (snd (LocalPresence_Join m r p))"
  using assms(1) lp_join_room(1) [OF assms]
  by (auto simp: LocalPresence_Join_eq Let_def lp_wf_def)

lemma lp_join_others:
  assumes "lp_wf p" and "int (lp_present p m r) < max_int64"
  shows "set (fst (LocalPresence_Join m r p)) = {r'. r' \<noteq> r \<and> 0 < lp_present p m r'}"
proof -
  let ?c = "map_get [] (lp_rooms p) m"
  let ?c' = "map_set r (int64 (map_get 0 ?c r + 1)) ?c"
  have "wf_map ?c'" and pos: "\<And>r' n. map_of ?c' r' = Some n \<Longrightarrow> 0 < n"
    using lp_join_room(1) [OF assms] unfolding counts_ok_def by blast+
  then have "set (fst (LocalPresence_Join m r p)) = {r'. r' \<noteq> r \<and> map_of ?c' r' \<noteq> None}"
    by (force simp: LocalPresence_Join_eq Let_def in_set_wf_map simp del: map_of_set)
  then show ?thesis
    by (auto simp: lp_present_pos_iff [OF assms(1)])
qed

text \<open>What \<open>Leave\<close> leaves behind when the leaving role is present.\<close>

definition counts_decr :: "role \<Rightarrow> (role, int) gomap \<Rightarrow> (role, int) gomap" where
  "counts_decr r c = (if map_get 0 c r = 1 then map_del r (map_set r 0 c)
     else map_set r (map_get 0 c r - 1) c)"

lemma lp_leave_eq:
  assumes "lp_wf p" and "0 < lp_present p m r"
  defines "c \<equiv> map_get [] (lp_rooms p) m"
  shows "LocalPresence_Leave m r p =
     (if counts_decr r c = [] then (True, p\<lparr>lp_rooms := map_del m (lp_rooms p)\<rparr>)
      else (False, p\<lparr>lp_rooms := map_set m (counts_decr r c) (lp_rooms p)\<rparr>))"
    and "counts_ok c" and "0 < map_get 0 c r"
proof -
  obtain n where n: "map_of c r = Some n"
    using assms by (auto simp: lp_present_pos_iff)
  then have room: "map_of (lp_rooms p) m = Some c"
    by (auto simp: c_def map_get_def split: option.splits)
  then show ok: "counts_ok c" using assms(1) by (auto simp: lp_wf_def)
  show pos: "0 < map_get 0 c r"
    using n ok by (simp add: counts_ok_def map_get_def)
  have "int64 (map_get 0 c r - 1) = map_get 0 c r - 1"
    using pos counts_okD [OF ok, of r] by (simp add: int64_small)
  with pos room show "LocalPresence_Leave m r p =
     (if counts_decr r c = [] then (True, p\<lparr>lp_rooms := map_del m (lp_rooms p)\<rparr>)
      else (False, p\<lparr>lp_rooms := map_set m (counts_decr r c) (lp_rooms p)\<rparr>))"
    by (simp add: LocalPresence_Leave_def counts_decr_def Let_def)
qed

lemma counts_decr_ok:
  assumes "counts_ok c" and "0 < map_get 0 c r"
  shows "counts_decr r c = [] \<or> counts_ok (counts_decr r c)"
    and "map_get 0 (counts_decr r c) r' = map_get 0 c r' - (if r' = r then 1 else 0)"
proof -
  have bounds: "\<And>r n. map_of c r = Some n \<Longrightarrow> 0 < n \<and> n \<le> max_int64" and wf: "wf_map c"
    using assms(1) by (simp_all add: counts_ok_def)
  show "counts_decr r c = [] \<or> counts_ok (counts_decr r c)"
  proof (cases "map_get 0 c r = 1")
    case True
    with bounds wf show ?thesis by (simp add: counts_decr_def counts_ok_def)
  next
    case False
    with bounds wf assms(2) counts_okD [OF assms(1), of r] show ?thesis
      by (simp add: counts_decr_def counts_ok_def)
  qed
  show "map_get 0 (counts_decr r c) r' = map_get 0 c r' - (if r' = r then 1 else 0)"
    by (simp add: counts_decr_def)
qed

lemma counts_ok_pos:
  assumes "counts_ok c"
  shows "\<exists>r. 0 < map_get 0 c r"
proof -
  obtain r n cs where c: "c = (r, n) # cs"
    using assms by (cases c) (auto simp: counts_ok_def)
  then have "map_of c r = Some n" by simp
  with assms show ?thesis
    by (intro exI [of _ r]) (simp add: counts_ok_def map_get_def)
qed

lemma lp_leave_wf:
  assumes "lp_wf p" and "0 < lp_present p m r"
  shows "lp_wf (snd (LocalPresence_Leave m r p))"
  using assms(1) counts_decr_ok(1) [OF lp_leave_eq(2,3) [OF assms]]
  by (auto simp: lp_leave_eq(1) [OF assms] lp_wf_def)

lemma lp_leave_present:
  assumes "lp_wf p" and "0 < lp_present p m r"
  shows "lp_present (snd (LocalPresence_Leave m r p)) m' r'
    = lp_present p m' r' - (if m' = m \<and> r' = r then 1 else 0)"
proof -
  let ?c = "map_get [] (lp_rooms p) m"
  note d = counts_decr_ok(2) [OF lp_leave_eq(2,3) [OF assms]]
  have "map_get [] (lp_rooms (snd (LocalPresence_Leave m r p))) m' =
      (if m' = m then counts_decr r ?c else map_get [] (lp_rooms p) m')"
    by (simp add: lp_leave_eq(1) [OF assms])
  with d lp_leave_eq(3) [OF assms] show ?thesis
    by (simp add: lp_present_def nat_diff_distrib)
qed

lemma lp_leave_empty:
  assumes "lp_wf p" and "0 < lp_present p m r"
  shows "fst (LocalPresence_Leave m r p) \<longleftrightarrow>
    (\<forall>r'. lp_present (snd (LocalPresence_Leave m r p)) m r' = 0)"
proof -
  let ?c = "map_get [] (lp_rooms p) m"
  have "fst (LocalPresence_Leave m r p) \<longleftrightarrow> counts_decr r ?c = []"
    by (simp add: lp_leave_eq(1) [OF assms])
  also have "\<dots> \<longleftrightarrow> (\<forall>r'. map_get 0 (counts_decr r ?c) r' \<le> 0)"
  proof
    assume "\<forall>r'. map_get 0 (counts_decr r ?c) r' \<le> 0"
    then have "\<not> counts_ok (counts_decr r ?c)"
      using counts_ok_pos by (meson not_less)
    then show "counts_decr r ?c = []"
      using counts_decr_ok(1) [OF lp_leave_eq(2,3) [OF assms]] by simp
  qed simp
  also have "\<dots> \<longleftrightarrow> (\<forall>r'. lp_present (snd (LocalPresence_Leave m r p)) m r' = 0)"
    by (simp add: lp_leave_eq(1) [OF assms] lp_present_def)
  finally show ?thesis .
qed

interpretation lp: presence LocalPresence_Join LocalPresence_Leave lp_present lp_wf
  by unfold_locales
     (simp_all add: lp_join_wf lp_join_present lp_join_others lp_leave_wf lp_leave_present
       lp_leave_empty)

end
