(* ===== verification/Auth.thy ===== *)
theory Auth
  imports Http Presence
begin

text \<open>
  Tokens (\<open>auth/jwt.go\<close>) and the bearer middleware (\<open>auth/middleware.go\<close>), together
  with the signaling authorizer of \<open>cmd/server/main.go\<close>. The package
  \<open>golang-jwt\<close> is a parameter, the record \<open>jwt_pkg\<close>; the locale
  \<open>jwt_library\<close> says what the code relies on: signing yields a token that carries its
  claims under the key, and parsing accepts a token only under a key the caller's key function
  hands out, only with its own claims and only before its expiry. \<open>issued k raw pl\<close>
  reads: \<open>raw\<close> is an HMAC token with claims \<open>pl\<close> that verifies under key
  \<open>k\<close>. Claims travel as a JSON object, so a token of one kind can be parsed into the
  struct of another; the theorems show that it is then refused.
\<close>

section \<open>The token library\<close>

datatype jval = JvStr string | JvInt int | JvTime time

type_synonym payload = "(string, jval) gomap"

record jwt_pkg =
  jwt_NewNumericDate :: "time \<Rightarrow> time"
  jwt_SignedString :: "string \<Rightarrow> payload \<Rightarrow> string res"
  jwt_Parse :: "time \<Rightarrow> (bool \<Rightarrow> string res) \<Rightarrow> string \<Rightarrow> payload res"

definition exp_of :: "payload \<Rightarrow> time option" where
  "exp_of pl = (case map_of pl ''exp'' of Some (JvTime t) \<Rightarrow> Some t | _ \<Rightarrow> None)"

text \<open>The argument of the key function says whether the token's method is an HMAC.\<close>

locale jwt_library =
  fixes jp :: jwt_pkg
    and issued :: "string \<Rightarrow> string \<Rightarrow> payload \<Rightarrow> bool"
  assumes numdate: "jwt_NewNumericDate jp t \<le> t" "t < jwt_NewNumericDate jp t + Second"
    and sign_issued: "jwt_SignedString jp k pl = Inr raw \<Longrightarrow> issued k raw pl"
    and issued_fun: "issued k raw pl \<Longrightarrow> issued k raw pl' \<Longrightarrow> pl' = pl"
    and parse_complete: "issued k raw pl \<Longrightarrow> kf True = Inr k \<Longrightarrow>
      (\<And>t. exp_of pl = Some t \<Longrightarrow> now < t) \<Longrightarrow> jwt_Parse jp now kf raw = Inr pl"
    and parse_sound: "jwt_Parse jp now kf raw = Inr pl \<Longrightarrow> (\<And>k. kf False \<noteq> Inr k) \<Longrightarrow>
      (\<exists>k. kf True = Inr k \<and> issued k raw pl) \<and> (\<forall>t. exp_of pl = Some t \<longrightarrow> now < t)"

section \<open>Claims\<close>

definition KindAccess :: string where "KindAccess = ''access''"
definition KindRefresh :: string where "KindRefresh = ''refresh''"
definition KindSignaling :: string where "KindSignaling = ''signaling''"

record Claims =
  cl_OrgID :: string
  cl_Role :: string
  cl_Kind :: string
  cl_Ver :: int
  cl_Subject :: string
  cl_IssuedAt :: time
  cl_ExpiresAt :: time
  cl_ID :: string

record SignalingClaims =
  sc_Room :: string
  sc_Role :: string
  sc_Kind :: string
  sc_IssuedAt :: time
  sc_ExpiresAt :: time
  sc_ID :: string

definition Claims_json :: "Claims \<Rightarrow> payload" where
  "Claims_json c =
     [(''org'', JvStr (cl_OrgID c)), (''role'', JvStr (cl_Role c)), (''knd'', JvStr (cl_Kind c)),
      (''ver'', JvInt (cl_Ver c)), (''sub'', JvStr (cl_Subject c)),
      (''exp'', JvTime (cl_ExpiresAt c)), (''iat'', JvTime (cl_IssuedAt c)), (''jti'', JvStr (cl_ID c))]"

definition SignalingClaims_json :: "SignalingClaims \<Rightarrow> payload" where
  "SignalingClaims_json c =
     [(''room'', JvStr (sc_Room c)), (''role'', JvStr (sc_Role c)), (''knd'', JvStr (sc_Kind c)),
      (''exp'', JvTime (sc_ExpiresAt c)), (''iat'', JvTime (sc_IssuedAt c)), (''jti'', JvStr (sc_ID c))]"

text \<open>Decoding a JSON object into a struct: missing fields keep their zero value.\<close>

definition str_field :: "payload \<Rightarrow> string \<Rightarrow> string res" where
  "str_field pl k = (case map_of pl k of
     None \<Rightarrow> Inr '''' | Some (JvStr s) \<Rightarrow> Inr s | Some _ \<Rightarrow> Inl (ErrExt ''token is malformed''))"

definition int_field :: "payload \<Rightarrow> string \<Rightarrow> int res" where
  "int_field pl k = (case map_of pl k of
     None \<Rightarrow> Inr 0 | Some (JvInt n) \<Rightarrow> Inr n | Some _ \<Rightarrow> Inl (ErrExt ''token is malformed''))"

definition time_field :: "payload \<Rightarrow> string \<Rightarrow> time res" where
  "time_field pl k = (case map_of pl k of
     None \<Rightarrow> Inr 0 | Some (JvTime t) \<Rightarrow> Inr t | Some _ \<Rightarrow> Inl (ErrExt ''token is malformed''))"

definition Claims_of :: "payload \<Rightarrow> Claims res" where
  "Claims_of pl =
     (case (str_field pl ''org'', str_field pl ''role'', str_field pl ''knd'', int_field pl ''ver'',
            str_field pl ''sub'', time_field pl ''iat'', time_field pl ''exp'', str_field pl ''jti'') of
        (Inr org, Inr role, Inr knd, Inr ver, Inr sub, Inr iat, Inr exp, Inr jti) \<Rightarrow>
          Inr \<lparr>cl_OrgID = org, cl_Role = role, cl_Kind = knd, cl_Ver = ver, cl_Subject = sub,
               cl_IssuedAt = iat, cl_ExpiresAt = exp, cl_ID = jti\<rparr>
      | _ \<Rightarrow> Inl (ErrExt ''token is malformed''))"

definition SignalingClaims_of :: "payload \<Rightarrow> SignalingClaims res" where
  "SignalingClaims_of pl =
     (case (str_field pl ''room'', str_field pl ''role'', str_field pl ''knd'',
            time_field pl ''iat'', time_field pl ''exp'', str_field pl ''jti'') of
        (Inr room, Inr role, Inr knd, Inr iat, Inr exp, Inr jti) \<Rightarrow>
          Inr \<lparr>sc_Room = room, sc_Role = role, sc_Kind = knd, sc_IssuedAt = iat,
               sc_ExpiresAt = exp, sc_ID = jti\<rparr>
      | _ \<Rightarrow> Inl (ErrExt ''token is malformed''))"

section \<open>The issuer\<close>

record Issuer =
  is_secret :: string
  is_accessTTL :: duration
  is_refreshTTL :: duration
  is_signalingTTL :: duration

definition NewIssuer :: "string \<Rightarrow> duration \<Rightarrow> duration \<Rightarrow> duration \<Rightarrow> Issuer" where
  "NewIssuer secret a r s =
     \<lparr>is_secret = secret, is_accessTTL = a, is_refreshTTL = r, is_signalingTTL = s\<rparr>"

text \<open>\<open>now\<close> is the reading of \<open>time.Now\<close>, \<open>jti\<close> the fresh \<open>uuid.NewString\<close>.\<close>

definition IssueSignaling :: "jwt_pkg \<Rightarrow> Issuer \<Rightarrow> time \<Rightarrow> string \<Rightarrow> room \<Rightarrow> string \<Rightarrow> string res" where
  "IssueSignaling jp i now jti room role =
     (let claims = \<lparr>sc_Room = room, sc_Role = role, sc_Kind = KindSignaling,
            sc_IssuedAt = jwt_NewNumericDate jp now,
            sc_ExpiresAt = jwt_NewNumericDate jp (now + is_signalingTTL i), sc_ID = jti\<rparr>
      in case jwt_SignedString jp (is_secret i) (SignalingClaims_json claims) of
           Inl e \<Rightarrow> Inl (ErrWrap ''sign signaling token'' e)
         | Inr tok \<Rightarrow> Inr tok)"

definition keyfunc :: "Issuer \<Rightarrow> bool \<Rightarrow> string res" where
  "keyfunc i hmac = (if \<not> hmac then Inl (ErrNew ''unexpected signing method'') else Inr (is_secret i))"

definition ParseSignaling :: "jwt_pkg \<Rightarrow> Issuer \<Rightarrow> time \<Rightarrow> string \<Rightarrow> SignalingClaims res" where
  "ParseSignaling jp i now raw =
     (case jwt_Parse jp now (keyfunc i) raw of
        Inl e \<Rightarrow> Inl e
      | Inr pl \<Rightarrow>
          (case SignalingClaims_of pl of
             Inl e \<Rightarrow> Inl e
           | Inr claims \<Rightarrow>
               if sc_Kind claims \<noteq> KindSignaling then Inl (ErrNew ''not a signaling token'')
               else Inr claims))"

definition Issue ::
  "jwt_pkg \<Rightarrow> uuid_pkg \<Rightarrow> Issuer \<Rightarrow> time \<Rightarrow> string \<Rightarrow> string \<Rightarrow> uuid \<Rightarrow> uuid \<Rightarrow> string \<Rightarrow> int \<Rightarrow>
     (string \<times> time) res" where
  "Issue jp up i now jti kind userID orgID role tokenVersion =
     (let ttl = (if kind = KindRefresh then is_refreshTTL i else is_accessTTL i);
          exp = now + ttl;
          claims = \<lparr>cl_OrgID = uuid_String up orgID, cl_Role = role, cl_Kind = kind,
            cl_Ver = tokenVersion, cl_Subject = uuid_String up userID,
            cl_IssuedAt = jwt_NewNumericDate jp now, cl_ExpiresAt = jwt_NewNumericDate jp exp,
            cl_ID = jti\<rparr>
      in case jwt_SignedString jp (is_secret i) (Claims_json claims) of
           Inl e \<Rightarrow> Inl (ErrWrap ''sign token'' e)
         | Inr tok \<Rightarrow> Inr (tok, exp))"

definition Parse :: "jwt_pkg \<Rightarrow> Issuer \<Rightarrow> time \<Rightarrow> string \<Rightarrow> Claims res" where
  "Parse jp i now raw =
     (case jwt_Parse jp now (keyfunc i) raw of
        Inl e \<Rightarrow> Inl e
      | Inr pl \<Rightarrow> Claims_of pl)"

section \<open>The middleware\<close>

definition bearerToken :: "request \<Rightarrow> string" where
  "bearerToken r =
     (let h = Header_Get r ''Authorization''; prefix = ''Bearer ''
      in if length prefix < length h \<and>
            map ascii_lower (take (length prefix) h) = map ascii_lower prefix
         then TrimSpace (drop (length prefix) h) else '''')"

definition auth_Middleware ::
  "jwt_pkg \<Rightarrow> uuid_pkg \<Rightarrow> Issuer \<Rightarrow> time \<Rightarrow> 's handler \<Rightarrow> 's handler" where
  "auth_Middleware jp up i now next r s =
     (let raw = bearerToken r in
      if raw = '''' then (http_Error ''missing bearer token'' StatusUnauthorized, s)
      else case Parse jp i now raw of
        Inl e \<Rightarrow> (http_Error ''invalid token'' StatusUnauthorized, s)
      | Inr claims \<Rightarrow>
          if cl_Kind claims \<noteq> KindAccess
          then (http_Error ''wrong token kind'' StatusUnauthorized, s)
          else case uuid_Parse up (cl_Subject claims) of
            None \<Rightarrow> (http_Error ''invalid subject'' StatusUnauthorized, s)
          | Some userID \<Rightarrow>
              (case uuid_Parse up (cl_OrgID claims) of
                 None \<Rightarrow> (http_Error ''invalid org'' StatusUnauthorized, s)
               | Some orgID \<Rightarrow>
                   next (with_principal
                     \<lparr>pr_UserID = userID, pr_OrgID = orgID, pr_Role = cl_Role claims\<rparr> r) s))"

definition signalingAuth :: "jwt_pkg \<Rightarrow> Issuer \<Rightarrow> time \<Rightarrow> room \<Rightarrow> role \<Rightarrow> string \<Rightarrow> unit res" where
  "signalingAuth jp i now room role token =
     (case ParseSignaling jp i now token of
        Inl e \<Rightarrow> Inl e
      | Inr claims \<Rightarrow>
          if sc_Room claims \<noteq> room \<or> sc_Role claims \<noteq> role
          then Inl (ErrNew ''token does not match room/role'') else Inr ())"

section \<open>A library that keeps the contract\<close>

text \<open>
  Tokens as self-delimiting texts that contain the key and the claims: no security, but every
  law of \<open>jwt_library\<close> holds of it.
\<close>

fun enc_str :: "string \<Rightarrow> string" where
  "enc_str [] = ''0''"
| "enc_str (c # cs) = CHR ''1'' # c # enc_str cs"

fun dec_str :: "string \<Rightarrow> (string \<times> string) option" where
  "dec_str (x # y # ys) =
     (if x = CHR ''1'' then map_option (\<lambda>(s, r). (y # s, r)) (dec_str ys) else Some ('''', y # ys))"
| "dec_str [x] = Some ('''', '''')"
| "dec_str [] = None"

definition enc_int :: "int \<Rightarrow> string" where
  "enc_int n = (if n < 0 then CHR ''-'' # enc_str (nat_dec (nat (- n)))
     else CHR ''+'' # enc_str (nat_dec (nat n)))"

fun dec_int :: "string \<Rightarrow> (int \<times> string) option" where
  "dec_int (x # xs) = map_option (\<lambda>(s, r). (if x = CHR ''-'' then - int (dec_nat s) else int (dec_nat s), r)) (dec_str xs)"
| "dec_int [] = None"

fun enc_val :: "jval \<Rightarrow> string" where
  "enc_val (JvStr s) = CHR ''s'' # enc_str s"
| "enc_val (JvInt n) = CHR ''i'' # enc_int n"
| "enc_val (JvTime t) = CHR ''t'' # enc_int t"

fun dec_val :: "string \<Rightarrow> (jval \<times> string) option" where
  "dec_val (x # xs) =
     (if x = CHR ''s'' then map_option (\<lambda>(s, r). (JvStr s, r)) (dec_str xs)
      else if x = CHR ''i'' then map_option (\<lambda>(n, r). (JvInt n, r)) (dec_int xs)
      else map_option (\<lambda>(t, r). (JvTime t, r)) (dec_int xs))"
| "dec_val [] = None"

fun enc_payload :: "payload \<Rightarrow> string" where
  "enc_payload [] = ''0''"
| "enc_payload ((k, v) # pl) = CHR ''1'' # enc_str k @ enc_val v @ enc_payload pl"

fun dec_payload :: "nat \<Rightarrow> string \<Rightarrow> payload option" where
  "dec_payload (Suc n) (x # xs) =
     (if x = CHR ''1'' then
        (case dec_str xs of
           None \<Rightarrow> None
         | Some (k, r) \<Rightarrow>
             (case dec_val r of
                None \<Rightarrow> None
              | Some (v, r') \<Rightarrow> map_option (\<lambda>pl. (k, v) # pl) (dec_payload n r')))
      else Some [])"
| "dec_payload _ _ = None"

definition ref_issued :: "string \<Rightarrow> string \<Rightarrow> payload \<Rightarrow> bool" where
  "ref_issued k raw pl \<longleftrightarrow> raw = enc_str k @ enc_payload pl"

definition ref_jwt :: jwt_pkg where
  "ref_jwt = \<lparr>
     jwt_NewNumericDate = (\<lambda>t. t div Second * Second),
     jwt_SignedString = (\<lambda>k pl. Inr (enc_str k @ enc_payload pl)),
     jwt_Parse = (\<lambda>now kf raw.
       (case (kf True, dec_str raw) of
          (Inr k, Some (k', rest)) \<Rightarrow>
            (case dec_payload (length rest) rest of
               None \<Rightarrow> Inl (ErrExt ''token is malformed'')
             | Some pl \<Rightarrow>
                 if k' \<noteq> k \<or> raw \<noteq> enc_str k @ enc_payload pl then Inl (ErrExt ''signature is invalid'')
                 else if (case exp_of pl of None \<Rightarrow> False | Some t \<Rightarrow> t \<le> now)
                 then Inl (ErrExt ''token is expired'') else Inr pl)
        | _ \<Rightarrow> Inl (ErrExt ''token is unverifiable'')))\<rparr>"

lemma enc_str_neq_Nil [simp]: "enc_str s \<noteq> []"
  by (cases s) simp_all

lemma dec_enc_str [simp]: "dec_str (enc_str s @ r) = Some (s, r)"
  by (induction s) (cases r, simp_all)

lemma dec_enc_int [simp]: "dec_int (enc_int n @ r) = Some (n, r)"
  by (simp add: enc_int_def)

lemma dec_enc_val [simp]: "dec_val (enc_val v @ r) = Some (v, r)"
  by (cases v) simp_all

lemma dec_enc_payload: "length pl < n \<Longrightarrow> dec_payload n (enc_payload pl) = Some pl"
proof (induction pl arbitrary: n)
  case Nil
  then show ?case by (cases n) simp_all
next
  case (Cons p pl)
  then show ?case by (cases n; cases p) simp_all
qed

lemma length_enc_payload: "length pl < length (enc_payload pl)"
  by (induction pl rule: enc_payload.induct) simp_all

lemma dec_enc_payload' [simp]: "dec_payload (length (enc_payload pl)) (enc_payload pl) = Some pl"
  by (rule dec_enc_payload [OF length_enc_payload])

interpretation refjwt: jwt_library ref_jwt ref_issued
proof
  fix t
  have "0 < Second" by (simp add: Second_def)
  then have "0 \<le> t mod Second" "t mod Second < Second" by simp_all
  moreover have "t div Second * Second + t mod Second = t" by simp
  ultimately have "t div Second * Second \<le> t" "t < t div Second * Second + Second" by linarith+
  then show "jwt_NewNumericDate ref_jwt t \<le> t" "t < jwt_NewNumericDate ref_jwt t + Second"
    by (simp_all add: ref_jwt_def)
next
  fix k raw pl pl'
  assume "ref_issued k raw pl" "ref_issued k raw pl'"
  then have "dec_payload (length (enc_payload pl)) (enc_payload pl) = dec_payload (length (enc_payload pl')) (enc_payload pl')"
    by (simp add: ref_issued_def)
  then show "pl' = pl" by simp
next
  fix k raw pl and kf :: "bool \<Rightarrow> string res" and now :: time
  assume "ref_issued k raw pl" "kf True = Inr k" "\<And>t. exp_of pl = Some t \<Longrightarrow> now < t"
  then show "jwt_Parse ref_jwt now kf raw = Inr pl"
    by (simp add: ref_jwt_def ref_issued_def split: option.split) force
next
  fix now kf raw pl
  assume "jwt_Parse ref_jwt now kf raw = Inr pl"
  then show "(\<exists>k. kf True = Inr k \<and> ref_issued k raw pl) \<and> (\<forall>t. exp_of pl = Some t \<longrightarrow> now < t)"
    by (auto simp: ref_jwt_def ref_issued_def split: sum.splits option.splits if_splits)
qed (simp add: ref_jwt_def ref_issued_def)

section \<open>Facts about claims\<close>

lemma Claims_roundtrip [simp]: "Claims_of (Claims_json c) = Inr c"
  by (simp add: Claims_of_def Claims_json_def str_field_def int_field_def time_field_def)

lemma SignalingClaims_roundtrip [simp]: "SignalingClaims_of (SignalingClaims_json c) = Inr c"
  by (simp add: SignalingClaims_of_def SignalingClaims_json_def str_field_def time_field_def)

text \<open>A token of one kind read into the struct of the other keeps its kind and its expiry.\<close>

lemma Claims_of_signaling [simp]:
  "Claims_of (SignalingClaims_json c) = Inr \<lparr>cl_OrgID = '''', cl_Role = sc_Role c, cl_Kind = sc_Kind c,
     cl_Ver = 0, cl_Subject = '''', cl_IssuedAt = sc_IssuedAt c, cl_ExpiresAt = sc_ExpiresAt c, cl_ID = sc_ID c\<rparr>"
  by (simp add: Claims_of_def SignalingClaims_json_def str_field_def int_field_def time_field_def)

lemma SignalingClaims_of_claims [simp]:
  "SignalingClaims_of (Claims_json c) = Inr \<lparr>sc_Room = '''', sc_Role = cl_Role c, sc_Kind = cl_Kind c,
     sc_IssuedAt = cl_IssuedAt c, sc_ExpiresAt = cl_ExpiresAt c, sc_ID = cl_ID c\<rparr>"
  by (simp add: SignalingClaims_of_def Claims_json_def str_field_def time_field_def)

lemma exp_of_json [simp]:
  "exp_of (Claims_json c) = Some (cl_ExpiresAt c)"
  "exp_of (SignalingClaims_json sc) = Some (sc_ExpiresAt sc)"
  by (simp_all add: exp_of_def Claims_json_def SignalingClaims_json_def)

lemma kinds_distinct [simp]:
  "KindAccess \<noteq> KindRefresh" "KindRefresh \<noteq> KindAccess" "KindAccess \<noteq> KindSignaling"
  "KindSignaling \<noteq> KindAccess" "KindRefresh \<noteq> KindSignaling" "KindSignaling \<noteq> KindRefresh"
  by (simp_all add: KindAccess_def KindRefresh_def KindSignaling_def)

lemma keyfunc_simps [simp]: "keyfunc i True = Inr (is_secret i)" "keyfunc i False \<noteq> Inr k"
  by (simp_all add: keyfunc_def)

context jwt_library
begin

lemma parse_issued:
  assumes "issued (is_secret i) raw pl" and "exp_of pl = Some t"
  shows "jwt_Parse jp now (keyfunc i) raw = Inr pl' \<longleftrightarrow> now < t \<and> pl' = pl"
proof
  assume a: "jwt_Parse jp now (keyfunc i) raw = Inr pl'"
  have "(\<exists>k. keyfunc i True = Inr k \<and> issued k raw pl') \<and> (\<forall>t. exp_of pl' = Some t \<longrightarrow> now < t)"
    by (rule parse_sound [OF a]) simp
  then have "issued (is_secret i) raw pl'" "exp_of pl' = Some t \<longrightarrow> now < t" by simp_all
  with assms issued_fun [OF assms(1)] show "now < t \<and> pl' = pl" by blast
next
  assume "now < t \<and> pl' = pl"
  with assms show "jwt_Parse jp now (keyfunc i) raw = Inr pl'"
    by (auto intro: parse_complete)
qed

lemma parse_cases:
  assumes "issued (is_secret i) raw pl" and "exp_of pl = Some t"
  obtains "now < t" "jwt_Parse jp now (keyfunc i) raw = Inr pl"
    | e where "\<not> now < t" "jwt_Parse jp now (keyfunc i) raw = Inl e"
  using parse_issued [OF assms, of now] that
  by (cases "jwt_Parse jp now (keyfunc i) raw") blast+

lemma Issue_issued:
  assumes "Issue jp up i now jti kind u org role ver = Inr (raw, e)"
  shows "e = now + (if kind = KindRefresh then is_refreshTTL i else is_accessTTL i)"
    and "issued (is_secret i) raw (Claims_json \<lparr>cl_OrgID = uuid_String up org, cl_Role = role,
      cl_Kind = kind, cl_Ver = ver, cl_Subject = uuid_String up u,
      cl_IssuedAt = jwt_NewNumericDate jp now, cl_ExpiresAt = jwt_NewNumericDate jp e, cl_ID = jti\<rparr>)"
  using assms by (auto simp: Issue_def Let_def intro: sign_issued split: sum.splits)

lemma IssueSignaling_issued:
  assumes "IssueSignaling jp i now jti room role = Inr raw"
  shows "issued (is_secret i) raw (SignalingClaims_json \<lparr>sc_Room = room, sc_Role = role,
      sc_Kind = KindSignaling, sc_IssuedAt = jwt_NewNumericDate jp now,
      sc_ExpiresAt = jwt_NewNumericDate jp (now + is_signalingTTL i), sc_ID = jti\<rparr>)"
  using assms by (auto simp: IssueSignaling_def Let_def intro: sign_issued split: sum.splits)

end

section \<open>Theorems\<close>

text \<open>
  C25: tokens round-trip: what \<open>Issue\<close> signed is parsed back until the whole second in which
  its lifetime ends and not afterwards, and gives the claims it was issued with.
\<close>

theorem issue_parse_roundtrip:
  assumes "jwt_library jp issued" and "Issue jp up i now jti kind u org role ver = Inr (raw, e)"
  shows "Parse jp i now' raw =
      Inr \<lparr>cl_OrgID = uuid_String up org, cl_Role = role, cl_Kind = kind, cl_Ver = ver,
        cl_Subject = uuid_String up u, cl_IssuedAt = jwt_NewNumericDate jp now,
        cl_ExpiresAt = jwt_NewNumericDate jp e, cl_ID = jti\<rparr>
     \<longleftrightarrow> now' < jwt_NewNumericDate jp e"
proof -
  show ?thesis
    by (rule jwt_library.parse_cases [OF assms(1) jwt_library.Issue_issued(2) [OF assms] exp_of_json(1), of now'])
       (simp_all add: Parse_def)
qed

theorem issue_parse_roundtrip_witness:
  "\<exists>raw e. Issue ref_jwt \<lparr>uuid_String = (\<lambda>_. ''u''), uuid_Parse = (\<lambda>_. None)\<rparr>
       (NewIssuer ''key'' Minute Hour Hour) 0 ''j'' KindAccess 1 2 ''agent'' 3 = Inr (raw, e) \<and>
     (Parse ref_jwt (NewIssuer ''key'' Minute Hour Hour) 5 raw =
        Inr \<lparr>cl_OrgID = ''u'', cl_Role = ''agent'', cl_Kind = KindAccess, cl_Ver = 3,
          cl_Subject = ''u'', cl_IssuedAt = jwt_NewNumericDate ref_jwt 0,
          cl_ExpiresAt = jwt_NewNumericDate ref_jwt e, cl_ID = ''j''\<rparr>
      \<longleftrightarrow> 5 < jwt_NewNumericDate ref_jwt e)"
proof -
  let ?up = "\<lparr>uuid_String = (\<lambda>_. ''u''), uuid_Parse = (\<lambda>_. None)\<rparr>"
  let ?i = "NewIssuer ''key'' Minute Hour Hour"
  obtain raw e where iss: "Issue ref_jwt ?up ?i 0 ''j'' KindAccess 1 2 ''agent'' 3 = Inr (raw, e)"
    by (auto simp: Issue_def ref_jwt_def Let_def)
  with issue_parse_roundtrip [OF refjwt.jwt_library_axioms iss, of 5] show ?thesis by auto
qed

text \<open>
  The kinds of tokens are kept apart. A signaling token never passes the bearer middleware
  and an access or refresh token never authorizes a signaling connection, although all are
  signed with the same key.
\<close>

theorem token_kinds_separate:
  assumes "jwt_library jp issued"
    and "IssueSignaling jp i now jti room role = Inr sig_tok"
    and "Issue jp up i now jti' kind u org role' ver = Inr (tok, e)" and "kind \<noteq> KindSignaling"
  shows "(bearerToken r = sig_tok \<longrightarrow> rs_status (fst (auth_Middleware jp up i now' next r s)) = StatusUnauthorized
        \<and> snd (auth_Middleware jp up i now' next r s) = s) \<and>
    signalingAuth jp i now' room' role'' tok \<noteq> Inr ()"
proof
  have "\<And>c. Parse jp i now' sig_tok = Inr c \<Longrightarrow> cl_Kind c = KindSignaling"
    by (rule jwt_library.parse_cases [OF assms(1) jwt_library.IssueSignaling_issued [OF assms(1,2)]
          exp_of_json(2), of now']) (auto simp: Parse_def)
  then show "bearerToken r = sig_tok \<longrightarrow>
      rs_status (fst (auth_Middleware jp up i now' next r s)) = StatusUnauthorized \<and>
      snd (auth_Middleware jp up i now' next r s) = s"
    by (cases "Parse jp i now' sig_tok") (simp_all add: auth_Middleware_def Let_def)
  show "signalingAuth jp i now' room' role'' tok \<noteq> Inr ()"
    by (rule jwt_library.parse_cases [OF assms(1) jwt_library.Issue_issued(2) [OF assms(1,3)]
          exp_of_json(1), of now']) (simp_all add: signalingAuth_def ParseSignaling_def assms(4))
qed

theorem token_kinds_separate_witness:
  "\<exists>sig_tok tok e. IssueSignaling ref_jwt (NewIssuer ''key'' Minute Hour Hour) 0 ''j'' ''m'' ''agent'' = Inr sig_tok \<and>
     Issue ref_jwt \<lparr>uuid_String = (\<lambda>_. ''u''), uuid_Parse = (\<lambda>_. None)\<rparr>
       (NewIssuer ''key'' Minute Hour Hour) 0 ''j'' KindAccess 1 2 ''agent'' 3 = Inr (tok, e) \<and>
     signalingAuth ref_jwt (NewIssuer ''key'' Minute Hour Hour) 5 ''m'' ''agent'' tok \<noteq> Inr ()"
proof -
  let ?up = "\<lparr>uuid_String = (\<lambda>_. ''u''), uuid_Parse = (\<lambda>_. None)\<rparr>"
  let ?i = "NewIssuer ''key'' Minute Hour Hour"
  obtain raw e where iss: "Issue ref_jwt ?up ?i 0 ''j'' KindAccess 1 2 ''agent'' 3 = Inr (raw, e)"
    by (auto simp: Issue_def ref_jwt_def Let_def)
  obtain sig where sig: "IssueSignaling ref_jwt ?i 0 ''j'' ''m'' ''agent'' = Inr sig"
    by (auto simp: IssueSignaling_def ref_jwt_def Let_def)
  have "signalingAuth ref_jwt ?i 5 ''m'' ''agent'' raw \<noteq> Inr ()"
    by (rule token_kinds_separate [OF refjwt.jwt_library_axioms sig iss, THEN conjunct2]) simp
  with iss sig show ?thesis by blast
qed

text \<open>
  A signaling token admits its bearer to exactly the room and the role it was issued for,
  and only before its expiry.
\<close>

lemma signaling_token_exact:
  assumes "jwt_library jp issued" and "IssueSignaling jp i now jti room role = Inr tok"
  shows "signalingAuth jp i now' room' role' tok = Inr () \<longleftrightarrow>
    room' = room \<and> role' = role \<and> now' < jwt_NewNumericDate jp (now + is_signalingTTL i)"
proof -
  show ?thesis
    by (rule jwt_library.parse_cases [OF assms(1) jwt_library.IssueSignaling_issued [OF assms]
          exp_of_json(2), of now']) (auto simp: signalingAuth_def ParseSignaling_def)
qed

text \<open>
  C26: the middleware lets a request through only with an unexpired token of kind access, signed
  with the issuer's key, and the handler behind it sees exactly the user, organization and role of
  that token; otherwise the answer is 401 and nothing else happens.
\<close>

theorem middleware_guards:
  assumes "jwt_library jp issued"
  shows "(\<exists>pl c u org. issued (is_secret i) (bearerToken r) pl \<and> Claims_of pl = Inr c \<and>
        (\<forall>t. exp_of pl = Some t \<longrightarrow> now < t) \<and> cl_Kind c = KindAccess \<and>
        uuid_Parse up (cl_Subject c) = Some u \<and> uuid_Parse up (cl_OrgID c) = Some org \<and>
        auth_Middleware jp up i now next r s =
          next (with_principal \<lparr>pr_UserID = u, pr_OrgID = org, pr_Role = cl_Role c\<rparr> r) s) \<or>
     rs_status (fst (auth_Middleware jp up i now next r s)) = StatusUnauthorized \<and>
       snd (auth_Middleware jp up i now next r s) = s"
proof (cases "jwt_Parse jp now (keyfunc i) (bearerToken r)")
  case (Inl e)
  then show ?thesis by (simp add: auth_Middleware_def Parse_def Let_def)
next
  case (Inr pl)
  have "(\<exists>k. keyfunc i True = Inr k \<and> issued k (bearerToken r) pl) \<and> (\<forall>t. exp_of pl = Some t \<longrightarrow> now < t)"
    by (rule jwt_library.parse_sound [OF assms Inr]) simp
  then have pl: "issued (is_secret i) (bearerToken r) pl" "\<forall>t. exp_of pl = Some t \<longrightarrow> now < t" by simp_all
  show ?thesis
  proof (cases "rs_status (fst (auth_Middleware jp up i now next r s)) = StatusUnauthorized \<and>
      snd (auth_Middleware jp up i now next r s) = s")
    case False
    then obtain c u org where "Claims_of pl = Inr c" "cl_Kind c = KindAccess"
      "uuid_Parse up (cl_Subject c) = Some u" "uuid_Parse up (cl_OrgID c) = Some org"
      "auth_Middleware jp up i now next r s =
        next (with_principal \<lparr>pr_UserID = u, pr_OrgID = org, pr_Role = cl_Role c\<rparr> r) s"
      using Inr by (auto simp: auth_Middleware_def Parse_def Let_def split: sum.splits option.splits if_splits)
    with pl show ?thesis by blast
  qed blast
qed

definition demo_request :: "string \<Rightarrow> request" where
  "demo_request tok = \<lparr>rq_method = ''GET'', rq_path = ''/v1/me'', rq_query = [],
     rq_header = [(''Authorization'', ''bearer '' @ tok)], rq_pathvals = [],
     rq_RemoteAddr = ''10.0.0.7:5000'', rq_principal = None\<rparr>"

theorem middleware_guards_witness:
  "\<exists>tok e. Issue ref_jwt dec_uuid (NewIssuer ''key'' Minute Hour Hour) 0 ''j'' KindAccess 1 2 ''agent'' 3
       = Inr (tok, e) \<and>
     ((\<exists>pl c u org. ref_issued ''key'' (bearerToken (demo_request tok)) pl \<and> Claims_of pl = Inr c \<and>
        (\<forall>t. exp_of pl = Some t \<longrightarrow> 5 < t) \<and> cl_Kind c = KindAccess \<and>
        uuid_Parse dec_uuid (cl_Subject c) = Some u \<and> uuid_Parse dec_uuid (cl_OrgID c) = Some org \<and>
        auth_Middleware ref_jwt dec_uuid (NewIssuer ''key'' Minute Hour Hour) 5
            (\<lambda>r s. (http_Text StatusOK ''hi'', s + 1)) (demo_request tok) (0 :: nat) =
          (http_Text StatusOK ''hi'', 0 + 1)) \<or>
      rs_status (fst (auth_Middleware ref_jwt dec_uuid (NewIssuer ''key'' Minute Hour Hour) 5
            (\<lambda>r s. (http_Text StatusOK ''hi'', s + 1)) (demo_request tok) (0 :: nat))) = StatusUnauthorized \<and>
      snd (auth_Middleware ref_jwt dec_uuid (NewIssuer ''key'' Minute Hour Hour) 5
            (\<lambda>r s. (http_Text StatusOK ''hi'', s + 1)) (demo_request tok) (0 :: nat)) = 0)"
proof -
  let ?i = "NewIssuer ''key'' Minute Hour Hour"
  obtain tok e where iss: "Issue ref_jwt dec_uuid ?i 0 ''j'' KindAccess 1 2 ''agent'' 3 = Inr (tok, e)"
    by (auto simp: Issue_def ref_jwt_def Let_def)
  have "is_secret ?i = ''key''" by (simp add: NewIssuer_def)
  with iss middleware_guards [OF refjwt.jwt_library_axioms, of ?i "demo_request tok" 5 dec_uuid
      "\<lambda>r s. (http_Text StatusOK ''hi'', s + 1)" "0 :: nat"]
  show ?thesis by (intro exI [of _ tok] exI [of _ e] conjI iss) simp
qed

end
