(* ===== verification/Turn.thy ===== *)
theory Turn
  imports Base64
begin

text \<open>
  Time-limited TURN credentials (\<open>turn/turn.go\<close>). HMAC-SHA1 is a parameter: the theorems
  hold for every keyed function.
\<close>

record ICEServer =
  ice_URLs :: "string list"
  ice_Username :: string
  ice_Credential :: string

record Minter =
  mi_secret :: string
  mi_urls :: "string list"
  mi_ttl :: duration

definition NewMinter :: "string \<Rightarrow> string list \<Rightarrow> duration \<Rightarrow> Minter" where
  "NewMinter secret urls ttl = \<lparr>mi_secret = secret, mi_urls = urls, mi_ttl = ttl\<rparr>"

text \<open>\<open>Unix()\<close> rounds towards the past; \<open>now\<close> is the reading of the clock.\<close>

definition Credentials ::
  "(string \<Rightarrow> string \<Rightarrow> string) \<Rightarrow> Minter \<Rightarrow> time \<Rightarrow> string \<Rightarrow> ICEServer list" where
  "Credentials hmac_sha1 m now identifier =
     (if mi_secret m = '''' \<or> length (mi_urls m) = 0 then []
      else let expiry = (now + mi_ttl m) div Second;
               username = Itoa expiry @ '':'' @ identifier;
               credential = std_EncodeToString (hmac_sha1 (mi_secret m) username)
           in [\<lparr>ice_URLs = mi_urls m, ice_Username = username, ice_Credential = credential\<rparr>])"

text \<open>
  What a TURN server with the same secret does with a credential (the coturn REST scheme): the
  user name starts with the expiry, and the credential is the MAC of the user name.
\<close>

definition turn_accepts :: "(string \<Rightarrow> string \<Rightarrow> string) \<Rightarrow> string \<Rightarrow> time \<Rightarrow> ICEServer \<Rightarrow> bool" where
  "turn_accepts hmac_sha1 secret now s \<longleftrightarrow>
     (case Atoi (hd (Split CHR '':'' (ice_Username s))) of
        (expiry, ok) \<Rightarrow> ok \<and> now < expiry * Second) \<and>
     ice_Credential s = std_EncodeToString (hmac_sha1 secret (ice_Username s))"

lemma Split_hd_no: "c \<notin> set s \<Longrightarrow> hd (Split c (s @ [c] @ r)) = s"
proof (induction s)
  case (Cons x xs)
  then show ?case by (cases "Split c (xs @ [c] @ r)") auto
qed simp

lemma Itoa_no_colon: "CHR '':'' \<notin> set (Itoa n)"
proof -
  have "\<not> is_digit CHR '':''" by code_simp
  then have "CHR '':'' \<notin> set (nat_dec k)" for k
    using nat_dec_digits [of k] by (auto simp: list_all_iff)
  then show ?thesis by (simp add: Itoa_def)
qed

text \<open>
  The credentials handed out are accepted by a TURN server that shares the secret exactly
  until the second in which their lifetime ends.
\<close>

theorem turn_credentials_valid:
  assumes "mi_secret m \<noteq> ''''" and "mi_urls m \<noteq> []" and "in_int64 ((now + mi_ttl m) div Second)"
  shows "\<exists>s. Credentials hmac_sha1 m now identifier = [s] \<and> ice_URLs s = mi_urls m \<and>
    (turn_accepts hmac_sha1 (mi_secret m) now' s \<longleftrightarrow> now' < (now + mi_ttl m) div Second * Second)"
proof -
  let ?e = "(now + mi_ttl m) div Second"
  have "hd (Split CHR '':'' (Itoa ?e @ '':'' @ identifier)) = Itoa ?e"
    by (rule Split_hd_no [OF Itoa_no_colon])
  with assms show ?thesis
    by (simp add: Credentials_def turn_accepts_def Let_def Atoi_Itoa)
qed

theorem turn_credentials_valid_witness:
  "\<exists>s. Credentials (\<lambda>k x. k @ x) (NewMinter ''key'' [''turn:h''] Hour) 0 ''room'' = [s] \<and>
     ice_URLs s = [''turn:h''] \<and>
     (turn_accepts (\<lambda>k x. k @ x) ''key'' 5 s \<longleftrightarrow> 5 < (0 + Hour) div Second * Second)"
  using turn_credentials_valid [of "NewMinter ''key'' [''turn:h''] Hour" 0 "\<lambda>k x. k @ x" "''room''" 5]
  by (simp add: NewMinter_def Hour_def Minute_def Second_def int64_bounds)

end
