(* ===== verification/Postgres_Service.thy ===== *)
theory Postgres_Service
  imports Redis_Service
begin

text \<open>
  Postgres, like Redis, is not part of the repository: operations take a client \<open>exec\<close>
  that runs one statement (or one transaction) as an argument. The statements are the SQL texts of
  the Go sources; their meaning on the tables of \<open>store/migrations\<close>, with the constraints
  declared there, is \<open>pg_run\<close>. The contract \<open>pg_service\<close> has the same shape as the
  one of Redis: a successful statement had exactly its effect at some later instant, with an
  identifier chosen by the server where one is generated; a failed one had its effect or none.
\<close>

section \<open>Tables\<close>

datatype session_status = Pending | Active | Ended | Expired

record org_row =
  or_id :: uuid
  or_name :: string
  or_created :: time

record user_row =
  ur_id :: uuid
  ur_org :: uuid
  ur_email :: string
  ur_hash :: string
  ur_display :: string
  ur_role :: string
  ur_disabled :: bool
  ur_created :: time
  ur_version :: int

record session_row =
  sr_id :: uuid
  sr_org :: uuid
  sr_agent :: uuid
  sr_connect :: string
  sr_status :: session_status
  sr_created :: time
  sr_connected :: "time option"
  sr_ended :: "time option"

datatype recording_status = RecPending | RecAvailable | RecFailed

record recording_row =
  rr_id :: uuid
  rr_session :: uuid
  rr_org :: uuid
  rr_key :: string
  rr_content :: string
  rr_size :: int
  rr_status :: recording_status
  rr_created :: time
  rr_completed :: "time option"

record db =
  db_clock :: time
  db_orgs :: "org_row list"
  db_users :: "user_row list"
  db_sessions :: "session_row list"
  db_recordings :: "recording_row list"

definition db_empty :: "time \<Rightarrow> db" where
  "db_empty t = \<lparr>db_clock = t, db_orgs = [], db_users = [], db_sessions = [], db_recordings = []\<rparr>"

datatype pg_reply =
    PgId uuid
  | PgCount nat
  | PgBool bool
  | PgUser user_row
  | PgUsers "user_row list"
  | PgRecordings "recording_row list"
  | PgNoRows
  | PgErr string

text \<open>Constraint violations carry their SQLSTATE.\<close>

abbreviation "unique_violation \<equiv> PgErr ''23505''"
abbreviation "foreign_key_violation \<equiv> PgErr ''23503''"
abbreviation "check_violation \<equiv> PgErr ''23514''"
abbreviation "numeric_out_of_range \<equiv> PgErr ''22003''"

text \<open>\<open>lower(email)\<close>, for ASCII text.\<close>

definition sql_lower :: "string \<Rightarrow> string" where
  "sql_lower s = map ascii_lower s"

text \<open>
  \<open>UPDATE ... SET ... WHERE\<close>: the number of rows that satisfy the condition, and the table
  with those rows changed.
\<close>

definition sql_update :: "('a \<Rightarrow> bool) \<Rightarrow> ('a \<Rightarrow> 'a) \<Rightarrow> 'a list \<Rightarrow> nat \<times> 'a list" where
  "sql_update P f rows = (length (filter P rows), map (\<lambda>r. if P r then f r else r) rows)"

section \<open>The statements on sessions\<close>

definition sql_insert_session :: "uuid \<Rightarrow> uuid \<Rightarrow> string \<Rightarrow> uuid \<Rightarrow> db \<Rightarrow> pg_reply \<times> db" where
  "sql_insert_session org agent connect_id g d =
     (if list_ex (\<lambda>r. sr_id r = g) (db_sessions d) then (unique_violation, d)
      else if \<not> list_ex (\<lambda>r. or_id r = org) (db_orgs d) \<or> \<not> list_ex (\<lambda>r. ur_id r = agent) (db_users d)
      then (foreign_key_violation, d)
      else (PgId g, d\<lparr>db_sessions := db_sessions d @
        [\<lparr>sr_id = g, sr_org = org, sr_agent = agent, sr_connect = connect_id, sr_status = Pending,
          sr_created = db_clock d, sr_connected = None, sr_ended = None\<rparr>]\<rparr>))"

definition sql_delete_session :: "uuid \<Rightarrow> db \<Rightarrow> pg_reply \<times> db" where
  "sql_delete_session sid d =
     (PgCount (length (filter (\<lambda>r. sr_id r = sid) (db_sessions d))),
      d\<lparr>db_sessions := filter (\<lambda>r. sr_id r \<noteq> sid) (db_sessions d),
        db_recordings := filter (\<lambda>r. rr_session r \<noteq> sid) (db_recordings d)\<rparr>)"

definition sql_activate_session :: "uuid \<Rightarrow> db \<Rightarrow> pg_reply \<times> db" where
  "sql_activate_session sid d =
     (let (n, rows) = sql_update (\<lambda>r. sr_id r = sid \<and> sr_status r = Pending)
        (\<lambda>r. r\<lparr>sr_status := Active, sr_connected := Some (db_clock d)\<rparr>) (db_sessions d)
      in (PgCount n, d\<lparr>db_sessions := rows\<rparr>))"

definition sql_end_session :: "uuid \<Rightarrow> db \<Rightarrow> pg_reply \<times> db" where
  "sql_end_session sid d =
     (let (n, rows) = sql_update (\<lambda>r. sr_id r = sid \<and> sr_status r = Active)
        (\<lambda>r. r\<lparr>sr_status := Ended, sr_ended := Some (db_clock d)\<rparr>) (db_sessions d)
      in (PgCount n, d\<lparr>db_sessions := rows\<rparr>))"

definition sql_expire_pending :: "time \<Rightarrow> db \<Rightarrow> pg_reply \<times> db" where
  "sql_expire_pending cutoff d =
     (let (n, rows) = sql_update (\<lambda>r. sr_status r = Pending \<and> sr_created r < cutoff)
        (\<lambda>r. r\<lparr>sr_status := Expired\<rparr>) (db_sessions d)
      in (PgCount n, d\<lparr>db_sessions := rows\<rparr>))"

section \<open>The statements on organizations and users\<close>

definition sql_insert_org :: "string \<Rightarrow> uuid \<Rightarrow> db \<Rightarrow> pg_reply \<times> db" where
  "sql_insert_org name g d =
     (if list_ex (\<lambda>r. or_id r = g) (db_orgs d) then (unique_violation, d)
      else (PgId g, d\<lparr>db_orgs := db_orgs d @ [\<lparr>or_id = g, or_name = name, or_created = db_clock d\<rparr>]\<rparr>))"

definition sql_insert_user ::
  "uuid \<Rightarrow> string \<Rightarrow> string \<Rightarrow> string \<Rightarrow> string \<Rightarrow> uuid \<Rightarrow> db \<Rightarrow> pg_reply \<times> db" where
  "sql_insert_user org email hash display role g d =
     (if role \<notin> {''admin'', ''agent'', ''viewer''} then (check_violation, d)
      else if list_ex (\<lambda>r. ur_id r = g \<or> ur_org r = org \<and> ur_email r = email
                \<or> sql_lower (ur_email r) = sql_lower email) (db_users d)
      then (unique_violation, d)
      else if \<not> list_ex (\<lambda>r. or_id r = org) (db_orgs d) then (foreign_key_violation, d)
      else (let u = \<lparr>ur_id = g, ur_org = org, ur_email = email, ur_hash = hash, ur_display = display,
              ur_role = role, ur_disabled = False, ur_created = db_clock d, ur_version = 0\<rparr>
            in (PgUser u, d\<lparr>db_users := db_users d @ [u]\<rparr>)))"

text \<open>\<open>pgx.BeginFunc\<close> of \<open>RegisterOrg\<close>: both inserts or none.\<close>

definition sql_register_org ::
  "string \<Rightarrow> string \<Rightarrow> string \<Rightarrow> string \<Rightarrow> uuid \<Rightarrow> uuid \<Rightarrow> db \<Rightarrow> pg_reply \<times> db" where
  "sql_register_org name email hash display g g' d =
     (case sql_insert_org name g d of
        (PgId org, d1) \<Rightarrow>
          (case sql_insert_user org email hash display ''admin'' g' d1 of
             (PgUser u, d2) \<Rightarrow> (PgUser u, d2)
           | (e, _) \<Rightarrow> (e, d))
      | (e, _) \<Rightarrow> (e, d))"

fun insert_by_created :: "user_row \<Rightarrow> user_row list \<Rightarrow> user_row list" where
  "insert_by_created u [] = [u]"
| "insert_by_created u (v # vs) =
     (if ur_created u \<le> ur_created v then u # v # vs else v # insert_by_created u vs)"

definition sort_by_created :: "user_row list \<Rightarrow> user_row list" where
  "sort_by_created us = foldr insert_by_created us []"

definition sql_select_user_by_email :: "string \<Rightarrow> db \<Rightarrow> pg_reply \<times> db" where
  "sql_select_user_by_email email d =
     (case sort_by_created (filter (\<lambda>r. sql_lower (ur_email r) = email) (db_users d)) of
        [] \<Rightarrow> (PgNoRows, d) | u # _ \<Rightarrow> (PgUser u, d))"

definition sql_select_users :: "uuid \<Rightarrow> db \<Rightarrow> pg_reply \<times> db" where
  "sql_select_users org d =
     (PgUsers (rev (sort_by_created (filter (\<lambda>r. ur_org r = org) (db_users d)))), d)"

definition sql_select_user :: "uuid \<Rightarrow> uuid \<Rightarrow> db \<Rightarrow> pg_reply \<times> db" where
  "sql_select_user uid org d =
     (case filter (\<lambda>r. ur_id r = uid \<and> ur_org r = org) (db_users d) of
        [] \<Rightarrow> (PgNoRows, d) | u # _ \<Rightarrow> (PgUser u, d))"

text \<open>\<open>token_version\<close> is a 32-bit integer column.\<close>

definition max_int32 :: int where
  "max_int32 = 2 ^ 31 - 1"

definition sql_set_disabled :: "bool \<Rightarrow> uuid \<Rightarrow> uuid \<Rightarrow> db \<Rightarrow> pg_reply \<times> db" where
  "sql_set_disabled b uid org d =
     (let P = (\<lambda>r. ur_id r = uid \<and> ur_org r = org);
          (n, rows) = sql_update P
            (\<lambda>r. r\<lparr>ur_disabled := b, ur_version := ur_version r + (if b then 1 else 0)\<rparr>) (db_users d)
      in if b \<and> list_ex (\<lambda>r. P r \<and> ur_version r = max_int32) (db_users d)
         then (numeric_out_of_range, d) else (PgCount n, d\<lparr>db_users := rows\<rparr>))"

definition sql_bump_version :: "uuid \<Rightarrow> uuid \<Rightarrow> db \<Rightarrow> pg_reply \<times> db" where
  "sql_bump_version uid org d =
     (let P = (\<lambda>r. ur_id r = uid \<and> ur_org r = org);
          (n, rows) = sql_update P (\<lambda>r. r\<lparr>ur_version := ur_version r + 1\<rparr>) (db_users d)
      in if list_ex (\<lambda>r. P r \<and> ur_version r = max_int32) (db_users d)
         then (numeric_out_of_range, d) else (PgCount n, d\<lparr>db_users := rows\<rparr>))"

section \<open>The statements on recordings\<close>

definition sql_session_in_org :: "uuid \<Rightarrow> uuid \<Rightarrow> db \<Rightarrow> pg_reply \<times> db" where
  "sql_session_in_org sid org d =
     (PgBool (list_ex (\<lambda>r. sr_id r = sid \<and> sr_org r = org) (db_sessions d)), d)"

definition sql_insert_recording ::
  "uuid \<Rightarrow> uuid \<Rightarrow> uuid \<Rightarrow> string \<Rightarrow> string \<Rightarrow> db \<Rightarrow> pg_reply \<times> db" where
  "sql_insert_recording rid sid org key ct d =
     (if list_ex (\<lambda>r. rr_id r = rid) (db_recordings d) then (unique_violation, d)
      else if \<not> list_ex (\<lambda>r. sr_id r = sid) (db_sessions d) \<or> \<not> list_ex (\<lambda>r. or_id r = org) (db_orgs d)
      then (foreign_key_violation, d)
      else (PgCount 1, d\<lparr>db_recordings := db_recordings d @
        [\<lparr>rr_id = rid, rr_session = sid, rr_org = org, rr_key = key, rr_content = ct, rr_size = 0,
          rr_status = RecPending, rr_created = db_clock d, rr_completed = None\<rparr>]\<rparr>))"

definition sql_complete_recording :: "int \<Rightarrow> uuid \<Rightarrow> uuid \<Rightarrow> db \<Rightarrow> pg_reply \<times> db" where
  "sql_complete_recording sz rid org d =
     (let (n, rows) = sql_update (\<lambda>r. rr_id r = rid \<and> rr_org r = org \<and> rr_status r = RecPending)
        (\<lambda>r. r\<lparr>rr_status := RecAvailable, rr_size := sz, rr_completed := Some (db_clock d)\<rparr>)
        (db_recordings d)
      in (PgCount n, d\<lparr>db_recordings := rows\<rparr>))"

fun insert_rec :: "recording_row \<Rightarrow> recording_row list \<Rightarrow> recording_row list" where
  "insert_rec u [] = [u]"
| "insert_rec u (v # vs) = (if rr_created u \<le> rr_created v then u # v # vs else v # insert_rec u vs)"

definition sql_select_recordings :: "uuid \<Rightarrow> uuid \<Rightarrow> db \<Rightarrow> pg_reply \<times> db" where
  "sql_select_recordings sid org d =
     (PgRecordings (rev (foldr insert_rec
        (filter (\<lambda>r. rr_session r = sid \<and> rr_org r = org) (db_recordings d)) [])), d)"

section \<open>Statements and the contract of the server\<close>

datatype pg_stmt =
    InsertSession uuid uuid string
  | DeleteSession uuid
  | ActivateSession uuid
  | EndSession uuid
  | ExpirePending time
  | RegisterOrgTx string string string string
  | InsertUser uuid string string string string
  | SelectUserByEmail string
  | SelectUsers uuid
  | SelectUser uuid uuid
  | SetDisabledStmt bool uuid uuid
  | BumpVersion uuid uuid
  | SessionInOrg uuid uuid
  | InsertRecording uuid uuid uuid string string
  | CompleteRecording int uuid uuid
  | SelectRecordings uuid uuid

text \<open>\<open>g\<close> and \<open>g'\<close> are the values of \<open>gen_random_uuid()\<close>.\<close>

fun pg_run :: "pg_stmt \<Rightarrow> uuid \<Rightarrow> uuid \<Rightarrow> db \<Rightarrow> pg_reply \<times> db" where
  "pg_run (InsertSession org agent cid) g g' d = sql_insert_session org agent cid g d"
| "pg_run (DeleteSession sid) g g' d = sql_delete_session sid d"
| "pg_run (ActivateSession sid) g g' d = sql_activate_session sid d"
| "pg_run (EndSession sid) g g' d = sql_end_session sid d"
| "pg_run (ExpirePending cutoff) g g' d = sql_expire_pending cutoff d"
| "pg_run (RegisterOrgTx name email hash display) g g' d = sql_register_org name email hash display g g' d"
| "pg_run (InsertUser org email hash display role) g g' d = sql_insert_user org email hash display role g d"
| "pg_run (SelectUserByEmail email) g g' d = sql_select_user_by_email email d"
| "pg_run (SelectUsers org) g g' d = sql_select_users org d"
| "pg_run (SelectUser uid org) g g' d = sql_select_user uid org d"
| "pg_run (SetDisabledStmt b uid org) g g' d = sql_set_disabled b uid org d"
| "pg_run (BumpVersion uid org) g g' d = sql_bump_version uid org d"
| "pg_run (SessionInOrg sid org) g g' d = sql_session_in_org sid org d"
| "pg_run (InsertRecording rid sid org key ct) g g' d = sql_insert_recording rid sid org key ct d"
| "pg_run (CompleteRecording sz rid org) g g' d = sql_complete_recording sz rid org d"
| "pg_run (SelectRecordings sid org) g g' d = sql_select_recordings sid org d"

fun is_PgErr :: "pg_reply \<Rightarrow> bool" where
  "is_PgErr (PgErr _) = True"
| "is_PgErr _ = False"

type_synonym 'd pg_client = "pg_stmt \<Rightarrow> 'd \<Rightarrow> pg_reply res \<times> 'd"

locale pg_service =
  fixes pg :: "'d pg_client"
    and pg_view :: "'d \<Rightarrow> db"
  assumes pg_ok: "pg q d = (Inr rep, d') \<Longrightarrow>
      \<exists>t g g'. db_clock (pg_view d) \<le> t \<and> pg_run q g g' ((pg_view d)\<lparr>db_clock := t\<rparr>) = (rep, pg_view d')
        \<and> \<not> is_PgErr rep"
    and pg_err: "pg q d = (Inl e, d') \<Longrightarrow>
      \<exists>t g g'. db_clock (pg_view d) \<le> t \<and> (pg_view d' = (pg_view d)\<lparr>db_clock := t\<rparr>
        \<or> pg_view d' = snd (pg_run q g g' ((pg_view d)\<lparr>db_clock := t\<rparr>)))"
begin

lemma pg_cases:
  assumes "pg q d = (x, d')"
  obtains t g g' where "db_clock (pg_view d) \<le> t"
      "pg_view d' = (pg_view d)\<lparr>db_clock := t\<rparr>"
    | t g g' where "db_clock (pg_view d) \<le> t"
      "pg_view d' = snd (pg_run q g g' ((pg_view d)\<lparr>db_clock := t\<rparr>))"
proof (cases x)
  case (Inl e)
  then show ?thesis using pg_err [of q d e d'] assms that by blast
next
  case (Inr rep)
  then show ?thesis using pg_ok [of q d rep d'] assms that(2) by (metis snd_conv)
qed

end

section \<open>A server driven by a plan\<close>

record pgsim =
  pg_db :: db
  pg_supply :: nat
  pg_plan :: "fault list"

definition pg_fail :: "pg_reply \<Rightarrow> pg_reply res" where
  "pg_fail rep = (case rep of PgErr code \<Rightarrow> Inl (ErrExt (''ERROR: (SQLSTATE '' @ code @ '')'')) | _ \<Rightarrow> Inr rep)"

definition sim_pg :: "pgsim pg_client" where
  "sim_pg q s =
     (let d = (\<lambda>n. (pg_db s)\<lparr>db_clock := db_clock (pg_db s) + int n\<rparr>);
          run = (\<lambda>n. pg_run q (word_of_nat (pg_supply s)) (word_of_nat (pg_supply s + 1)) (d n));
          k = pg_supply s + 2
      in case pg_plan s of
           [] \<Rightarrow> (case run 0 of (rep, d') \<Rightarrow> (pg_fail rep, \<lparr>pg_db = d', pg_supply = k, pg_plan = []\<rparr>))
         | Serve n # ps \<Rightarrow> (case run n of (rep, d') \<Rightarrow> (pg_fail rep, \<lparr>pg_db = d', pg_supply = k, pg_plan = ps\<rparr>))
         | LoseRequest n # ps \<Rightarrow>
             (Inl (ErrExt ''connection refused''), \<lparr>pg_db = d n, pg_supply = k, pg_plan = ps\<rparr>)
         | LoseReply n # ps \<Rightarrow>
             (Inl (ErrExt ''i/o timeout''), \<lparr>pg_db = snd (run n), pg_supply = k, pg_plan = ps\<rparr>))"

lemma pg_fail_Inr [simp]: "pg_fail rep = Inr rep' \<longleftrightarrow> rep' = rep \<and> \<not> is_PgErr rep"
  by (cases rep) (auto simp: pg_fail_def)

lemma sim_pg_run:
  "\<exists>n. sim_pg q s = (x, s') \<longrightarrow>
     (let d = (pg_db s)\<lparr>db_clock := db_clock (pg_db s) + int n\<rparr>;
          r = pg_run q (word_of_nat (pg_supply s)) (word_of_nat (pg_supply s + 1)) d
      in x = pg_fail (fst r) \<and> pg_db s' = snd r \<or> (\<exists>e. x = Inl e) \<and> (pg_db s' = d \<or> pg_db s' = snd r))"
proof (cases "pg_plan s")
  case Nil
  then show ?thesis
    by (intro exI [of _ 0]) (auto simp: sim_pg_def Let_def case_prod_beta)
next
  case (Cons p ps)
  then show ?thesis
    by (cases p) (auto simp: sim_pg_def Let_def case_prod_beta intro!: exI)
qed

interpretation simpg: pg_service sim_pg pg_db
proof
  fix q d rep d'
  assume a: "sim_pg q d = (Inr rep, d')"
  obtain n where "let e = (pg_db d)\<lparr>db_clock := db_clock (pg_db d) + int n\<rparr>;
      r = pg_run q (word_of_nat (pg_supply d)) (word_of_nat (pg_supply d + 1)) e
    in (Inr rep :: pg_reply res) = pg_fail (fst r) \<and> pg_db d' = snd r \<or> (\<exists>e'. (Inr rep :: pg_reply res) = Inl e') \<and> (pg_db d' = e \<or> pg_db d' = snd r)"
    using sim_pg_run [of q d "Inr rep" d'] a by blast
  then have "pg_run q (word_of_nat (pg_supply d)) (word_of_nat (pg_supply d + 1))
      ((pg_db d)\<lparr>db_clock := db_clock (pg_db d) + int n\<rparr>) = (rep, pg_db d')" "\<not> is_PgErr rep"
    by (auto simp: Let_def prod_eq_iff dest!: sym [of "Inr rep"])
  moreover have "db_clock (pg_db d) \<le> db_clock (pg_db d) + int n" by simp
  ultimately show "\<exists>t g g'. db_clock (pg_db d) \<le> t \<and>
      pg_run q g g' ((pg_db d)\<lparr>db_clock := t\<rparr>) = (rep, pg_db d') \<and> \<not> is_PgErr rep" by blast
next
  fix q d e d'
  assume a: "sim_pg q d = (Inl e, d')"
  obtain n where "let b = (pg_db d)\<lparr>db_clock := db_clock (pg_db d) + int n\<rparr>;
      r = pg_run q (word_of_nat (pg_supply d)) (word_of_nat (pg_supply d + 1)) b
    in (Inl e :: pg_reply res) = pg_fail (fst r) \<and> pg_db d' = snd r \<or> (\<exists>e'. (Inl e :: pg_reply res) = Inl e') \<and> (pg_db d' = b \<or> pg_db d' = snd r)"
    using sim_pg_run [of q d "Inl e" d'] a by blast
  then have "pg_db d' = (pg_db d)\<lparr>db_clock := db_clock (pg_db d) + int n\<rparr> \<or>
      pg_db d' = snd (pg_run q (word_of_nat (pg_supply d)) (word_of_nat (pg_supply d + 1))
        ((pg_db d)\<lparr>db_clock := db_clock (pg_db d) + int n\<rparr>))"
    by (auto simp: Let_def)
  moreover have "db_clock (pg_db d) \<le> db_clock (pg_db d) + int n" by simp
  ultimately show "\<exists>t g g'. db_clock (pg_db d) \<le> t \<and> (pg_db d' = (pg_db d)\<lparr>db_clock := t\<rparr> \<or>
      pg_db d' = snd (pg_run q g g' ((pg_db d)\<lparr>db_clock := t\<rparr>)))" by blast
qed

end
