(* ===== verification/Session.thy ===== *)
theory Session
  imports Requests Auth Turn Postgres_Service
begin

text \<open>
  Connection tokens and the life of a session (\<open>session/service.go\<close>,
  \<open>session/handlers.go\<close>). The service keeps its tokens in Redis and its sessions in Postgres;
  both servers, the token library, the UUID package, SHA-256 and HMAC-SHA1
  are fields of the record \<open>Service\<close>. \<open>Redeem\<close> is cut after its first call, the reading
  of the token: what follows is \<open>redeem_loaded\<close>, which concurrent requests run in some order
  after each of them has read the token.
\<close>

section \<open>Data\<close>

definition ErrInvalidToken :: string where
  "ErrInvalidToken = ''invalid or expired connection token''"

definition ErrTooManyAttempts :: string where
  "ErrTooManyAttempts = ''too many attempts''"

definition connectIDDigits :: nat where "connectIDDigits = 9"
definition pinDigits :: nat where "pinDigits = 6"
definition maxRedeemTries :: int where "maxRedeemTries = 5"

record Token =
  tk_SessionID :: uuid
  tk_ConnectID :: string
  tk_PIN :: string
  tk_ExpiresAt :: time
  tk_SignalingToken :: string

record JoinInfo =
  ji_SessionID :: uuid
  ji_Room :: string
  ji_SignalingToken :: string
  ji_ICEServers :: "ICEServer list"

record tokenRecord =
  tr_SessionID :: string
  tr_OrgID :: string
  tr_AgentID :: string
  tr_PINHash :: string

record ('r, 'd) Service =
  sv_db :: "'d pg_client"
  sv_redis :: "'r redis_client"
  sv_turn :: Minter
  sv_issuer :: Issuer
  sv_ttl :: duration
  sv_jwt :: jwt_pkg
  sv_uuid :: uuid_pkg
  sv_sha256 :: "string \<Rightarrow> string"
  sv_hmac_sha1 :: "string \<Rightarrow> string \<Rightarrow> string"

text \<open>The token record as JSON, with the field names of the struct tags.\<close>

definition tokenRecord_struct :: "tokenRecord \<Rightarrow> struct" where
  "tokenRecord_struct r = [(''session_id'', VStr (tr_SessionID r)), (''org_id'', VStr (tr_OrgID r)),
     (''agent_id'', VStr (tr_AgentID r)), (''pin_hash'', VStr (tr_PINHash r))]"

definition tokenRecord_of :: "struct \<Rightarrow> tokenRecord" where
  "tokenRecord_of st = \<lparr>tr_SessionID = fval_str (map_of st ''session_id''), tr_OrgID = fval_str (map_of st ''org_id''),
     tr_AgentID = fval_str (map_of st ''agent_id''), tr_PINHash = fval_str (map_of st ''pin_hash'')\<rparr>"

definition marshal_tokenRecord :: "tokenRecord \<Rightarrow> string" where
  "marshal_tokenRecord r = Marshal (tokenRecord_struct r)"

definition unmarshal_tokenRecord :: "string \<Rightarrow> tokenRecord res" where
  "unmarshal_tokenRecord raw =
     (case Unmarshal (tokenRecord_struct \<lparr>tr_SessionID = '''', tr_OrgID = '''', tr_AgentID = '''', tr_PINHash = ''''\<rparr>) raw of
        (st, Some e) \<Rightarrow> Inl e
      | (st, None) \<Rightarrow> Inr (tokenRecord_of st))"

lemma tokenRecord_roundtrip:
  assumes "is_ascii (tr_SessionID r)" and "is_ascii (tr_OrgID r)" and "is_ascii (tr_AgentID r)" and "is_ascii (tr_PINHash r)"
  shows "unmarshal_tokenRecord (marshal_tokenRecord r) = Inr r"
proof -
  let ?zero = "tokenRecord_struct \<lparr>tr_SessionID = '''', tr_OrgID = '''', tr_AgentID = '''', tr_PINHash = ''''\<rparr>"
  have "plain_struct (tokenRecord_struct r)" using assms by (simp add: plain_struct_def wf_map_def tokenRecord_struct_def is_ascii_def)
  moreover have "same_fields ?zero (tokenRecord_struct r)" by (simp add: same_fields_def tokenRecord_struct_def)
  ultimately have "Unmarshal ?zero (marshal_tokenRecord r) = (tokenRecord_struct r, None)"
    unfolding marshal_tokenRecord_def by (rule Unmarshal_Marshal)
  then show ?thesis by (simp add: unmarshal_tokenRecord_def tokenRecord_of_def tokenRecord_struct_def)
qed

text \<open>What is relied on of identifiers: they parse back, and print in ASCII.\<close>

definition codec_ok :: "('r, 'd) Service \<Rightarrow> bool" where
  "codec_ok sv \<longleftrightarrow> uuid_codec (sv_uuid sv) \<and> (\<forall>u. is_ascii (uuid_String (sv_uuid sv) u))"

record ('r, 'd) world =
  w_redis :: 'r
  w_db :: 'd

definition tokenKey :: "string \<Rightarrow> string" where
  "tokenKey connectID = ''session:token:'' @ connectID"

definition attemptsKey :: "string \<Rightarrow> string" where
  "attemptsKey connectID = ''session:attempts:'' @ connectID"

definition hashPIN :: "('r, 'd) Service \<Rightarrow> string \<Rightarrow> string" where
  "hashPIN sv pin = hex_EncodeToString (sv_sha256 sv pin)"

text \<open>
  The outcomes of \<open>rand.Int(rand.Reader, 10)\<close>, one after the other: a number below ten or a
  failure of the source.
\<close>

type_synonym tape = "nat option list"

fun rand_Int :: "tape \<Rightarrow> nat res \<times> tape" where
  "rand_Int (Some n # tp) = (Inr (n mod 10), tp)"
| "rand_Int (None # tp) = (Inl (ErrExt ''rand''), tp)"
| "rand_Int [] = (Inl (ErrExt ''rand''), [])"

fun random_digits_loop :: "nat \<Rightarrow> string \<Rightarrow> tape \<Rightarrow> string res \<times> tape" where
  "random_digits_loop 0 buf tp = (Inr buf, tp)"
| "random_digits_loop (Suc n) buf tp =
     (case rand_Int tp of
        (Inl e, tp1) \<Rightarrow> (Inl e, tp1)
      | (Inr idx, tp1) \<Rightarrow> random_digits_loop n (buf @ [''0123456789'' ! idx]) tp1)"

definition randomDigits :: "nat \<Rightarrow> tape \<Rightarrow> string res \<times> tape" where
  "randomDigits n tp = random_digits_loop n '''' tp"

section \<open>Mint\<close>

text \<open>
  Clock readings and fresh token ids are arguments: \<open>now\<close> lists the readings of the request
  in their order (\<open>Mint\<close>: \<open>expiresAt\<close>, then the signaling token; \<open>Redeem\<close>: the
  signaling token, then the TURN credentials), \<open>jti\<close> is the id of the signaling token.
\<close>

definition db_call :: "('r, 'd) Service \<Rightarrow> pg_stmt \<Rightarrow> ('r, 'd) world \<Rightarrow> pg_reply res \<times> ('r, 'd) world" where
  "db_call sv q w = (case sv_db sv q (w_db w) of (x, d) \<Rightarrow> (x, w\<lparr>w_db := d\<rparr>))"

definition redis_call ::
  "('r, 'd) Service \<Rightarrow> redis_cmd list \<Rightarrow> ('r, 'd) world \<Rightarrow> redis_reply list res \<times> ('r, 'd) world" where
  "redis_call sv cs w = (case sv_redis sv cs (w_redis w) of (x, r) \<Rightarrow> (x, w\<lparr>w_redis := r\<rparr>))"

definition token_record :: "('r, 'd) Service \<Rightarrow> uuid \<Rightarrow> uuid \<Rightarrow> uuid \<Rightarrow> string \<Rightarrow> tokenRecord" where
  "token_record sv sessionID orgID agentID pin =
     \<lparr>tr_SessionID = uuid_String (sv_uuid sv) sessionID, tr_OrgID = uuid_String (sv_uuid sv) orgID,
      tr_AgentID = uuid_String (sv_uuid sv) agentID, tr_PINHash = hashPIN sv pin\<rparr>"

text \<open>A scan of a reply of the wrong shape fails; the contracts exclude it.\<close>

abbreviation bad_reply :: go_error where
  "bad_reply \<equiv> ErrExt ''unexpected reply''"

fun mint_loop ::
  "('r, 'd) Service \<Rightarrow> clock \<Rightarrow> string \<Rightarrow> uuid \<Rightarrow> uuid \<Rightarrow> string \<Rightarrow> nat \<Rightarrow> tape \<Rightarrow> ('r, 'd) world \<Rightarrow>
     Token res \<times> tape \<times> ('r, 'd) world" where
  "mint_loop sv now jti orgID agentID pin 0 tp w =
     (Inl (ErrNew ''could not allocate a unique connect id''), tp, w)"
| "mint_loop sv now jti orgID agentID pin (Suc tries) tp w =
     (case randomDigits connectIDDigits tp of
        (Inl e, tp1) \<Rightarrow> (Inl e, tp1, w)
      | (Inr connectID, tp1) \<Rightarrow>
          (case db_call sv (InsertSession orgID agentID connectID) w of
             (Inl e, w1) \<Rightarrow> (Inl (ErrWrap ''create session'' e), tp1, w1)
           | (Inr (PgId sessionID), w1) \<Rightarrow>
               (case redis_call sv [SET_NX (tokenKey connectID)
                    (marshal_tokenRecord (token_record sv sessionID orgID agentID pin)) (sv_ttl sv)] w1 of
                  (Inl e, w2) \<Rightarrow> (Inl (ErrWrap ''store token'' e), tp1, w2)
                | (Inr [RBool ok], w2) \<Rightarrow>
                    if ok then
                      (case IssueSignaling (sv_jwt sv) (sv_issuer sv) (now 1) jti
                          (uuid_String (sv_uuid sv) sessionID) ''agent'' of
                         Inl e \<Rightarrow> (Inl (ErrWrap ''issue signaling token'' e), tp1, w2)
                       | Inr sigTok \<Rightarrow>
                           (Inr \<lparr>tk_SessionID = sessionID, tk_ConnectID = connectID, tk_PIN = pin,
                                 tk_ExpiresAt = now 0 + sv_ttl sv, tk_SignalingToken = sigTok\<rparr>, tp1, w2))
                    else mint_loop sv now jti orgID agentID pin tries tp1
                           (snd (db_call sv (DeleteSession sessionID) w2))
                | (Inr _, w2) \<Rightarrow> (Inl (ErrWrap ''store token'' bad_reply), tp1, w2))
           | (Inr _, w1) \<Rightarrow> (Inl (ErrWrap ''create session'' bad_reply), tp1, w1)))"

definition Mint ::
  "('r, 'd) Service \<Rightarrow> clock \<Rightarrow> string \<Rightarrow> uuid \<Rightarrow> uuid \<Rightarrow> tape \<Rightarrow> ('r, 'd) world \<Rightarrow>
     Token res \<times> tape \<times> ('r, 'd) world" where
  "Mint sv now jti orgID agentID tp w =
     (case randomDigits pinDigits tp of
        (Inl e, tp1) \<Rightarrow> (Inl e, tp1, w)
      | (Inr pin, tp1) \<Rightarrow> mint_loop sv now jti orgID agentID pin 5 tp1 w)"

section \<open>Redeem\<close>

definition invalidate :: "('r, 'd) Service \<Rightarrow> string \<Rightarrow> ('r, 'd) world \<Rightarrow> ('r, 'd) world" where
  "invalidate sv connectID w =
     snd (redis_call sv [DEL [tokenKey connectID, attemptsKey connectID]] w)"

text \<open>From the PIN check on: no more reading of the token.\<close>

definition redeem_consume ::
  "('r, 'd) Service \<Rightarrow> clock \<Rightarrow> string \<Rightarrow> string \<Rightarrow> uuid \<Rightarrow> ('r, 'd) world \<Rightarrow> JoinInfo res \<times> ('r, 'd) world" where
  "redeem_consume sv now jti connectID sessionID w =
     (case db_call sv (ActivateSession sessionID) (invalidate sv connectID w) of
        (Inl e, w1) \<Rightarrow> (Inl (ErrWrap ''activate session'' e), w1)
      | (Inr _, w1) \<Rightarrow>
          (case IssueSignaling (sv_jwt sv) (sv_issuer sv) (now 0) jti
              (uuid_String (sv_uuid sv) sessionID) ''phone'' of
             Inl e \<Rightarrow> (Inl (ErrWrap ''issue signaling token'' e), w1)
           | Inr sigTok \<Rightarrow>
               (Inr \<lparr>ji_SessionID = sessionID, ji_Room = uuid_String (sv_uuid sv) sessionID,
                     ji_SignalingToken = sigTok,
                     ji_ICEServers = Credentials (sv_hmac_sha1 sv) (sv_turn sv) (now 1)
                       (uuid_String (sv_uuid sv) sessionID)\<rparr>, w1)))"

text \<open>The decision on the record read at the start: an error, or the session to hand out.\<close>

definition redeem_check :: "('r, 'd) Service \<Rightarrow> string \<Rightarrow> string \<Rightarrow> uuid res" where
  "redeem_check sv pin raw =
     (case unmarshal_tokenRecord raw of
        Inl e \<Rightarrow> Inl (ErrWrap ''decode token'' e)
      | Inr rec \<Rightarrow>
          if hashPIN sv pin \<noteq> tr_PINHash rec then Inl (Sentinel ErrInvalidToken)
          else case uuid_Parse (sv_uuid sv) (tr_SessionID rec) of
            None \<Rightarrow> Inl (Sentinel ErrInvalidToken)
          | Some sessionID \<Rightarrow> Inr sessionID)"

text \<open>
  The body of \<open>Redeem\<close> after the token has been read: other requests may run between the
  reading of \<open>raw\<close> and this.
\<close>

definition redeem_loaded ::
  "('r, 'd) Service \<Rightarrow> clock \<Rightarrow> string \<Rightarrow> string \<Rightarrow> string \<Rightarrow> string \<Rightarrow> ('r, 'd) world \<Rightarrow>
     JoinInfo res \<times> ('r, 'd) world" where
  "redeem_loaded sv now jti connectID pin raw w =
     (case redis_call sv [INCR (attemptsKey connectID)] w of
        (Inl e, w1) \<Rightarrow> (Inl (ErrWrap ''track attempts'' e), w1)
      | (Inr [RInt attempts], w1) \<Rightarrow>
          (let w2 = (if attempts = 1
                 then snd (redis_call sv [EXPIRE (attemptsKey connectID) (sv_ttl sv)] w1) else w1)
           in if maxRedeemTries < attempts
              then (Inl (Sentinel ErrTooManyAttempts), invalidate sv connectID w2)
              else case redeem_check sv pin raw of
                Inl e \<Rightarrow> (Inl e, w2)
              | Inr sessionID \<Rightarrow> redeem_consume sv now jti connectID sessionID w2)
      | (Inr _, w1) \<Rightarrow> (Inl (ErrWrap ''track attempts'' bad_reply), w1))"

definition Redeem ::
  "('r, 'd) Service \<Rightarrow> clock \<Rightarrow> string \<Rightarrow> string \<Rightarrow> string \<Rightarrow> ('r, 'd) world \<Rightarrow> JoinInfo res \<times> ('r, 'd) world" where
  "Redeem sv now jti connectID pin w =
     (case redis_call sv [GET (tokenKey connectID)] w of
        (Inl e, w1) \<Rightarrow> (Inl (ErrWrap ''load token'' e), w1)
      | (Inr [RNil], w1) \<Rightarrow> (Inl (Sentinel ErrInvalidToken), w1)
      | (Inr [RStr raw], w1) \<Rightarrow> redeem_loaded sv now jti connectID pin raw w1
      | (Inr _, w1) \<Rightarrow> (Inl (ErrWrap ''load token'' bad_reply), w1))"

section \<open>The rest of the service\<close>

definition ICEServers :: "('r, 'd) Service \<Rightarrow> time \<Rightarrow> uuid \<Rightarrow> ICEServer list" where
  "ICEServers sv now sessionID =
     Credentials (sv_hmac_sha1 sv) (sv_turn sv) now (uuid_String (sv_uuid sv) sessionID)"

definition MarkEnded :: "('r, 'd) Service \<Rightarrow> uuid \<Rightarrow> ('r, 'd) world \<Rightarrow> unit res \<times> ('r, 'd) world" where
  "MarkEnded sv sessionID w =
     (case db_call sv (EndSession sessionID) w of
        (Inl e, w1) \<Rightarrow> (Inl (ErrWrap ''mark session ended'' e), w1)
      | (Inr _, w1) \<Rightarrow> (Inr (), w1))"

definition ExpireStalePending ::
  "('r, 'd) Service \<Rightarrow> time \<Rightarrow> duration \<Rightarrow> ('r, 'd) world \<Rightarrow> nat res \<times> ('r, 'd) world" where
  "ExpireStalePending sv now olderThan w =
     (case db_call sv (ExpirePending (now + int64 (- olderThan))) w of
        (Inl e, w1) \<Rightarrow> (Inl (ErrWrap ''expire stale pending sessions'' e), w1)
      | (Inr (PgCount n), w1) \<Rightarrow> (Inr n, w1)
      | (Inr _, w1) \<Rightarrow> (Inr 0, w1))"

text \<open>The callback of \<open>cmd/server/main.go\<close> for an empty room, and one turn of its sweeper.\<close>

definition room_ended_callback :: "('r, 'd) Service \<Rightarrow> room \<Rightarrow> ('r, 'd) world \<Rightarrow> ('r, 'd) world" where
  "room_ended_callback sv room w =
     (case uuid_Parse (sv_uuid sv) room of
        None \<Rightarrow> w
      | Some sessionID \<Rightarrow> snd (MarkEnded sv sessionID w))"

definition cutoffMultiplier :: int where
  "cutoffMultiplier = 2"

definition sweep_tick :: "('r, 'd) Service \<Rightarrow> time \<Rightarrow> ('r, 'd) world \<Rightarrow> ('r, 'd) world" where
  "sweep_tick sv now w = snd (ExpireStalePending sv now (int64 (cutoffMultiplier * sv_ttl sv)) w)"

section \<open>Handlers\<close>

record redeemRequest =
  rd_ConnectID :: string
  rd_PIN :: string

definition ice_json :: "ICEServer list \<Rightarrow> json" where
  "ice_json ss = (if ss = [] then JNull else JArr (map (\<lambda>s. JObj
     ([(''urls'', JArr (map JStr (ice_URLs s)))] @
      (if ice_Username s = '''' then [] else [(''username'', JStr (ice_Username s))]) @
      (if ice_Credential s = '''' then [] else [(''credential'', JStr (ice_Credential s))]))) ss))"

definition handle_Mint ::
  "('r, 'd) Service \<Rightarrow> clock \<Rightarrow> string \<Rightarrow> tape \<Rightarrow> ('r, 'd) world handler" where
  "handle_Mint sv now jti tp r w =
     (case FromContext r of
        None \<Rightarrow> (WriteError StatusUnauthorized ''unauthenticated'', w)
      | Some p \<Rightarrow>
          if pr_Role p = ''viewer'' then (WriteError StatusForbidden ''viewers cannot start sessions'', w)
          else case Mint sv now jti (pr_OrgID p) (pr_UserID p) tp w of
            (Inl e, tp1, w1) \<Rightarrow> (WriteError StatusInternalServerError ''could not mint token'', w1)
          | (Inr tok, tp1, w1) \<Rightarrow>
              (WriteJSON StatusCreated (Some (JObj
                 [(''connect_id'', JStr (tk_ConnectID tok)),
                  (''expires_at'', JTime (tk_ExpiresAt tok)),
                  (''ice_servers'', ice_json (ICEServers sv (now 2) (tk_SessionID tok))),
                  (''pin'', JStr (tk_PIN tok)),
                  (''room'', JStr (uuid_String (sv_uuid sv) (tk_SessionID tok))),
                  (''session_id'', JStr (uuid_String (sv_uuid sv) (tk_SessionID tok))),
                  (''signaling_token'', JStr (tk_SignalingToken tok))])), w1))"

definition handle_Redeem ::
  "('r, 'd) Service \<Rightarrow> clock \<Rightarrow> string \<Rightarrow> redeemRequest res \<Rightarrow> ('r, 'd) world handler" where
  "handle_Redeem sv now jti decoded r w =
     (case decoded of
        Inl e \<Rightarrow> (WriteError StatusBadRequest (err_Error e), w)
      | Inr req \<Rightarrow>
          if rd_ConnectID req = '''' \<or> rd_PIN req = ''''
          then (WriteError StatusBadRequest ''connect_id and pin are required'', w)
          else case Redeem sv now jti (rd_ConnectID req) (rd_PIN req) w of
            (Inl e, w1) \<Rightarrow>
              (if errors_Is e ErrTooManyAttempts then WriteError StatusTooManyRequests ''too many attempts''
               else if errors_Is e ErrInvalidToken then WriteError StatusUnauthorized ''invalid or expired token''
               else WriteError StatusInternalServerError ''redeem failed'', w1)
          | (Inr info, w1) \<Rightarrow>
              (WriteJSON StatusOK (Some (JObj
                 [(''session_id'', JStr (uuid_String (sv_uuid sv) (ji_SessionID info))),
                  (''room'', JStr (ji_Room info)), (''signaling_token'', JStr (ji_SignalingToken info)),
                  (''ice_servers'', ice_json (ji_ICEServers info))])), w1))"

end
