(* ===== verification/Session_Redeem.thy ===== *)
theory Session_Redeem
  imports Session
begin

text \<open>
  What minting and redeeming do to the two stores: the round trip from \<open>Mint\<close> to
  \<open>Redeem\<close>, single use, the bound on PIN guesses for requests that do not overlap, and the
  two ways in which overlapping requests escape these guarantees.
\<close>

section \<open>Keys and calls\<close>

lemma keys [simp]:
  "tokenKey c = tokenKey c' \<longleftrightarrow> c = c'" "attemptsKey c = attemptsKey c' \<longleftrightarrow> c = c'"
  "tokenKey c \<noteq> attemptsKey c'" "attemptsKey c' \<noteq> tokenKey c"
  by (simp_all add: tokenKey_def attemptsKey_def)

lemma db_call_redis [simp]: "w_redis (snd (db_call sv q w)) = w_redis w"
  by (simp add: db_call_def split: prod.split)

lemma redis_call_db [simp]: "w_db (snd (redis_call sv cs w)) = w_db w"
  by (simp add: redis_call_def split: prod.split)

lemma invalidate_db [simp]: "w_db (invalidate sv c w) = w_db w"
  by (simp add: invalidate_def)

lemma redis_call_ref:
  assumes "sv_redis sv = ref_exec" and "redis_cmd_run cmd (w_redis w) = (rep, ks)" and "\<not> is_RErr rep"
  shows "redis_call sv [cmd] w = (Inr [rep], w\<lparr>w_redis := ks\<rparr>)"
  by (simp add: redis_call_def assms(1) ref_exec_single [OF assms(2,3)])

lemma get_hit:
  "sv_redis sv = ref_exec \<Longrightarrow> live (w_redis w) k = Some (RvStr raw, e) \<Longrightarrow>
     redis_call sv [GET k] w = (Inr [RStr raw], w)"
  by (subst redis_call_ref) auto

lemma get_miss:
  "sv_redis sv = ref_exec \<Longrightarrow> live (w_redis w) k = None \<Longrightarrow>
     redis_call sv [GET k] w = (Inr [RNil], w)"
  by (subst redis_call_ref) auto

lemma invalidate_live:
  assumes "sv_redis sv = ref_exec"
  shows "live (w_redis (invalidate sv c w)) k =
      (if k = tokenKey c \<or> k = attemptsKey c then None else live (w_redis w) k)"
    and "ks_clock (w_redis (invalidate sv c w)) = ks_clock (w_redis w)"
  by (simp_all add: invalidate_def redis_call_def assms ref_exec_def)

text \<open>Counting an attempt: the counter goes up, everything else stays.\<close>

lemma redeem_loaded_ref:
  fixes c :: string
  assumes sv: "sv_redis sv = ref_exec" and ttl: "0 < sv_ttl sv"
    and key: "key_ok (w_redis w) (attemptsKey c)" "int (key_count (w_redis w) (attemptsKey c)) < max_int64"
  defines "n \<equiv> int (key_count (w_redis w) (attemptsKey c)) + 1"
  obtains w2 where "redeem_loaded sv now jti c pin raw w =
      (if maxRedeemTries < n then (Inl (Sentinel ErrTooManyAttempts), invalidate sv c w2)
       else case redeem_check sv pin raw of Inl e \<Rightarrow> (Inl e, w2)
            | Inr sid \<Rightarrow> redeem_consume sv now jti c sid w2)"
    "w_db w2 = w_db w" "ks_clock (w_redis w2) = ks_clock (w_redis w)"
    "live (w_redis w2) (attemptsKey c) = Some (RvStr (Itoa n),
       if n = 1 then Some (ks_clock (w_redis w) + expire_secs (sv_ttl sv))
       else key_expiry (w_redis w) (attemptsKey c))"
    "\<And>k. k \<noteq> attemptsKey c \<Longrightarrow> live (w_redis w2) k = live (w_redis w) k"
proof -
  let ?k = "attemptsKey c" and ?ks = "w_redis w"
  let ?w1 = "w\<lparr>w_redis := ks_put ?k (RvStr (Itoa n)) (key_expiry ?ks ?k) ?ks\<rparr>"
  have pos: "0 < expire_secs (sv_ttl sv)" using ttl by (simp add: expire_secs_def Second_def)
  have incr: "redis_call sv [INCR ?k] w = (Inr [RInt n], ?w1)"
    using redis_call_ref [OF sv incr_run [OF key]] by (simp add: n_def)
  have exp: "\<And>t. key_expiry ?ks ?k = Some t \<Longrightarrow> ks_clock ?ks < t" by (rule key_expiry_later)
  have l1: "live (w_redis ?w1) ?k = Some (RvStr (Itoa n), key_expiry ?ks ?k)"
    using exp by (simp split: option.split)
  obtain w1 where w1: "w1 = ?w1" by blast
  have e: "redis_call sv [EXPIRE ?k (sv_ttl sv)] w1 = (Inr [RBool True],
      w1\<lparr>w_redis := ks_put ?k (RvStr (Itoa n)) (Some (ks_clock ?ks + expire_secs (sv_ttl sv))) (w_redis w1)\<rparr>)"
    by (rule redis_call_ref [OF sv]) (use l1 pos w1 in simp_all)
  obtain w2 where w2: "w2 = (if n = 1 then snd (redis_call sv [EXPIRE ?k (sv_ttl sv)] w1) else w1)" by blast
  show thesis
  proof (rule that [of w2])
    show "redeem_loaded sv now jti c pin raw w =
      (if maxRedeemTries < n then (Inl (Sentinel ErrTooManyAttempts), invalidate sv c w2)
       else case redeem_check sv pin raw of Inl e \<Rightarrow> (Inl e, w2)
            | Inr sid \<Rightarrow> redeem_consume sv now jti c sid w2)"
      unfolding redeem_loaded_def incr w2 w1 by (simp only: prod.case sum.case list.case redis_reply.case Let_def)
    show "live (w_redis w2) ?k = Some (RvStr (Itoa n),
       if n = 1 then Some (ks_clock ?ks + expire_secs (sv_ttl sv)) else key_expiry ?ks ?k)"
    proof (cases "n = 1")
      case True
      then show ?thesis using pos unfolding w2 e by (simp add: w1)
    next
      case False
      then show ?thesis using l1 by (simp only: w2 w1 if_False)
    qed
    show "w_db w2 = w_db w" "ks_clock (w_redis w2) = ks_clock ?ks"
      "\<And>k. k \<noteq> ?k \<Longrightarrow> live (w_redis w2) k = live ?ks k"
      unfolding w2 e by (simp_all add: w1)
  qed
qed

lemma redeem_check_own:
  "codec_ok sv \<Longrightarrow> redeem_check sv pin (marshal_tokenRecord (token_record sv sid org agent pin')) =
     (if hashPIN sv pin = hashPIN sv pin' then Inr sid else Inl (Sentinel ErrInvalidToken))"
proof -
  assume sv: "codec_ok sv"
  have "unmarshal_tokenRecord (marshal_tokenRecord (token_record sv sid org agent pin')) = Inr (token_record sv sid org agent pin')"
    using sv by (intro tokenRecord_roundtrip) (simp_all add: codec_ok_def token_record_def hashPIN_def ascii_hex)
  with sv show ?thesis by (simp add: redeem_check_def codec_ok_def token_record_def)
qed

section \<open>Consuming a token\<close>

definition join_info :: "('r, 'd) Service \<Rightarrow> clock \<Rightarrow> uuid \<Rightarrow> string \<Rightarrow> JoinInfo" where
  "join_info sv now sid tok =
     \<lparr>ji_SessionID = sid, ji_Room = uuid_String (sv_uuid sv) sid, ji_SignalingToken = tok,
      ji_ICEServers = Credentials (sv_hmac_sha1 sv) (sv_turn sv) (now 1) (uuid_String (sv_uuid sv) sid)\<rparr>"

lemma redeem_consume_ok:
  assumes "sv_redis sv = ref_exec"
    and "sv_db sv (ActivateSession sid) (w_db w) = (Inr rep, d)"
    and "IssueSignaling (sv_jwt sv) (sv_issuer sv) (now 0) jti (uuid_String (sv_uuid sv) sid) ''phone'' = Inr tok"
  shows "\<exists>w'. redeem_consume sv now jti c sid w = (Inr (join_info sv now sid tok), w') \<and> w_db w' = d \<and>
    ks_clock (w_redis w') = ks_clock (w_redis w) \<and>
    (\<forall>k. live (w_redis w') k = (if k = tokenKey c \<or> k = attemptsKey c then None else live (w_redis w) k))"
  using assms(2,3) invalidate_live [OF assms(1), of c w]
  by (simp add: redeem_consume_def db_call_def join_info_def)

text \<open>
  A request that has read the token's record succeeds with the right PIN whenever fewer than five
  attempts are on the counter, whether or not the token still exists.
\<close>

lemma loaded_succeeds:
  assumes sv: "sv_redis sv = ref_exec" "0 < sv_ttl sv" "codec_ok sv"
    and key: "key_ok (w_redis w) (attemptsKey c)" "key_count (w_redis w) (attemptsKey c) < 5"
    and db: "sv_db sv (ActivateSession sid) (w_db w) = (Inr rep, d)"
    and iss: "IssueSignaling (sv_jwt sv) (sv_issuer sv) (now 0) jti (uuid_String (sv_uuid sv) sid) ''phone'' = Inr tok"
  shows "\<exists>w'. redeem_loaded sv now jti c pin (marshal_tokenRecord (token_record sv sid org agent pin)) w
      = (Inr (join_info sv now sid tok), w') \<and> w_db w' = d \<and>
    live (w_redis w') (tokenKey c) = None \<and> live (w_redis w') (attemptsKey c) = None"
proof -
  have lt: "int (key_count (w_redis w) (attemptsKey c)) < max_int64" using key(2) by (simp add: max_int64_def)
  obtain w2 where w2: "redeem_loaded sv now jti c pin (marshal_tokenRecord (token_record sv sid org agent pin)) w =
      (if maxRedeemTries < int (key_count (w_redis w) (attemptsKey c)) + 1
       then (Inl (Sentinel ErrTooManyAttempts), invalidate sv c w2)
       else case redeem_check sv pin (marshal_tokenRecord (token_record sv sid org agent pin)) of Inl e \<Rightarrow> (Inl e, w2)
            | Inr sid \<Rightarrow> redeem_consume sv now jti c sid w2)" "w_db w2 = w_db w"
    using redeem_loaded_ref [OF sv(1,2) key(1) lt] by blast
  have "redeem_loaded sv now jti c pin (marshal_tokenRecord (token_record sv sid org agent pin)) w =
      redeem_consume sv now jti c sid w2"
    using key(2) sv(3) by (simp add: w2 redeem_check_own maxRedeemTries_def)
  then show ?thesis
    using redeem_consume_ok [OF sv(1), of sid w2 rep d now jti tok c] db iss w2(2) by auto
qed

section \<open>Minting\<close>

lemma mint_loop_success:
  assumes "mint_loop sv now jti org agent pin n tp w = (Inr tok, tp', w')"
    and sv: "sv_redis sv = ref_exec" "0 < sv_ttl sv"
  shows "tk_PIN tok = pin \<and>
    live (w_redis w') (tokenKey (tk_ConnectID tok)) =
      Some (RvStr (marshal_tokenRecord (token_record sv (tk_SessionID tok) org agent pin)),
        Some (ks_clock (w_redis w') + sv_ttl sv)) \<and>
    live (w_redis w) (tokenKey (tk_ConnectID tok)) = None \<and>
    (\<forall>k. k \<noteq> tokenKey (tk_ConnectID tok) \<longrightarrow> live (w_redis w') k = live (w_redis w) k) \<and>
    ks_clock (w_redis w') = ks_clock (w_redis w)"
  using assms(1)
proof (induction n arbitrary: tp w)
  case (Suc n)
  obtain c tp1 where c: "randomDigits connectIDDigits tp = (Inr c, tp1)"
    using Suc.prems by (auto split: prod.splits sum.splits)
  obtain sid w1 where i: "db_call sv (InsertSession org agent c) w = (Inr (PgId sid), w1)"
    using Suc.prems c by (auto split: prod.splits sum.splits pg_reply.splits)
  have r1: "w_redis w1 = w_redis w" using db_call_redis [of sv "InsertSession org agent c" w] i by simp
  let ?rec = "marshal_tokenRecord (token_record sv sid org agent pin)"
  show ?case
  proof (cases "live (w_redis w) (tokenKey c)")
    case None
    let ?w2 = "w1\<lparr>w_redis := ks_put (tokenKey c) (RvStr ?rec) (Some (ks_clock (w_redis w) + sv_ttl sv)) (w_redis w)\<rparr>"
    have "redis_call sv [SET_NX (tokenKey c) ?rec (sv_ttl sv)] w1 = (Inr [RBool True], ?w2)"
      by (rule redis_call_ref [OF sv(1)]) (use sv(2) None r1 in simp_all)
    with Suc.prems c i have "w' = ?w2" "tk_ConnectID tok = c" "tk_SessionID tok = sid" "tk_PIN tok = pin"
      by (auto split: sum.splits)
    with None sv(2) show ?thesis by simp
  next
    case (Some v)
    have "redis_call sv [SET_NX (tokenKey c) ?rec (sv_ttl sv)] w1 = (Inr [RBool False], w1\<lparr>w_redis := w_redis w1\<rparr>)"
      by (rule redis_call_ref [OF sv(1)]) (use sv(2) Some r1 in simp_all)
    with Suc.prems c i
    have "mint_loop sv now jti org agent pin n tp1 (snd (db_call sv (DeleteSession sid) w1)) = (Inr tok, tp', w')"
      by simp
    from Suc.IH [OF this] r1 show ?thesis by simp
  qed
qed simp

section \<open>Guessing the PIN\<close>

definition pass :: "nat \<Rightarrow> (keyspace, 'd) world \<Rightarrow> (keyspace, 'd) world" where
  "pass d w = w\<lparr>w_redis := later (int d) (w_redis w)\<rparr>"

text \<open>Requests one after the other, each after a pause: pause, clock reading, token id, PIN.\<close>

fun redeem_seq ::
  "(keyspace, 'd) Service \<Rightarrow> string \<Rightarrow> (nat \<times> clock \<times> string \<times> string) list \<Rightarrow>
     (keyspace, 'd) world \<Rightarrow> (keyspace, 'd) world" where
  "redeem_seq sv c [] w = w"
| "redeem_seq sv c ((d, now, jti, pin) # gs) w =
     redeem_seq sv c gs (snd (Redeem sv now jti c pin (pass d w)))"

text \<open>After \<open>k\<close> wrong guesses: the token is gone, or the counter outlives it and stands at \<open>k\<close> or more.\<close>

definition guessed :: "duration \<Rightarrow> string \<Rightarrow> string \<Rightarrow> nat \<Rightarrow> keyspace \<Rightarrow> bool" where
  "guessed ttl c raw k ks \<longleftrightarrow> live ks (tokenKey c) = None \<or>
     (\<exists>e. live ks (tokenKey c) = Some (RvStr raw, Some e) \<and>
        (k = 0 \<and> live ks (attemptsKey c) = None \<and> e \<le> ks_clock ks + expire_secs ttl \<or>
         (\<exists>n e'. live ks (attemptsKey c) = Some (RvStr (Itoa (int n)), e') \<and>
            (\<forall>x. e' = Some x \<longrightarrow> e \<le> x) \<and> k \<le> n \<and> 0 < n \<and> n \<le> 5)))"

lemma guessed_later:
  assumes "guessed ttl c raw k ks" and "0 \<le> d"
  shows "guessed ttl c raw k (later d ks)"
proof (cases "live (later d ks) (tokenKey c)")
  case None
  then show ?thesis by (simp add: guessed_def)
next
  case (Some v)
  then have tok: "live ks (tokenKey c) = Some v"
    using live_later_cases [OF assms(2), of ks "tokenKey c"] by simp
  then obtain e where e: "v = (RvStr raw, Some e)"
    and r: "k = 0 \<and> live ks (attemptsKey c) = None \<and> e \<le> ks_clock ks + expire_secs ttl \<or>
      (\<exists>n e'. live ks (attemptsKey c) = Some (RvStr (Itoa (int n)), e') \<and>
        (\<forall>x. e' = Some x \<longrightarrow> e \<le> x) \<and> k \<le> n \<and> 0 < n \<and> n \<le> 5)"
    using assms(1) by (auto simp: guessed_def)
  have lt: "ks_clock ks + d < e" using Some e by (simp add: live_Some_iff)
  show ?thesis
    using r
  proof (elim disjE exE conjE)
    fix n e'
    assume a: "live ks (attemptsKey c) = Some (RvStr (Itoa (int n)), e')" "\<forall>x. e' = Some x \<longrightarrow> e \<le> x"
      "k \<le> n" "0 < n" "n \<le> 5"
    then have "live (later d ks) (attemptsKey c) = Some (RvStr (Itoa (int n)), e')"
      using lt by (intro live_later_Some) fastforce+
    with a Some e show ?thesis by (auto simp: guessed_def)
  next
    assume "k = 0" "live ks (attemptsKey c) = None" "e \<le> ks_clock ks + expire_secs ttl"
    then show ?thesis
      using assms(2) Some e live_later_cases [OF assms(2), of ks "attemptsKey c"]
      by (auto simp: guessed_def)
  qed
qed

lemma guessed_attempt:
  assumes sv: "sv_redis sv = ref_exec" "0 < sv_ttl sv"
    and g: "guessed (sv_ttl sv) c raw k (w_redis w)"
    and wrong: "redeem_check sv pin raw = Inl err"
  shows "guessed (sv_ttl sv) c raw (Suc k) (w_redis (snd (Redeem sv now jti c pin w)))"
proof (cases "live (w_redis w) (tokenKey c)")
  case None
  then show ?thesis by (simp add: Redeem_def get_miss [OF sv(1)] guessed_def)
next
  case (Some v)
  then obtain e where tok: "live (w_redis w) (tokenKey c) = Some (RvStr raw, Some e)"
    and r: "k = 0 \<and> live (w_redis w) (attemptsKey c) = None \<and> e \<le> ks_clock (w_redis w) + expire_secs (sv_ttl sv) \<or>
      (\<exists>n e'. live (w_redis w) (attemptsKey c) = Some (RvStr (Itoa (int n)), e') \<and>
        (\<forall>x. e' = Some x \<longrightarrow> e \<le> x) \<and> k \<le> n \<and> 0 < n \<and> n \<le> 5)"
    using g by (auto simp: guessed_def)
  have red: "Redeem sv now jti c pin w = redeem_loaded sv now jti c pin raw w"
    by (simp add: Redeem_def get_hit [OF sv(1) tok])
  obtain n e' where n: "key_ok (w_redis w) (attemptsKey c)" "key_count (w_redis w) (attemptsKey c) = n"
      "key_expiry (w_redis w) (attemptsKey c) = e'" "n \<le> 5" "k \<le> n"
      "n = 0 \<Longrightarrow> e \<le> ks_clock (w_redis w) + expire_secs (sv_ttl sv)" "n \<noteq> 0 \<Longrightarrow> \<forall>x. e' = Some x \<longrightarrow> e \<le> x"
    using r key_stored [of "w_redis w" "attemptsKey c"] by (fastforce simp: max_int64_def)
  obtain w2 where w2: "redeem_loaded sv now jti c pin raw w =
      (if maxRedeemTries < int n + 1 then (Inl (Sentinel ErrTooManyAttempts), invalidate sv c w2)
       else case redeem_check sv pin raw of Inl e \<Rightarrow> (Inl e, w2)
            | Inr sid \<Rightarrow> redeem_consume sv now jti c sid w2)"
    "live (w_redis w2) (attemptsKey c) = Some (RvStr (Itoa (int n + 1)),
       if int n + 1 = 1 then Some (ks_clock (w_redis w) + expire_secs (sv_ttl sv)) else e')"
    "\<And>k. k \<noteq> attemptsKey c \<Longrightarrow> live (w_redis w2) k = live (w_redis w) k"
    using redeem_loaded_ref [OF sv n(1), of now jti pin raw] n(2-4) by (auto simp: max_int64_def)
  show ?thesis
  proof (cases "n = 5")
    case True
    then show ?thesis by (simp add: red w2(1) maxRedeemTries_def guessed_def invalidate_live [OF sv(1)])
  next
    case False
    with n(4) have "snd (Redeem sv now jti c pin w) = w2"
      by (simp add: red w2(1) wrong maxRedeemTries_def)
    moreover have "live (w_redis w2) (attemptsKey c) = Some (RvStr (Itoa (int (Suc n))),
       if n = 0 then Some (ks_clock (w_redis w) + expire_secs (sv_ttl sv)) else e')"
      using w2(2) by (simp add: algebra_simps)
    ultimately show ?thesis
      using False n(4-7) tok w2(3) [of "tokenKey c"]
      by (auto simp: guessed_def intro!: exI [of _ "Suc n"] split: if_splits)
  qed
qed

lemma guessed_five:
  assumes sv: "sv_redis sv = ref_exec" "0 < sv_ttl sv" and g: "guessed (sv_ttl sv) c raw k (w_redis w)" "5 \<le> k"
  shows "\<exists>err. fst (Redeem sv now jti c pin w) = Inl err"
proof (cases "live (w_redis w) (tokenKey c)")
  case None
  then show ?thesis by (simp add: Redeem_def get_miss [OF sv(1)])
next
  case (Some v)
  then obtain e e' where tok: "live (w_redis w) (tokenKey c) = Some (RvStr raw, Some e)"
    and a: "live (w_redis w) (attemptsKey c) = Some (RvStr (Itoa 5), e')"
    using g by (auto simp: guessed_def) (metis le_antisym of_nat_numeral order_trans)
  have k: "key_ok (w_redis w) (attemptsKey c)" "key_count (w_redis w) (attemptsKey c) = 5"
    using key_stored [OF a] by (simp_all add: max_int64_def)
  then obtain w2 where "redeem_loaded sv now jti c pin raw w = (Inl (Sentinel ErrTooManyAttempts), invalidate sv c w2)"
    using redeem_loaded_ref [OF sv k(1), of now jti pin raw] by (auto simp: max_int64_def maxRedeemTries_def)
  then show ?thesis by (simp add: Redeem_def get_hit [OF sv(1) tok])
qed

lemma guessed_seq:
  assumes sv: "sv_redis sv = ref_exec" "0 < sv_ttl sv"
    and "guessed (sv_ttl sv) c raw k (w_redis w)"
    and "\<forall>(d, now, jti, pin) \<in> set gs. \<exists>err. redeem_check sv pin raw = Inl err"
  shows "guessed (sv_ttl sv) c raw (k + length gs) (w_redis (redeem_seq sv c gs w))"
  using assms(3,4)
proof (induction gs arbitrary: k w)
  case (Cons g gs)
  obtain d now jti pin where g: "g = (d, now, jti, pin)" by (metis surj_pair)
  obtain err where "redeem_check sv pin raw = Inl err" using Cons.prems(2) g by auto
  moreover have "guessed (sv_ttl sv) c raw k (w_redis (pass d w))"
    using guessed_later [OF Cons.prems(1)] by (simp add: pass_def)
  ultimately have "guessed (sv_ttl sv) c raw (Suc k) (w_redis (snd (Redeem sv now jti c pin (pass d w))))"
    by (intro guessed_attempt [OF sv])
  from Cons.IH [OF this] Cons.prems(2) g show ?case by simp
qed simp

section \<open>A service to compute with\<close>

definition demo_sv :: "(keyspace, pgsim) Service" where
  "demo_sv = \<lparr>sv_db = sim_pg, sv_redis = ref_exec, sv_turn = NewMinter ''s'' [''turn:h''] Hour,
     sv_issuer = NewIssuer ''key'' Minute Hour Hour, sv_ttl = 10 * Minute, sv_jwt = ref_jwt,
     sv_uuid = dec_uuid, sv_sha256 = (\<lambda>s. s), sv_hmac_sha1 = (\<lambda>k s. k @ s)\<rparr>"

definition demo_db :: db where
  "demo_db = (db_empty 0)\<lparr>db_orgs := [\<lparr>or_id = 7, or_name = ''o'', or_created = 0\<rparr>],
     db_users := [\<lparr>ur_id = 8, ur_org = 7, ur_email = ''a@b'', ur_hash = ''h'', ur_display = '''',
       ur_role = ''agent'', ur_disabled = False, ur_created = 0, ur_version = 0\<rparr>]\<rparr>"

definition demo_world :: "(keyspace, pgsim) world" where
  "demo_world = \<lparr>w_redis = ks_empty 0, w_db = \<lparr>pg_db = demo_db, pg_supply = 1, pg_plan = []\<rparr>\<rparr>"

definition demo_tape :: tape where
  "demo_tape = map Some [1, 2, 3, 4, 5, 6, 9, 8, 7, 6, 5, 4, 3, 2, 1]"

lemma demo_codec_ok: "codec_ok demo_sv"
  by (simp add: codec_ok_def demo_sv_def ascii_dec_uuid)

lemma demo_sv_simps [simp]:
  "sv_redis demo_sv = ref_exec" "sv_db demo_sv = sim_pg" "sv_ttl demo_sv = 10 * Minute"
  "0 < 10 * Minute" "sv_jwt demo_sv = ref_jwt" "sv_uuid demo_sv = dec_uuid"
  by (simp_all add: demo_sv_def Minute_def Second_def)

lemma demo_digits:
  "randomDigits pinDigits demo_tape = (Inr ''123456'', map Some [9, 8, 7, 6, 5, 4, 3, 2, 1])"
  "randomDigits connectIDDigits (map Some [9, 8, 7, 6, 5, 4, 3, 2, 1]) = (Inr ''987654321'', [])"
  by code_simp+

lemma demo_insert:
  "\<exists>d. sim_pg (InsertSession 7 8 c) (w_db demo_world) = (Inr (PgId 1), d) \<and> pg_plan d = []"
  by (simp add: demo_world_def sim_pg_def sql_insert_session_def demo_db_def db_empty_def pg_fail_def Let_def)

lemma demo_mint:
  "\<exists>tok tp w. Mint demo_sv (\<lambda>_. 0) ''j'' 7 8 demo_tape demo_world = (Inr tok, tp, w) \<and>
     tk_ConnectID tok = ''987654321'' \<and> tk_PIN tok = ''123456'' \<and> tk_SessionID tok = 1 \<and> pg_plan (w_db w) = []"
proof -
  obtain d where d: "sim_pg (InsertSession 7 8 ''987654321'') (w_db demo_world) = (Inr (PgId 1), d)" "pg_plan d = []"
    using demo_insert by blast
  obtain sig where sig: "IssueSignaling ref_jwt (sv_issuer demo_sv) 0 ''j'' (uuid_String dec_uuid 1) ''agent'' = Inr sig"
    by (simp add: IssueSignaling_def ref_jwt_def Let_def)
  let ?v = "marshal_tokenRecord (token_record demo_sv 1 7 8 ''123456'')"
  have "ref_exec [SET_NX (tokenKey ''987654321'') ?v (10 * Minute)] (w_redis demo_world) =
      (Inr [RBool True], ks_put (tokenKey ''987654321'') (RvStr ?v) (Some (10 * Minute)) (ks_empty 0))"
    by (rule ref_exec_single) (simp_all add: demo_world_def Minute_def Second_def, simp add: ks_empty_def)
  then show ?thesis
    using d sig mint_loop.simps(2) [of demo_sv "\<lambda>_. 0" "''j''" 7 8 "''123456''" 4]
    by (simp add: Mint_def demo_digits demo_digits(2) [simplified] db_call_def redis_call_def del: mint_loop.simps)
qed

lemma demo_activate [simp]:
  "pg_plan d = [] \<Longrightarrow> \<exists>rep d'. sim_pg (ActivateSession sid) d = (Inr rep, d') \<and> pg_plan d' = []"
  by (simp add: sim_pg_def sql_activate_session_def sql_update_def Let_def pg_fail_def)

lemma demo_issue:
  obtains tok where "IssueSignaling (sv_jwt demo_sv) i now jti m r = Inr tok"
  by (simp add: IssueSignaling_def ref_jwt_def Let_def)

section \<open>Any client\<close>

context redis_service
begin

lemma Redeem_loaded_token:
  assumes sv: "sv_redis sv = exec" and ok: "Redeem sv now jti c pin w = (Inr info, w')"
  shows "\<exists>t raw e w1. ks_clock (view (w_redis w)) \<le> t \<and>
    live ((view (w_redis w))\<lparr>ks_clock := t\<rparr>) (tokenKey c) = Some (RvStr raw, e) \<and>
    redeem_loaded sv now jti c pin raw w1 = (Inr info, w')"
proof -
  obtain reps w1 where g: "redis_call sv [GET (tokenKey c)] w = (Inr reps, w1)"
    using ok by (auto simp: Redeem_def split: prod.splits sum.splits)
  then obtain r1 where ex: "exec [GET (tokenKey c)] (w_redis w) = (Inr reps, r1)"
    by (auto simp: redis_call_def sv split: prod.splits)
  obtain t rep where t: "ks_clock (view (w_redis w)) \<le> t" "reps = [rep]"
    "redis_cmd_run (GET (tokenKey c)) ((view (w_redis w))\<lparr>ks_clock := t\<rparr>) = (rep, view r1)"
    using exec_single [OF ex] by metis
  obtain raw where raw: "rep = RStr raw" "redeem_loaded sv now jti c pin raw w1 = (Inr info, w')"
    using ok g t(2) by (auto simp: Redeem_def split: redis_reply.splits)
  with t have "\<exists>e. live ((view (w_redis w))\<lparr>ks_clock := t\<rparr>) (tokenKey c) = Some (RvStr raw, e)"
    by (auto split: option.splits rval.splits)
  with t(1) raw(2) show ?thesis by blast
qed

end

lemma redeem_loaded_check:
  "redeem_loaded sv now jti c pin raw w = (Inr info, w') \<Longrightarrow>
     redeem_check sv pin raw = Inr (ji_SessionID info) \<and> ji_Room info = uuid_String (sv_uuid sv) (ji_SessionID info)"
  by (auto simp: redeem_loaded_def redeem_consume_def Let_def
      split: prod.splits sum.splits list.splits redis_reply.splits if_splits)

lemma redeem_check_Inr:
  "redeem_check sv pin raw = Inr sid \<longleftrightarrow> (\<exists>rec. unmarshal_tokenRecord raw = Inr rec \<and>
     tr_PINHash rec = hashPIN sv pin \<and> uuid_Parse (sv_uuid sv) (tr_SessionID rec) = Some sid)"
  by (auto simp: redeem_check_def split: sum.splits option.splits)

section \<open>Theorems\<close>



text \<open>
  C30: nobody is let in without the PIN. Whatever the Redis client does, and whatever the database
  does, a redemption that succeeds read, at some instant after it began, a live token whose stored
  PIN hash is the hash of the PIN presented, and hands out that token's session and room.
\<close>

theorem redeem_needs_pin:
  assumes "redis_service (sv_redis sv) view" and "Redeem sv now jti c pin w = (Inr info, w')"
  shows "\<exists>t raw e rec. ks_clock (view (w_redis w)) \<le> t \<and>
    live ((view (w_redis w))\<lparr>ks_clock := t\<rparr>) (tokenKey c) = Some (RvStr raw, e) \<and>
    unmarshal_tokenRecord raw = Inr rec \<and> tr_PINHash rec = hashPIN sv pin \<and>
    uuid_Parse (sv_uuid sv) (tr_SessionID rec) = Some (ji_SessionID info) \<and>
    ji_Room info = uuid_String (sv_uuid sv) (ji_SessionID info)"
proof -
  obtain t raw e w1 where t: "ks_clock (view (w_redis w)) \<le> t"
    "live ((view (w_redis w))\<lparr>ks_clock := t\<rparr>) (tokenKey c) = Some (RvStr raw, e)"
    "redeem_loaded sv now jti c pin raw w1 = (Inr info, w')"
    using redis_service.Redeem_loaded_token [OF assms(1) refl assms(2)] by blast
  from redeem_loaded_check [OF t(3)] obtain rec where "unmarshal_tokenRecord raw = Inr rec"
    "tr_PINHash rec = hashPIN sv pin" "uuid_Parse (sv_uuid sv) (tr_SessionID rec) = Some (ji_SessionID info)"
    "ji_Room info = uuid_String (sv_uuid sv) (ji_SessionID info)"
    by (auto simp: redeem_check_Inr)
  with t(1,2) show ?thesis by blast
qed

lemma demo_redeemed:
  "\<exists>tok tp w1 info w2. Mint demo_sv (\<lambda>_. 0) ''j'' 7 8 demo_tape demo_world = (Inr tok, tp, w1) \<and>
     Redeem demo_sv (\<lambda>_. 5) ''k'' ''987654321'' ''123456'' (pass 5 w1) = (Inr info, w2)"
proof -
  obtain tok tp w1 where m: "Mint demo_sv (\<lambda>_. 0) ''j'' 7 8 demo_tape demo_world = (Inr tok, tp, w1)" "pg_plan (w_db w1) = []"
    "tk_ConnectID tok = ''987654321''" "tk_PIN tok = ''123456''"
    using demo_mint by blast
  then obtain tp1 pin where "mint_loop demo_sv (\<lambda>_. 0) ''j'' 7 8 pin 5 tp1 demo_world = (Inr tok, tp, w1)"
    by (auto simp: Mint_def split: prod.splits sum.splits)
  from mint_loop_success [OF this] m
  have l: "live (w_redis w1) (tokenKey ''987654321'') = Some (RvStr (marshal_tokenRecord (token_record demo_sv (tk_SessionID tok) 7 8 ''123456'')),
      Some (ks_clock (w_redis w1) + 10 * Minute))" "live (w_redis w1) (attemptsKey ''987654321'') = None"
    by (auto simp: demo_world_def)
  have tok: "live (w_redis (pass 5 w1)) (tokenKey ''987654321'') = Some (RvStr (marshal_tokenRecord (token_record demo_sv (tk_SessionID tok) 7 8 ''123456'')),
      Some (ks_clock (w_redis w1) + 10 * Minute))"
    using live_later_Some [OF l(1), of 5] by (simp add: pass_def Minute_def Second_def)
  have att: "live (w_redis (pass 5 w1)) (attemptsKey ''987654321'') = None"
    using l(2) live_later_cases [of 5 "w_redis w1" "attemptsKey ''987654321''"] by (simp add: pass_def)
  obtain rep d' where db: "sv_db demo_sv (ActivateSession (tk_SessionID tok)) (w_db (pass 5 w1)) = (Inr rep, d')"
    using demo_activate [OF m(2), of "tk_SessionID tok"] by (auto simp: pass_def)
  obtain sig where sig: "IssueSignaling (sv_jwt demo_sv) (sv_issuer demo_sv) 5 ''k''
      (uuid_String (sv_uuid demo_sv) (tk_SessionID tok)) ''phone'' = Inr sig"
    by (rule demo_issue)
  from loaded_succeeds [where now = "\<lambda>_. 5", OF _ _ demo_codec_ok _ _ db sig, of "''987654321''" "''123456''" 7 8] att m(1)
  show ?thesis by (auto simp: Redeem_def get_hit [OF _ tok])
qed

theorem redeem_needs_pin_witness:
  "\<exists>tok tp w1 info w2 t raw e rec. Mint demo_sv (\<lambda>_. 0) ''j'' 7 8 demo_tape demo_world = (Inr tok, tp, w1) \<and>
     Redeem demo_sv (\<lambda>_. 5) ''k'' ''987654321'' ''123456'' (pass 5 w1) = (Inr info, w2) \<and>
     live ((id (w_redis (pass 5 w1)))\<lparr>ks_clock := t\<rparr>) (tokenKey ''987654321'') = Some (RvStr raw, e) \<and>
     unmarshal_tokenRecord raw = Inr rec \<and> tr_PINHash rec = hashPIN demo_sv ''123456''"
proof -
  obtain tok tp w1 info w2 where m: "Mint demo_sv (\<lambda>_. 0) ''j'' 7 8 demo_tape demo_world = (Inr tok, tp, w1)"
    and r: "Redeem demo_sv (\<lambda>_. 5) ''k'' ''987654321'' ''123456'' (pass 5 w1) = (Inr info, w2)"
    using demo_redeemed by blast
  have "redis_service (sv_redis demo_sv) id" using ref.redis_service_axioms by simp
  from redeem_needs_pin [OF this r] m r show ?thesis by blast
qed


definition demo_token_world :: "(keyspace, pgsim) world" where
  "demo_token_world = demo_world\<lparr>w_redis := ks_put (tokenKey ''9'')
     (RvStr (marshal_tokenRecord (token_record demo_sv 1 7 8 ''123456''))) (Some (10 * Minute)) (ks_empty 0)\<rparr>"

lemma demo_token_live:
  "live (w_redis demo_token_world) (tokenKey ''9'') =
     Some (RvStr (marshal_tokenRecord (token_record demo_sv 1 7 8 ''123456'')), Some (10 * Minute))"
  "live (w_redis demo_token_world) (attemptsKey c) = None" "ks_clock (w_redis demo_token_world) = 0"
  "pg_plan (w_db demo_token_world) = []"
  by (simp_all add: demo_token_world_def demo_world_def Minute_def Second_def)
     (simp_all add: ks_empty_def)

lemma demo_wrong:
  "redeem_check demo_sv ''000000'' (marshal_tokenRecord (token_record demo_sv 1 7 8 ''123456'')) = Inl (Sentinel ErrInvalidToken)"
  using redeem_check_own [OF demo_codec_ok] by (simp add: hashPIN_def demo_sv_def hex_EncodeToString_def hex_digits_def)


section \<open>Overlapping requests\<close>

text \<open>Requests that have all read the record \<open>raw\<close> and now finish one after the other.\<close>

fun loaded_seq ::
  "('r, 'd) Service \<Rightarrow> string \<Rightarrow> string \<Rightarrow> (clock \<times> string \<times> string) list \<Rightarrow> ('r, 'd) world \<Rightarrow> ('r, 'd) world" where
  "loaded_seq sv c raw [] w = w"
| "loaded_seq sv c raw ((now, jti, pin) # gs) w =
     loaded_seq sv c raw gs (snd (redeem_loaded sv now jti c pin raw w))"

lemma loaded_wrong:
  assumes sv: "sv_redis sv = ref_exec" "0 < sv_ttl sv"
    and key: "key_ok (w_redis w) (attemptsKey c)" "key_count (w_redis w) (attemptsKey c) < 5"
    and wrong: "redeem_check sv pin raw = Inl err"
  obtains w' where "redeem_loaded sv now jti c pin raw w = (Inl err, w')" "w_db w' = w_db w"
    "key_ok (w_redis w') (attemptsKey c)"
    "key_count (w_redis w') (attemptsKey c) = Suc (key_count (w_redis w) (attemptsKey c))"
proof -
  let ?n = "key_count (w_redis w) (attemptsKey c)"
  have lt: "int ?n < max_int64" using key(2) by (simp add: max_int64_def)
  obtain w2 where w2: "redeem_loaded sv now jti c pin raw w =
      (if maxRedeemTries < int ?n + 1 then (Inl (Sentinel ErrTooManyAttempts), invalidate sv c w2)
       else case redeem_check sv pin raw of Inl e \<Rightarrow> (Inl e, w2) | Inr sid \<Rightarrow> redeem_consume sv now jti c sid w2)"
    "w_db w2 = w_db w" "live (w_redis w2) (attemptsKey c) = Some (RvStr (Itoa (int ?n + 1)),
       if int ?n + 1 = 1 then Some (ks_clock (w_redis w) + expire_secs (sv_ttl sv))
       else key_expiry (w_redis w) (attemptsKey c))"
    by (rule redeem_loaded_ref [OF sv key(1) lt, of now jti pin raw])
  have "key_ok (w_redis w2) (attemptsKey c)" "key_count (w_redis w2) (attemptsKey c) = Suc ?n"
    using key_stored [OF w2(3)] lt by simp_all
  moreover have "redeem_loaded sv now jti c pin raw w = (Inl err, w2)"
    using key(2) by (simp add: w2(1) wrong maxRedeemTries_def)
  ultimately show thesis using w2(2) that by blast
qed

lemma loaded_over:
  assumes sv: "sv_redis sv = ref_exec" "0 < sv_ttl sv"
    and key: "key_ok (w_redis w) (attemptsKey c)" "key_count (w_redis w) (attemptsKey c) = 5"
  obtains w' where "redeem_loaded sv now jti c pin raw w = (Inl (Sentinel ErrTooManyAttempts), w')"
    "w_db w' = w_db w" "live (w_redis w') (attemptsKey c) = None" "live (w_redis w') (tokenKey c) = None"
proof -
  obtain w2 where "redeem_loaded sv now jti c pin raw w = (Inl (Sentinel ErrTooManyAttempts), invalidate sv c w2)"
    "w_db w2 = w_db w"
    using redeem_loaded_ref [OF sv key(1), of now jti pin raw] key(2)
    by (auto simp: max_int64_def maxRedeemTries_def)
  then show thesis using that [of "invalidate sv c w2"] by (simp add: invalidate_live [OF sv(1)])
qed

lemma loaded_seq_wrong:
  assumes sv: "sv_redis sv = ref_exec" "0 < sv_ttl sv"
    and "key_ok (w_redis w) (attemptsKey c)" and "key_count (w_redis w) (attemptsKey c) + length gs \<le> 5"
    and "\<forall>(now, jti, pin) \<in> set gs. \<exists>err. redeem_check sv pin raw = Inl err"
  shows "w_db (loaded_seq sv c raw gs w) = w_db w \<and>
    key_ok (w_redis (loaded_seq sv c raw gs w)) (attemptsKey c) \<and>
    key_count (w_redis (loaded_seq sv c raw gs w)) (attemptsKey c) = key_count (w_redis w) (attemptsKey c) + length gs"
  using assms(3-5)
proof (induction gs arbitrary: w)
  case (Cons g gs)
  obtain now jti pin where g: "g = (now, jti, pin)" by (metis surj_pair)
  obtain err where "redeem_check sv pin raw = Inl err" using Cons.prems(3) g by auto
  moreover have "key_count (w_redis w) (attemptsKey c) < 5" using Cons.prems(2) by simp
  ultimately obtain w' where "redeem_loaded sv now jti c pin raw w = (Inl err, w')" "w_db w' = w_db w"
    "key_ok (w_redis w') (attemptsKey c)"
    "key_count (w_redis w') (attemptsKey c) = Suc (key_count (w_redis w) (attemptsKey c))"
    using loaded_wrong [OF sv Cons.prems(1)] by metis
  with Cons.IH [of w'] Cons.prems(2,3) g show ?case by simp
qed simp

text \<open>
  Single use fails for requests that overlap. When a second request reads the token before the
  first one, which redeems it, has deleted it, the second is redeemed as well: both receive join
  credentials for the session.
\<close>

theorem overlapping_redeem_twice:
  fixes pin :: string and sid org agent :: uuid
  assumes "codec_ok sv" and "sv_redis sv = ref_exec" and "0 < sv_ttl sv"
  defines "raw \<equiv> marshal_tokenRecord (token_record sv sid org agent pin)"
  assumes "live (w_redis w) (tokenKey c) = Some (RvStr raw, e)" and "live (w_redis w) (attemptsKey c) = None"
    and "sv_db sv (ActivateSession sid) (w_db w) = (Inr rep1, d1)"
    and "sv_db sv (ActivateSession sid) d1 = (Inr rep2, d2)"
    and "IssueSignaling (sv_jwt sv) (sv_issuer sv) (now1 0) jti1 (uuid_String (sv_uuid sv) sid) ''phone'' = Inr tok1"
    and "IssueSignaling (sv_jwt sv) (sv_issuer sv) (now2 0) jti2 (uuid_String (sv_uuid sv) sid) ''phone'' = Inr tok2"
  shows "\<exists>w1 w2. redis_call sv [GET (tokenKey c)] w = (Inr [RStr raw], w) \<and>
    Redeem sv now1 jti1 c pin w = (Inr (join_info sv now1 sid tok1), w1) \<and>
    live (w_redis w1) (tokenKey c) = None \<and>
    redeem_loaded sv now2 jti2 c pin raw w1 = (Inr (join_info sv now2 sid tok2), w2)"
proof -
  have get: "redis_call sv [GET (tokenKey c)] w = (Inr [RStr raw], w)"
    by (rule get_hit [OF assms(2,5)])
  obtain w1 where r1: "redeem_loaded sv now1 jti1 c pin raw w = (Inr (join_info sv now1 sid tok1), w1)"
    "w_db w1 = d1" "live (w_redis w1) (tokenKey c) = None" "live (w_redis w1) (attemptsKey c) = None"
    using loaded_succeeds [where now = now1, OF assms(2,3,1) _ _ assms(7,9), of c pin org agent] assms(6)
    unfolding raw_def by auto
  have db: "sv_db sv (ActivateSession sid) (w_db w1) = (Inr rep2, d2)" using r1(2) assms(8) by simp
  obtain w2 where r2: "redeem_loaded sv now2 jti2 c pin raw w1 = (Inr (join_info sv now2 sid tok2), w2)"
    using loaded_succeeds [where now = now2, OF assms(2,3,1) _ _ db assms(10), of c pin org agent] r1(4)
    unfolding raw_def by auto
  have "Redeem sv now1 jti1 c pin w = (Inr (join_info sv now1 sid tok1), w1)"
    by (simp add: Redeem_def get r1(1))
  with get r1(3) r2 show ?thesis by blast
qed

theorem overlapping_redeem_twice_witness:
  "\<exists>tok1 tok2 w1 w2.
     Redeem demo_sv (\<lambda>_. 1) ''x'' ''9'' ''123456'' demo_token_world = (Inr (join_info demo_sv (\<lambda>_. 1) 1 tok1), w1) \<and>
     redeem_loaded demo_sv (\<lambda>_. 2) ''y'' ''9'' ''123456''
       (marshal_tokenRecord (token_record demo_sv 1 7 8 ''123456'')) w1 = (Inr (join_info demo_sv (\<lambda>_. 2) 1 tok2), w2)"
proof -
  obtain rep1 d1 where d1: "sv_db demo_sv (ActivateSession 1) (w_db demo_token_world) = (Inr rep1, d1)" "pg_plan d1 = []"
    using demo_activate [OF demo_token_live(4), of 1] by auto
  obtain rep2 d2 where d2: "sv_db demo_sv (ActivateSession 1) d1 = (Inr rep2, d2)"
    using demo_activate [OF d1(2), of 1] by auto
  obtain tok1 where t1: "IssueSignaling (sv_jwt demo_sv) (sv_issuer demo_sv) 1 ''x'' (uuid_String (sv_uuid demo_sv) 1) ''phone'' = Inr tok1"
    by (rule demo_issue)
  obtain tok2 where t2: "IssueSignaling (sv_jwt demo_sv) (sv_issuer demo_sv) 2 ''y'' (uuid_String (sv_uuid demo_sv) 1) ''phone'' = Inr tok2"
    by (rule demo_issue)
  from overlapping_redeem_twice [where ?now1.0 = "\<lambda>_. 1" and ?now2.0 = "\<lambda>_. 2",
      OF demo_codec_ok _ _ demo_token_live(1,2) d1(1) d2 t1 t2]
  show ?thesis by auto
qed

text \<open>
  The bound on guesses fails for requests that overlap. Six requests with wrong PINs that have
  read the token before the sixth of them deletes it also delete the counter; a seventh that has read
  the token too, with the right PIN, is redeemed although the limit of five had been reached.
\<close>

theorem overlapping_guesses_escape:
  fixes pin :: string and sid org agent :: uuid
  assumes "codec_ok sv" and "sv_redis sv = ref_exec" and "0 < sv_ttl sv"
  defines "raw \<equiv> marshal_tokenRecord (token_record sv sid org agent pin)"
  assumes "live (w_redis w) (attemptsKey c) = None"
    and "length gs = 5" and "\<forall>(now, jti, p) \<in> set gs. hashPIN sv p \<noteq> hashPIN sv pin"
    and "sv_db sv (ActivateSession sid) (w_db w) = (Inr rep, d)"
    and "IssueSignaling (sv_jwt sv) (sv_issuer sv) (now 0) jti (uuid_String (sv_uuid sv) sid) ''phone'' = Inr tok"
  shows "\<exists>w1 w2. redeem_loaded sv nowx jtix c pinx raw (loaded_seq sv c raw gs w) =
      (Inl (Sentinel ErrTooManyAttempts), w1) \<and>
    redeem_loaded sv now jti c pin raw w1 = (Inr (join_info sv now sid tok), w2)"
proof -
  have "\<forall>(now, jti, p) \<in> set gs. \<exists>err. redeem_check sv p raw = Inl err"
    using assms(7) by (auto simp: raw_def redeem_check_own [OF assms(1)])
  then have s: "w_db (loaded_seq sv c raw gs w) = w_db w"
    "key_ok (w_redis (loaded_seq sv c raw gs w)) (attemptsKey c)"
    "key_count (w_redis (loaded_seq sv c raw gs w)) (attemptsKey c) = 5"
    using loaded_seq_wrong [OF assms(2,3), of w c gs raw] assms(5,6) by simp_all
  obtain w1 where w1: "redeem_loaded sv nowx jtix c pinx raw (loaded_seq sv c raw gs w) =
      (Inl (Sentinel ErrTooManyAttempts), w1)" "w_db w1 = w_db w" "live (w_redis w1) (attemptsKey c) = None"
    using loaded_over [OF assms(2,3) s(2,3), of nowx jtix pinx raw] s(1) by metis
  have db: "sv_db sv (ActivateSession sid) (w_db w1) = (Inr rep, d)" using w1(2) assms(8) by simp
  from loaded_succeeds [where now = now, OF assms(2,3,1) _ _ db assms(9), of c pin org agent] w1(1,3)
  show ?thesis unfolding raw_def by auto
qed

theorem overlapping_guesses_escape_witness:
  "\<exists>w1 tok w2.
     redeem_loaded demo_sv (\<lambda>_. 0) ''j'' ''9'' ''000000'' (marshal_tokenRecord (token_record demo_sv 1 7 8 ''123456''))
       (loaded_seq demo_sv ''9'' (marshal_tokenRecord (token_record demo_sv 1 7 8 ''123456''))
         (replicate 5 (\<lambda>_. 0, ''j'', ''000000'')) demo_token_world) = (Inl (Sentinel ErrTooManyAttempts), w1) \<and>
     redeem_loaded demo_sv (\<lambda>_. 1) ''k'' ''9'' ''123456'' (marshal_tokenRecord (token_record demo_sv 1 7 8 ''123456'')) w1
       = (Inr (join_info demo_sv (\<lambda>_. 1) 1 tok), w2)"
proof -
  obtain rep d where db: "sv_db demo_sv (ActivateSession 1) (w_db demo_token_world) = (Inr rep, d)"
    using demo_activate [OF demo_token_live(4), of 1] by auto
  obtain tok where iss: "IssueSignaling (sv_jwt demo_sv) (sv_issuer demo_sv) 1 ''k'' (uuid_String (sv_uuid demo_sv) 1) ''phone'' = Inr tok"
    by (rule demo_issue)
  have "\<forall>(now, jti, p) \<in> set (replicate 5 (\<lambda>_. 0 :: time, ''j'', ''000000'')). hashPIN demo_sv p \<noteq> hashPIN demo_sv ''123456''"
    by (simp add: hashPIN_def demo_sv_def hex_EncodeToString_def hex_digits_def)
  from overlapping_guesses_escape [where now = "\<lambda>_. 1", OF demo_codec_ok _ _ demo_token_live(2) _ this db iss,
      where c = "''9''" and nowx = "\<lambda>_. 0" and jtix = "''j''" and pinx = "''000000''" and org = 7 and agent = 8]
  show ?thesis by auto
qed

end
