(* ===== verification/Hub.thy ===== *)
theory Hub
  imports Presence
begin

text \<open>
  The hub of one backend instance (\<open>signaling/hub.go\<close>) with the in-process fanout
  (\<open>signaling/fanout.go\<close>: \<open>LocalFanout\<close>). Peers are objects shared between the hub
  and the pumps, so they live in a store indexed by their id, and the room table holds
  ids. Each operation is written as the composition of the sections it runs under the
  hub's lock, under the presence's lock and under a peer's lock; the connection machine
  of \<open>Signaling_System\<close> interleaves exactly these sections. A log of the calls of
  \<open>Send\<close> (sender, receiver, frame, result) and of the room-ended callback records what
  an observer sees.
\<close>

record envelope =
  env_type :: string
  env_from :: role
  env_payload :: string

record 's presence_ops =
  op_Join :: "room \<Rightarrow> role \<Rightarrow> 's \<Rightarrow> role list \<times> 's"
  op_Leave :: "room \<Rightarrow> role \<Rightarrow> 's \<Rightarrow> bool \<times> 's"

type_synonym send_log = "(string \<times> string \<times> frame \<times> bool) list"

record 's hub =
  h_rooms :: "(room, (role, string) gomap) gomap"
  h_presence :: 's
  h_onRoomEnded :: bool
  h_peers :: "string \<Rightarrow> wsPeer option"
  h_sent :: send_log
  h_ended :: "room list"

definition NewHubWith :: "'s \<Rightarrow> 's hub" where
  "NewHubWith s = \<lparr>h_rooms = [], h_presence = s, h_onRoomEnded = False,
     h_peers = Map.empty, h_sent = [], h_ended = []\<rparr>"

definition NewHub :: "LocalPresence hub" where
  "NewHub = NewHubWith NewLocalPresence"

definition OnRoomEnded :: "'s hub \<Rightarrow> 's hub" where
  "OnRoomEnded h = h\<lparr>h_onRoomEnded := True\<rparr>"

text \<open>\<open>p.Send(frame)\<close> on the peer object with id \<open>q\<close>, called on behalf of \<open>p\<close>.\<close>

definition hub_Send :: "string \<Rightarrow> string \<Rightarrow> frame \<Rightarrow> 's hub \<Rightarrow> 's hub go" where
  "hub_Send p q f h =
     (case h_peers h q of
        None \<Rightarrow> Panic ''nil pointer dereference''
      | Some peer \<Rightarrow>
          (case Send f peer of
             Panic e \<Rightarrow> Panic e
           | Return (b, peer') \<Rightarrow>
               Return (h\<lparr>h_peers := (h_peers h)(q \<mapsto> peer'), h_sent := h_sent h @ [(p, q, f, b)]\<rparr>)))"

section \<open>The sections of Join and Leave\<close>

definition hub_register :: "room \<Rightarrow> role \<Rightarrow> string \<Rightarrow> 's hub \<Rightarrow> 's hub" where
  "hub_register m r p h =
     (let rooms = (if map_of (h_rooms h) m = None then map_set m [] (h_rooms h) else h_rooms h)
      in h\<lparr>h_rooms := map_set m (map_set r p (map_get [] rooms m)) rooms\<rparr>)"

definition hub_unregister :: "room \<Rightarrow> role \<Rightarrow> string \<Rightarrow> 's hub \<Rightarrow> 's hub" where
  "hub_unregister m r p h =
     (case map_of (h_rooms h) m of
        None \<Rightarrow> h
      | Some peers \<Rightarrow>
          (let peers' = (case map_of peers r of
                 None \<Rightarrow> peers
               | Some cur \<Rightarrow> if cur = p then map_del r peers else peers)
           in if peers' = [] then h\<lparr>h_rooms := map_del m (h_rooms h)\<rparr>
              else h\<lparr>h_rooms := map_set m peers' (h_rooms h)\<rparr>))"

definition hub_presence_join ::
  "'s presence_ops \<Rightarrow> room \<Rightarrow> role \<Rightarrow> 's hub \<Rightarrow> bool \<times> 's hub" where
  "hub_presence_join ops m r h =
     (let (others, s) = op_Join ops m r (h_presence h)
      in (list_ex (\<lambda>other. other = opposite r) others, h\<lparr>h_presence := s\<rparr>))"

definition hub_presence_leave ::
  "'s presence_ops \<Rightarrow> room \<Rightarrow> role \<Rightarrow> 's hub \<Rightarrow> 's hub" where
  "hub_presence_leave ops m r h =
     (let (empty, s) = op_Leave ops m r (h_presence h)
      in h\<lparr>h_presence := s,
           h_ended := h_ended h @ (if empty \<and> h_onRoomEnded h then [m] else [])\<rparr>)"

text \<open>\<open>deliverLocal\<close>: the lookup under the read lock, then \<open>Send\<close> on the peer found.\<close>

definition hub_lookup :: "room \<Rightarrow> role \<Rightarrow> 's hub \<Rightarrow> string option" where
  "hub_lookup m r h = map_of (map_get [] (h_rooms h) m) r"

definition deliverLocal :: "string \<Rightarrow> room \<Rightarrow> role \<Rightarrow> frame \<Rightarrow> 's hub \<Rightarrow> 's hub go" where
  "deliverLocal p m r f h =
     (case hub_lookup m r h of None \<Rightarrow> Return h | Some q \<Rightarrow> hub_Send p q f h)"

text \<open>\<open>LocalFanout\<close> holds the callback installed by \<open>Start\<close>; before that it drops frames.\<close>

type_synonym 's deliver = "string \<Rightarrow> room \<Rightarrow> role \<Rightarrow> frame \<Rightarrow> 's hub \<Rightarrow> 's hub go"

record 's LocalFanout =
  lf_deliver :: "'s deliver option"

definition NewLocalFanout :: "'s LocalFanout" where
  "NewLocalFanout = \<lparr>lf_deliver = None\<rparr>"

definition LocalFanout_Start :: "'s deliver \<Rightarrow> 's LocalFanout \<Rightarrow> 's LocalFanout" where
  "LocalFanout_Start d f = f\<lparr>lf_deliver := Some d\<rparr>"

definition LocalFanout_Publish :: "'s LocalFanout \<Rightarrow> 's deliver" where
  "LocalFanout_Publish lf p m r f h =
     (case lf_deliver lf of None \<Rightarrow> Return h | Some d \<Rightarrow> d p m r f h)"

abbreviation hub_Publish :: "'s deliver" where
  "hub_Publish \<equiv> LocalFanout_Publish (LocalFanout_Start deliverLocal NewLocalFanout)"

definition ready_envelope :: envelope where
  "ready_envelope = \<lparr>env_type = ''peer-ready'', env_from = '''', env_payload = ''''\<rparr>"

definition bye_envelope :: "role \<Rightarrow> envelope" where
  "bye_envelope r = \<lparr>env_type = ''bye'', env_from = r, env_payload = ''''\<rparr>"

section \<open>The operations\<close>

definition Hub_Join ::
  "'s presence_ops \<Rightarrow> (envelope \<Rightarrow> frame) \<Rightarrow> room \<Rightarrow> role \<Rightarrow> string \<Rightarrow> 's hub \<Rightarrow> 's hub go" where
  "Hub_Join ops marshal m r p h =
     (let (present, h1) = hub_presence_join ops m r (hub_register m r p h);
          ready = marshal ready_envelope
      in if \<not> present then Return h1
         else case hub_Send p p ready h1 of
           Panic e \<Rightarrow> Panic e
         | Return h2 \<Rightarrow> hub_Publish p m (opposite r) ready h2)"

definition Hub_Leave ::
  "'s presence_ops \<Rightarrow> room \<Rightarrow> role \<Rightarrow> string \<Rightarrow> 's hub \<Rightarrow> 's hub" where
  "Hub_Leave ops m r p h = hub_presence_leave ops m r (hub_unregister m r p h)"

definition Hub_Relay :: "room \<Rightarrow> role \<Rightarrow> string \<Rightarrow> frame \<Rightarrow> 's hub \<Rightarrow> 's hub go" where
  "Hub_Relay m r p f h = hub_Publish p m (opposite r) f h"

definition RoomCount :: "'s hub \<Rightarrow> nat" where
  "RoomCount h = length (h_rooms h)"

section \<open>Facts about the sections\<close>

lemma hub_Publish_eq [simp]: "hub_Publish p m r f h = deliverLocal p m r f h"
  by (simp add: LocalFanout_Publish_def LocalFanout_Start_def)

lemma hub_lookup_register [simp]:
  "hub_lookup m' r' (hub_register m r p h) =
     (if m' = m \<and> r' = r then Some p else hub_lookup m' r' h)"
  by (simp add: hub_lookup_def hub_register_def Let_def map_get_def)

lemma hub_lookup_unregister [simp]:
  "hub_lookup m' r' (hub_unregister m r p h) =
     (if m' = m \<and> r' = r \<and> hub_lookup m r h = Some p then None else hub_lookup m' r' h)"
proof (cases "map_of (h_rooms h) m")
  case None
  then show ?thesis by (auto simp: hub_lookup_def hub_unregister_def map_get_def)
next
  case (Some peers)
  show ?thesis
  proof (cases "map_of peers r = Some p")
    case True
    with Some show ?thesis
      by (auto simp: hub_lookup_def hub_unregister_def map_get_def Let_def map_del_Nil_lookup)
  next
    case False
    with Some show ?thesis
      by (auto simp: hub_lookup_def hub_unregister_def map_get_def Let_def split: option.splits)
  qed
qed

lemma hub_lookup_frame [simp]:
  "hub_lookup m r (h\<lparr>h_presence := s\<rparr>) = hub_lookup m r h"
  "hub_lookup m r (h\<lparr>h_peers := ps\<rparr>) = hub_lookup m r h"
  "hub_lookup m r (h\<lparr>h_sent := l\<rparr>) = hub_lookup m r h"
  "hub_lookup m r (h\<lparr>h_ended := en\<rparr>) = hub_lookup m r h"
  by (simp_all add: hub_lookup_def)

text \<open>The room table: one entry per key, no empty room.\<close>

definition rooms_ok :: "'s hub \<Rightarrow> bool" where
  "rooms_ok h \<longleftrightarrow> wf_map (h_rooms h) \<and>
     (\<forall>m ps. map_of (h_rooms h) m = Some ps \<longrightarrow> wf_map ps \<and> ps \<noteq> [])"

lemma rooms_ok_register: "rooms_ok h \<Longrightarrow> rooms_ok (hub_register m r p h)"
  by (auto simp: rooms_ok_def hub_register_def Let_def map_get_def split: option.splits)

lemma rooms_ok_unregister: "rooms_ok h \<Longrightarrow> rooms_ok (hub_unregister m r p h)"
  by (auto simp: rooms_ok_def hub_unregister_def Let_def split: option.splits)

end
