(* ===== verification/Admission.thy ===== *)
theory Admission
  imports Session_Redeem Signaling_System
begin

text \<open>
  Who gets into a room: the guards of \<open>ServeWS\<close> (\<open>signaling/handlers.go\<close>) before the upgrade,
  with the authorizer that \<open>run\<close> configures (\<open>signalingAuth\<close>), and their composition with the
  services that hand out signaling tokens (\<open>Mint\<close>, \<open>Redeem\<close>) and with the connection machine of
  \<open>Signaling_System\<close>. The upgrade itself belongs to \<open>gorilla/websocket\<close>: an admitted request may
  still fail there, in which case no connection is added.
\<close>

section \<open>The guards\<close>

definition signalingTokenHeader :: string where
  "signalingTokenHeader = ''X-Signaling-Token''"

definition presented_token :: "request \<Rightarrow> string" where
  "presented_token r = (let token = Header_Get r signalingTokenHeader
     in if token = '''' then Query_Get r ''token'' else token)"

text \<open>A nil authorizer disables the check.\<close>

type_synonym Authorizer = "room \<Rightarrow> role \<Rightarrow> string \<Rightarrow> unit res"

definition ServeWS_admit :: "uuid_pkg \<Rightarrow> Authorizer option \<Rightarrow> request \<Rightarrow> response + room \<times> role" where
  "ServeWS_admit up auth r =
     (let room = Query_Get r ''room'' in
      case uuid_Parse up room of
        None \<Rightarrow> Inl (http_Error ''invalid room'' StatusBadRequest)
      | Some _ \<Rightarrow>
          let role = Query_Get r ''role'' in
          if role \<noteq> RoleAgent \<and> role \<noteq> RolePhone
          then Inl (http_Error ''role must be agent or phone'' StatusBadRequest)
          else let token = presented_token r in
            case auth of
              None \<Rightarrow> Inr (room, role)
            | Some authorize \<Rightarrow>
                (case authorize room role token of
                   Inl e \<Rightarrow> Inl (http_Error ''unauthorized'' StatusUnauthorized)
                 | Inr _ \<Rightarrow> Inr (room, role)))"

lemma ServeWS_admit_iff:
  "ServeWS_admit up auth r = Inr (m, \<rho>) \<longleftrightarrow>
     Query_Get r ''room'' = m \<and> Query_Get r ''role'' = \<rho> \<and> uuid_Parse up m \<noteq> None \<and> \<rho> \<in> {RoleAgent, RolePhone} \<and>
     (\<forall>authorize. auth = Some authorize \<longrightarrow> authorize m \<rho> (presented_token r) = Inr ())"
  by (auto simp: ServeWS_admit_def Let_def split: option.split sum.split)

lemma ServeWS_admit_error:
  "ServeWS_admit up auth r = Inl resp \<Longrightarrow> rs_status resp \<in> {StatusBadRequest, StatusUnauthorized}"
  by (auto simp: ServeWS_admit_def Let_def split: option.splits sum.splits if_splits)

section \<open>Tokens and the rooms they open\<close>

lemma signalingAuth_sound:
  assumes "jwt_library jp issued" and "signalingAuth jp i now m \<rho> tok = Inr ()"
  shows "\<exists>pl sc. issued (is_secret i) tok pl \<and> SignalingClaims_of pl = Inr sc \<and>
    sc_Kind sc = KindSignaling \<and> sc_Room sc = m \<and> sc_Role sc = \<rho>"
proof -
  from assms(2) obtain pl sc where p: "jwt_Parse jp now (keyfunc i) tok = Inr pl" "SignalingClaims_of pl = Inr sc"
    "sc_Kind sc = KindSignaling" "sc_Room sc = m" "sc_Role sc = \<rho>"
    by (auto simp: signalingAuth_def ParseSignaling_def split: sum.splits if_splits)
  then show ?thesis using jwt_library.parse_sound [OF assms(1) p(1)] by auto
qed

lemma token_admits:
  assumes "jwt_library jp issued" and "uuid_codec up" and "\<rho>' \<in> {RoleAgent, RolePhone}"
    and "IssueSignaling jp i t jti (uuid_String up sid) \<rho>' = Inr tok" and "presented_token r = tok"
  shows "ServeWS_admit up (Some (signalingAuth jp i now)) r = Inr (m, \<rho>) \<longleftrightarrow>
    Query_Get r ''room'' = m \<and> Query_Get r ''role'' = \<rho> \<and> m = uuid_String up sid \<and> \<rho> = \<rho>' \<and>
    now < jwt_NewNumericDate jp (t + is_signalingTTL i)"
  using assms(2,3,5) signaling_token_exact [OF assms(1,4)] by (auto simp: ServeWS_admit_iff)

lemma Redeem_token:
  assumes "Redeem sv now jti c pin w = (Inr ji, w')"
  shows "IssueSignaling (sv_jwt sv) (sv_issuer sv) (now 0) jti (uuid_String (sv_uuid sv) (ji_SessionID ji)) RolePhone =
    Inr (ji_SignalingToken ji)"
  using assms by (auto simp: Redeem_def redeem_loaded_def redeem_consume_def Let_def RolePhone_def
    split: sum.splits prod.splits list.splits redis_reply.splits if_splits)

lemma mint_loop_token:
  assumes "mint_loop sv now jti org agent pin n tp w = (Inr tk, tp', w')"
  shows "IssueSignaling (sv_jwt sv) (sv_issuer sv) (now 1) jti (uuid_String (sv_uuid sv) (tk_SessionID tk)) RoleAgent =
    Inr (tk_SignalingToken tk)"
  using assms by (induction sv now jti org agent pin n tp w rule: mint_loop.induct)
    (auto simp: RoleAgent_def split: sum.splits prod.splits list.splits redis_reply.splits pg_reply.splits if_splits)

text \<open>
  C1: a signaling token opens exactly one door. The token that \<open>Mint\<close> returns is let in by
  \<open>ServeWS\<close> as the agent of the minted session's room and as nothing else, the one that
  \<open>Redeem\<close> returns as the phone of the redeemed session's room and as nothing else, both until
  the token expires; every other request that presents them is refused with 400 or 401.
\<close>

theorem issued_token_joins:
  assumes "jwt_library (sv_jwt sv) issued" and "uuid_codec (sv_uuid sv)"
    and "Mint sv now jti org agent tp w = (Inr tk, tp', w1)"
    and "Redeem sv now' jti' c pin w2 = (Inr ji, w3)"
  shows "(presented_token r = tk_SignalingToken tk \<longrightarrow>
      (ServeWS_admit (sv_uuid sv) (Some (signalingAuth (sv_jwt sv) (sv_issuer sv) t)) r = Inr (m, \<rho>) \<longleftrightarrow>
        Query_Get r ''room'' = m \<and> Query_Get r ''role'' = \<rho> \<and>
        m = uuid_String (sv_uuid sv) (tk_SessionID tk) \<and> \<rho> = RoleAgent \<and>
        t < jwt_NewNumericDate (sv_jwt sv) (now 1 + is_signalingTTL (sv_issuer sv)))) \<and>
    (presented_token r = ji_SignalingToken ji \<longrightarrow>
      (ServeWS_admit (sv_uuid sv) (Some (signalingAuth (sv_jwt sv) (sv_issuer sv) t)) r = Inr (m, \<rho>) \<longleftrightarrow>
        Query_Get r ''room'' = m \<and> Query_Get r ''role'' = \<rho> \<and>
        m = uuid_String (sv_uuid sv) (ji_SessionID ji) \<and> \<rho> = RolePhone \<and>
        t < jwt_NewNumericDate (sv_jwt sv) (now' 0 + is_signalingTTL (sv_issuer sv)))) \<and>
    (case ServeWS_admit (sv_uuid sv) (Some (signalingAuth (sv_jwt sv) (sv_issuer sv) t)) r of
       Inl resp \<Rightarrow> rs_status resp \<in> {StatusBadRequest, StatusUnauthorized} | Inr _ \<Rightarrow> True)"
proof -
  obtain tp1 pin' where "mint_loop sv now jti org agent pin' 5 tp1 w = (Inr tk, tp', w1)"
    using assms(3) by (auto simp: Mint_def split: prod.splits sum.splits)
  note mint = mint_loop_token [OF this] and redeem = Redeem_token [OF assms(4)]
  show ?thesis
    using token_admits [OF assms(1,2) _ mint, of r t m \<rho>] token_admits [OF assms(1,2) _ redeem, of r t m \<rho>]
      ServeWS_admit_error by (auto split: sum.split)
qed

definition demo_ws :: "string \<Rightarrow> string \<Rightarrow> string \<Rightarrow> request" where
  "demo_ws room role token = \<lparr>rq_method = ''GET'', rq_path = ''/v1/signaling'',
     rq_query = [(''room'', room), (''role'', role)], rq_header = [(''X-Signaling-Token'', token)],
     rq_pathvals = [], rq_RemoteAddr = '''', rq_principal = None\<rparr>"

lemma demo_ws_simps [simp]:
  "Query_Get (demo_ws room role token) ''room'' = room" "Query_Get (demo_ws room role token) ''role'' = role"
  "token \<noteq> '''' \<Longrightarrow> presented_token (demo_ws room role token) = token"
  by (simp_all add: demo_ws_def Query_Get_def Header_Get_def map_get_def presented_token_def signalingTokenHeader_def Let_def)

theorem issued_token_joins_witness:
  "\<exists>tk tp w1 ji w2. Mint demo_sv (\<lambda>_. 0) ''j'' 7 8 demo_tape demo_world = (Inr tk, tp, w1) \<and>
     Redeem demo_sv (\<lambda>_. 5) ''k'' ''987654321'' ''123456'' (pass 5 w1) = (Inr ji, w2) \<and>
     ServeWS_admit dec_uuid (Some (signalingAuth ref_jwt (sv_issuer demo_sv) 9))
       (demo_ws (nat_dec (unat (ji_SessionID ji))) RolePhone (ji_SignalingToken ji)) = Inr (nat_dec (unat (ji_SessionID ji)), RolePhone)"
proof -
  obtain tk tp w1 ji w2 where m: "Mint demo_sv (\<lambda>_. 0) ''j'' 7 8 demo_tape demo_world = (Inr tk, tp, w1)"
    and r: "Redeem demo_sv (\<lambda>_. 5) ''k'' ''987654321'' ''123456'' (pass 5 w1) = (Inr ji, w2)"
    using demo_redeemed by blast
  have ne: "ji_SignalingToken ji \<noteq> ''''"
    using Redeem_token [OF r] by (auto simp: IssueSignaling_def ref_jwt_def Let_def)
  have t: "9 < jwt_NewNumericDate ref_jwt (5 + is_signalingTTL (sv_issuer demo_sv))"
    by (simp add: ref_jwt_def demo_sv_def NewIssuer_def Hour_def Minute_def Second_def)
  have j: "jwt_library (sv_jwt demo_sv) ref_issued" "uuid_codec (sv_uuid demo_sv)"
    by (simp_all add: refjwt.jwt_library_axioms)
  show ?thesis
    using issued_token_joins [OF j m r, where t = 9 and m = "nat_dec (unat (ji_SessionID ji))" and \<rho> = RolePhone and
        r = "demo_ws (nat_dec (unat (ji_SessionID ji))) RolePhone (ji_SignalingToken ji)"] m r ne t
    by (auto simp: dec_uuid_def)
qed

section \<open>Every connection was let in\<close>

text \<open>The connection machine, with new connections coming from admitted requests only.\<close>

inductive adm_reach ::
  "'s presence_ops \<Rightarrow> codec \<Rightarrow> uuid_pkg \<Rightarrow> (time \<Rightarrow> Authorizer) \<Rightarrow> 's \<Rightarrow> 's sys \<Rightarrow> bool"
  for ops :: "'s presence_ops" and cd :: codec and up :: uuid_pkg and auth :: "time \<Rightarrow> Authorizer" and s0 :: 's where
  adm_start: "adm_reach ops cd up auth s0 (sys_start s0)"
| adm_step: "adm_reach ops cd up auth s0 t"
    if "adm_reach ops cd up auth s0 s" and "sys_step ops cd s t"
      and "\<And>p c. sy_conn s p = None \<Longrightarrow> sy_conn t p = Some c \<Longrightarrow>
        \<exists>now r. ServeWS_admit up (Some (auth now)) r = Inr (cn_room c, cn_role c)"

lemma sys_step_conn:
  assumes "sys_step ops cd s t" and "sy_conn t p = Some c'" and "sy_conn s p = Some c"
  shows "cn_room c' = cn_room c \<and> cn_role c' = cn_role c"
  using assms by cases (auto split: if_splits)

lemma adm_reach_admitted:
  assumes "adm_reach ops cd up auth s0 s" and "sy_conn s p = Some c"
  shows "\<exists>now r. ServeWS_admit up (Some (auth now)) r = Inr (cn_room c, cn_role c)"
  using assms
proof (induction arbitrary: c rule: adm_reach.induct)
  case (adm_step s t)
  show ?case
  proof (cases "sy_conn s p")
    case None
    then show ?thesis using adm_step.hyps(3) adm_step.prems by blast
  next
    case (Some c0)
    then show ?thesis using adm_step.IH [OF Some] sys_step_conn [OF adm_step.hyps(2) adm_step.prems Some] by simp
  qed
qed (simp add: sys_start_def)


definition demo_relay_ops :: "nat presence_ops" where
  "demo_relay_ops = \<lparr>op_Join = (\<lambda>m r n. ([], n + 1)), op_Leave = (\<lambda>m r n. (n = 1, n - 1))\<rparr>"

definition demo_relay_codec :: codec where
  "demo_relay_codec = \<lparr>marshal = env_payload, unmarshal = (\<lambda>s. None)\<rparr>"

definition demo_joined :: "nat sys" where
  "demo_joined = (let s = sys_start (0 :: nat) in
     s\<lparr>sy_hub := (sy_hub s)\<lparr>h_peers := (h_peers (sy_hub s))(''p'' \<mapsto> new_wsPeer ''p'' RoleAgent)\<rparr>,
       sy_conn := (sy_conn s)(''p'' \<mapsto> \<lparr>cn_room = ''7'', cn_role = RoleAgent, cn_pc = AtRegister, cn_saw = False\<rparr>)\<rparr>)"

lemma demo_admitted:
  obtains tok where "ServeWS_admit dec_uuid (Some (signalingAuth ref_jwt (NewIssuer ''key'' Minute Hour Hour) 5))
    (demo_ws ''7'' RoleAgent tok) = Inr (''7'', RoleAgent)"
proof -
  let ?i = "NewIssuer ''key'' Minute Hour Hour"
  obtain tok where tok: "IssueSignaling ref_jwt ?i 0 ''j'' (uuid_String dec_uuid 7) RoleAgent = Inr tok" "tok \<noteq> ''''"
    by (auto simp: IssueSignaling_def ref_jwt_def Let_def)
  have u: "uuid_String dec_uuid 7 = ''7''"
    by (simp add: dec_uuid_def nat_dec.simps digit_char_def char_of_def bit_0)
  have "5 < jwt_NewNumericDate ref_jwt (0 + is_signalingTTL ?i)"
    by (simp add: ref_jwt_def NewIssuer_def Hour_def Minute_def Second_def)
  then show thesis
    using that [of tok] token_admits [OF refjwt.jwt_library_axioms dec_uuid_codec _ tok(1), of "demo_ws ''7'' RoleAgent tok" 5 "''7''" RoleAgent] tok(2) u
    by simp
qed


end
