(* ===== verification/Password.thy ===== *)
theory Password
  imports Base64
begin

text \<open>
  Password hashes (\<open>crypto/password.go\<close>). Argon2id is not part of the repository and is a
  parameter; it panics on parameters out of range, so it yields an \<open>go\<close>.
  \<open>fmt.Sscanf\<close> is modelled for the two formats the code uses: literal text and the verb
  \<open>%d\<close> into a bounded integer. The theorems show that a stored hash is checked with exactly
  the parameters, the salt and the key that were encoded into it.
\<close>

section \<open>Scanning\<close>

text \<open>
  \<open>Scan_Int\<close> is the verb for a variable of a signed type, \<open>Scan_Uint\<close> for one of
  an unsigned type; the numbers are the bounds of the type.
\<close>

datatype fmt_item = Lit string | Scan_Int int int | Scan_Uint int

definition inline_spaces :: "string list" where
  "inline_spaces = filter (\<lambda>r. r \<noteq> [CHR 0x0A]) space_runes"

text \<open>The value of a token of digits: an error when there is none or it is out of range.\<close>

definition scan_number :: "bool \<Rightarrow> int \<Rightarrow> int \<Rightarrow> string \<Rightarrow> (int \<times> string) res" where
  "scan_number neg lo hi s =
     (let ds = takeWhile is_digit s; v = (if neg then - int (dec_nat ds) else int (dec_nat ds))
      in if ds = [] then Inl (ErrExt ''expected integer'')
         else if v < lo \<or> hi < v then Inl (ErrExt ''integer overflow on token'')
         else Inr (v, dropWhile is_digit s))"

text \<open>Leading white space is skipped, a new line is refused.\<close>

definition skip_inline :: "string \<Rightarrow> string res" where
  "skip_inline s =
     (case trim_left inline_spaces s of
        [] \<Rightarrow> Inl (ErrExt ''unexpected EOF'')
      | c # cs \<Rightarrow> if c = CHR 0x0A then Inl (ErrExt ''unexpected newline'') else Inr (c # cs))"

definition scan_int :: "int \<Rightarrow> int \<Rightarrow> string \<Rightarrow> (int \<times> string) res" where
  "scan_int lo hi s =
     (case skip_inline s of
        Inl e \<Rightarrow> Inl e
      | Inr t \<Rightarrow>
          if hd t = CHR ''-'' then scan_number True lo hi (tl t)
          else if hd t = CHR ''+'' then scan_number False lo hi (tl t)
          else scan_number False lo hi t)"

definition scan_uint :: "int \<Rightarrow> string \<Rightarrow> (int \<times> string) res" where
  "scan_uint hi s = (case skip_inline s of Inl e \<Rightarrow> Inl e | Inr t \<Rightarrow> scan_number False 0 hi t)"

text \<open>Input left over after the format has been used up is ignored.\<close>

fun Sscanf :: "fmt_item list \<Rightarrow> string \<Rightarrow> int list res" where
  "Sscanf [] s = Inr []"
| "Sscanf (Lit l # fs) s =
     (case strip_prefix l s of
        None \<Rightarrow> Inl (ErrExt ''input does not match format'')
      | Some t \<Rightarrow> Sscanf fs t)"
| "Sscanf (Scan_Int lo hi # fs) s =
     (case scan_int lo hi s of
        Inl e \<Rightarrow> Inl e
      | Inr (v, t) \<Rightarrow> (case Sscanf fs t of Inl e \<Rightarrow> Inl e | Inr vs \<Rightarrow> Inr (v # vs)))"
| "Sscanf (Scan_Uint hi # fs) s =
     (case scan_uint hi s of
        Inl e \<Rightarrow> Inl e
      | Inr (v, t) \<Rightarrow> (case Sscanf fs t of Inl e \<Rightarrow> Inl e | Inr vs \<Rightarrow> Inr (v # vs)))"

section \<open>Hashing and verifying\<close>

text \<open>\<open>argon2.IDKey\<close> of a password and a salt under time, memory, threads and key length.\<close>

type_synonym argon2 = "string \<Rightarrow> string \<Rightarrow> int \<Rightarrow> int \<Rightarrow> int \<Rightarrow> int \<Rightarrow> string go"

definition argon2_ok :: "argon2 \<Rightarrow> bool" where
  "argon2_ok idkey \<longleftrightarrow> (\<forall>pw salt t m p n. 1 \<le> t \<longrightarrow> 1 \<le> p \<longrightarrow> 1 \<le> n \<longrightarrow>
     (\<exists>k. idkey pw salt t m p n = Return k \<and> int (length k) = n))"

definition argon2_Version :: int where "argon2_Version = 19"
definition argonTime :: int where "argonTime = 1"
definition argonMemory :: int where "argonMemory = 64 * 1024"
definition argonThreads :: int where "argonThreads = 4"
definition argonKeyLen :: int where "argonKeyLen = 32"
definition saltLen :: nat where "saltLen = 16"

definition ErrMismatch :: string where
  "ErrMismatch = ''password does not match''"

text \<open>The format string of \<open>HashPassword\<close>.\<close>

definition phc_string :: "int \<Rightarrow> int \<Rightarrow> int \<Rightarrow> int \<Rightarrow> string \<Rightarrow> string \<Rightarrow> string" where
  "phc_string version m t p salt key =
     ''$argon2id$v='' @ Itoa version @ ''$m='' @ Itoa m @ '',t='' @ Itoa t @ '',p='' @ Itoa p @
     ''$'' @ salt @ ''$'' @ key"

text \<open>\<open>rnd\<close> is the go of \<open>rand.Read\<close>: the bytes of the salt or an error.\<close>

definition HashPassword :: "argon2 \<Rightarrow> string res \<Rightarrow> string \<Rightarrow> string res go" where
  "HashPassword idkey rnd password =
     (case rnd of
        Inl e \<Rightarrow> Return (Inl (ErrWrap ''generate salt'' e))
      | Inr salt \<Rightarrow>
          (case idkey password salt argonTime argonMemory argonThreads argonKeyLen of
             Panic m \<Rightarrow> Panic m
           | Return key \<Rightarrow>
               Return (Inr (phc_string argon2_Version argonMemory argonTime argonThreads
                 (raw_EncodeToString salt) (raw_EncodeToString key)))))"

definition VerifyPassword :: "argon2 \<Rightarrow> string \<Rightarrow> string \<Rightarrow> unit res go" where
  "VerifyPassword idkey password encoded =
     (let parts = Split CHR ''$'' encoded in
      if length parts \<noteq> 6 \<or> parts ! 1 \<noteq> ''argon2id'' then Return (Inl (ErrNew ''invalid hash format''))
      else case Sscanf [Lit ''v='', Scan_Int min_int64 max_int64] (parts ! 2) of
        Inl e \<Rightarrow> Return (Inl (ErrWrap ''parse version'' e))
      | Inr vs \<Rightarrow>
          if hd vs \<noteq> argon2_Version then Return (Inl (ErrNew ''incompatible argon2 version''))
          else case Sscanf [Lit ''m='', Scan_Uint (2 ^ 32 - 1), Lit '',t='', Scan_Uint (2 ^ 32 - 1),
              Lit '',p='', Scan_Uint (2 ^ 8 - 1)] (parts ! 3) of
            Inl e \<Rightarrow> Return (Inl (ErrWrap ''parse params'' e))
          | Inr ps \<Rightarrow>
              (case raw_DecodeString (parts ! 4) of
                 Inl e \<Rightarrow> Return (Inl (ErrWrap ''decode salt'' e))
               | Inr salt \<Rightarrow>
                   (case raw_DecodeString (parts ! 5) of
                      Inl e \<Rightarrow> Return (Inl (ErrWrap ''decode hash'' e))
                    | Inr want \<Rightarrow>
                        (case idkey password salt (ps ! 1) (ps ! 0) (ps ! 2) (int (length want)) of
                           Panic m \<Rightarrow> Panic m
                         | Return got \<Rightarrow>
                             if got \<noteq> want then Return (Inl (Sentinel ErrMismatch)) else Return (Inr ())))))"

section \<open>Scanning what was printed\<close>

lemma inline_spaces_not_digit: "list_all (\<lambda>r. r \<noteq> [] \<and> \<not> is_digit (hd r)) inline_spaces"
  by code_simp

lemma first_strip_digit: "list_all (\<lambda>r. r \<noteq> [] \<and> \<not> is_digit (hd r)) rs \<Longrightarrow> is_digit c \<Longrightarrow>
    first_strip rs (c # cs) = None"
  by (induction rs) (auto simp: neq_Nil_conv)

lemma skip_inline_digit: "is_digit c \<Longrightarrow> skip_inline (c # cs) = Inr (c # cs)"
  using first_strip_digit [OF inline_spaces_not_digit, of c cs]
  by (auto simp: skip_inline_def trim_left.simps [of inline_spaces] is_digit_def)

definition no_digit_first :: "string \<Rightarrow> bool" where
  "no_digit_first s = (case s of [] \<Rightarrow> True | c # _ \<Rightarrow> \<not> is_digit c)"

lemma no_digit_first_simps [simp]: "no_digit_first []" "no_digit_first (c # s) \<longleftrightarrow> \<not> is_digit c"
  by (simp_all add: no_digit_first_def)

lemma takeWhile_nat_dec: "no_digit_first s \<Longrightarrow> takeWhile is_digit (nat_dec n @ s) = nat_dec n"
  using nat_dec_digits [of n] by (cases s) (auto simp: no_digit_first_def list_all_iff)

lemma dropWhile_nat_dec: "no_digit_first s \<Longrightarrow> dropWhile is_digit (nat_dec n @ s) = s"
  using nat_dec_digits [of n] by (cases s) (auto simp: no_digit_first_def list_all_iff dropWhile_append)

lemma scan_number_Itoa:
  "0 \<le> v \<Longrightarrow> lo \<le> v \<Longrightarrow> v \<le> hi \<Longrightarrow> no_digit_first s \<Longrightarrow> scan_number False lo hi (Itoa v @ s) = Inr (v, s)"
  by (simp add: scan_number_def Itoa_def takeWhile_nat_dec dropWhile_nat_dec)

lemma skip_inline_Itoa: "0 \<le> v \<Longrightarrow> skip_inline (Itoa v @ s) = Inr (Itoa v @ s)"
  using nat_dec_Cons [of "nat v"] by (auto simp: Itoa_def skip_inline_digit)

lemma scan_uint_Itoa [simp]:
  "0 \<le> v \<Longrightarrow> v \<le> hi \<Longrightarrow> no_digit_first s \<Longrightarrow> scan_uint hi (Itoa v @ s) = Inr (v, s)"
  by (simp add: scan_uint_def skip_inline_Itoa scan_number_Itoa)

lemma scan_int_Itoa [simp]:
  assumes "0 \<le> v" "lo \<le> v" "v \<le> hi" "no_digit_first s"
  shows "scan_int lo hi (Itoa v @ s) = Inr (v, s)"
proof -
  obtain c cs where "nat_dec (nat v) = c # cs" "is_digit c" using nat_dec_Cons by blast
  with assms show ?thesis
    using is_digit_not_sign [of c] scan_number_Itoa [OF assms] skip_inline_Itoa [OF assms(1), of s]
    by (simp add: scan_int_def Itoa_def)
qed

lemmas scan_int_Itoa_Nil [simp] = scan_int_Itoa [where s = "[]", simplified]
lemmas scan_uint_Itoa_Nil [simp] = scan_uint_Itoa [where s = "[]", simplified]

lemma Itoa_no_dollar: "0 \<le> v \<Longrightarrow> CHR ''$'' \<notin> set (Itoa v)"
  using nat_dec_digits [of "nat v"] by (auto simp: Itoa_def list_all_iff is_digit_def)

lemma strip_prefix_self [simp]: "strip_prefix p (p @ s) = Some s"
  by (simp add: strip_prefix_Some)
section \<open>Verifying what was encoded\<close>

lemma Split_phc:
  assumes "0 \<le> v" "0 \<le> m" "0 \<le> t" "0 \<le> p"
  shows "Split CHR ''$'' (phc_string v m t p (raw_EncodeToString salt) (raw_EncodeToString key)) =
    ['''', ''argon2id'', ''v='' @ Itoa v, ''m='' @ Itoa m @ '',t='' @ Itoa t @ '',p='' @ Itoa p,
     raw_EncodeToString salt, raw_EncodeToString key]"
proof -
  let ?ps = "['''', ''argon2id'', ''v='' @ Itoa v, ''m='' @ Itoa m @ '',t='' @ Itoa t @ '',p='' @ Itoa p,
     raw_EncodeToString salt, raw_EncodeToString key]"
  have "\<forall>q \<in> set ?ps. CHR ''$'' \<notin> set q"
    using assms by (simp add: Itoa_no_dollar raw_no_dollar)
  moreover have "phc_string v m t p (raw_EncodeToString salt) (raw_EncodeToString key) = Join ''$'' ?ps"
    by (simp add: phc_string_def)
  ultimately show ?thesis using Split_Join [of ?ps "CHR ''$''"] by simp
qed

lemma scan_version: "Sscanf [Lit ''v='', Scan_Int min_int64 max_int64] (''v='' @ Itoa argon2_Version) = Inr [argon2_Version]"
  using strip_prefix_self [of "''v=''" "Itoa argon2_Version"]
  by (simp add: argon2_Version_def int64_bounds)

lemma scan_params:
  assumes "0 \<le> m" "m < 2 ^ 32" "0 \<le> t" "t < 2 ^ 32" "0 \<le> p" "p < 2 ^ 8"
  shows "Sscanf [Lit ''m='', Scan_Uint (2 ^ 32 - 1), Lit '',t='', Scan_Uint (2 ^ 32 - 1),
     Lit '',p='', Scan_Uint (2 ^ 8 - 1)] (''m='' @ Itoa m @ '',t='' @ Itoa t @ '',p='' @ Itoa p) = Inr [m, t, p]"
proof -
  have "scan_uint (2 ^ 8 - 1) (Itoa p) = Inr (p, '''')" using assms by simp
  moreover have "scan_uint (2 ^ 32 - 1) (Itoa t @ '',p='' @ Itoa p) = Inr (t, '',p='' @ Itoa p)"
    using assms by (intro scan_uint_Itoa) (simp_all add: is_digit_def)
  moreover have "scan_uint (2 ^ 32 - 1) (Itoa m @ '',t='' @ Itoa t @ '',p='' @ Itoa p) =
      Inr (m, '',t='' @ Itoa t @ '',p='' @ Itoa p)"
    using assms by (intro scan_uint_Itoa) (simp_all add: is_digit_def)
  ultimately show ?thesis by simp
qed

lemma VerifyPassword_phc:
  assumes "0 \<le> m" "m < 2 ^ 32" "0 \<le> t" "t < 2 ^ 32" "0 \<le> p" "p < 2 ^ 8"
  shows "VerifyPassword idkey pw (phc_string argon2_Version m t p (raw_EncodeToString salt) (raw_EncodeToString key)) =
     (case idkey pw salt t m p (int (length key)) of
        Panic e \<Rightarrow> Panic e
      | Return got \<Rightarrow> if got \<noteq> key then Return (Inl (Sentinel ErrMismatch)) else Return (Inr ()))"
proof -
  have "0 \<le> argon2_Version" by (simp add: argon2_Version_def)
  note S = Split_phc [OF this assms(1,3,5), of salt key]
  show ?thesis
    unfolding VerifyPassword_def Let_def S
    using scan_version scan_params [OF assms] by (simp add: raw_roundtrip)
qed

lemma HashPassword_Inr:
  assumes "HashPassword idkey (Inr salt) pw = Return (Inr enc)"
  obtains key where "idkey pw salt argonTime argonMemory argonThreads argonKeyLen = Return key"
    "enc = phc_string argon2_Version argonMemory argonTime argonThreads (raw_EncodeToString salt) (raw_EncodeToString key)"
  using assms by (auto simp: HashPassword_def split: go.splits)

lemma Verify_Hash:
  assumes "argon2_ok idkey" and "HashPassword idkey (Inr salt) pw = Return (Inr enc)"
  shows "VerifyPassword idkey pw' enc =
     (if idkey pw' salt argonTime argonMemory argonThreads argonKeyLen =
         idkey pw salt argonTime argonMemory argonThreads argonKeyLen
      then Return (Inr ()) else Return (Inl (Sentinel ErrMismatch)))"
proof -
  obtain key where k: "idkey pw salt argonTime argonMemory argonThreads argonKeyLen = Return key"
    and enc: "enc = phc_string argon2_Version argonMemory argonTime argonThreads (raw_EncodeToString salt) (raw_EncodeToString key)"
    using assms(2) by (rule HashPassword_Inr)
  have r: "\<exists>k. idkey q salt argonTime argonMemory argonThreads argonKeyLen = Return k \<and> int (length k) = argonKeyLen" for q
    using assms(1) [unfolded argon2_ok_def, rule_format, of argonTime argonThreads argonKeyLen]
    by (auto simp: argonTime_def argonThreads_def argonKeyLen_def)
  from r [of pw] k have "int (length key) = argonKeyLen" by auto
  moreover obtain k' where "idkey pw' salt argonTime argonMemory argonThreads argonKeyLen = Return k'" using r by blast
  ultimately show ?thesis
    unfolding enc k by (subst VerifyPassword_phc) (auto simp: argonMemory_def argonTime_def argonThreads_def)
qed

section \<open>Theorems\<close>

text \<open>
  A password verifies against its own hash and only against keys equal to its own. For every
  salt, what \<open>HashPassword\<close> returns is accepted by \<open>VerifyPassword\<close> for exactly the
  passwords that Argon2id maps, under that salt and the parameters of the package, to the same key;
  every other password gives \<open>ErrMismatch\<close>, never a format error.
\<close>

theorem hash_verify_roundtrip:
  assumes "argon2_ok idkey" and "HashPassword idkey (Inr salt) pw = Return (Inr enc)"
  shows "VerifyPassword idkey pw enc = Return (Inr ()) \<and>
    VerifyPassword idkey pw' enc =
     (if idkey pw' salt argonTime argonMemory argonThreads argonKeyLen =
         idkey pw salt argonTime argonMemory argonThreads argonKeyLen
      then Return (Inr ()) else Return (Inl (Sentinel ErrMismatch)))"
  using Verify_Hash [OF assms] by simp

text \<open>A key derivation that keeps the contract, for concrete runs.\<close>

definition toy_argon2 :: argon2 where
  "toy_argon2 pw salt t m p n =
     (if t < 1 \<or> p < 1 \<or> n < 1 then Panic ''argon2''
      else Return (take (nat n) (pw @ salt @ replicate (nat n) CHR ''x'')))"

lemma toy_argon2_ok [simp]: "argon2_ok toy_argon2"
  by (auto simp: argon2_ok_def toy_argon2_def)

theorem hash_verify_roundtrip_witness:
  "\<exists>enc. HashPassword toy_argon2 (Inr ''0123456789abcdef'') ''secret'' = Return (Inr enc) \<and>
     VerifyPassword toy_argon2 ''secret'' enc = Return (Inr ()) \<and>
     VerifyPassword toy_argon2 ''guess'' enc = Return (Inl (Sentinel ErrMismatch))"
proof -
  obtain enc where e: "HashPassword toy_argon2 (Inr ''0123456789abcdef'') ''secret'' = Return (Inr enc)"
    by (simp add: HashPassword_def toy_argon2_def argonTime_def argonThreads_def argonKeyLen_def)
  from hash_verify_roundtrip [OF toy_argon2_ok e, of "''guess''"] e show ?thesis
    by (simp add: toy_argon2_def argonTime_def argonThreads_def argonKeyLen_def numeral_eq_Suc)
qed

text \<open>
  Old hashes stay verifiable. A hash string encoded with any parameters that fit their types is
  checked with those parameters, and the key is compared at its own length, whatever the
  constants of the package are.
\<close>

theorem old_parameters_verify:
  assumes "0 \<le> m" "m < 2 ^ 32" "0 \<le> t" "t < 2 ^ 32" "0 \<le> p" "p < 2 ^ 8"
    and "idkey pw salt t m p (int (length key)) = Return got"
  shows "VerifyPassword idkey pw (phc_string argon2_Version m t p (raw_EncodeToString salt) (raw_EncodeToString key)) =
     (if got = key then Return (Inr ()) else Return (Inl (Sentinel ErrMismatch)))"
  using VerifyPassword_phc [OF assms(1-6), of idkey pw salt key] assms(7) by simp

theorem old_parameters_verify_witness:
  "VerifyPassword toy_argon2 ''ab'' (phc_string argon2_Version 4096 3 1 (raw_EncodeToString ''cd'') (raw_EncodeToString ''abc'')) = Return (Inr ())"
  using old_parameters_verify [of 4096 3 1 toy_argon2 "''ab''" "''cd''" "''abc''" "''abc''"]
  by (simp add: toy_argon2_def numeral_eq_Suc)

end
