(* ===== verification/Identity.thy ===== *)
theory Identity
  imports Auth Postgres_Service Password
begin

text \<open>
  Users and organizations (\<open>identity/service.go\<close>, \<open>identity/handlers.go\<close>,
  \<open>identity/admin_handlers.go\<close>, \<open>identity/validate.go\<close>). The database client, the
  token library, the UUID package and Argon2id are fields of the record \<open>Ident\<close>; readings
  of the clock, fresh token ids and the bytes of \<open>rand.Read\<close> are arguments. An operation that
  derives a key may panic, so its result is an \<open>go\<close>.
\<close>

section \<open>Data\<close>

definition ErrEmailTaken :: string where
  "ErrEmailTaken = ''email already registered''"

definition ErrInvalidCredentials :: string where
  "ErrInvalidCredentials = ''invalid credentials''"

definition ErrDisabled :: string where
  "ErrDisabled = ''account disabled''"

record User =
  us_ID :: uuid
  us_OrgID :: uuid
  us_Email :: string
  us_DisplayName :: string
  us_Role :: string
  us_CreatedAt :: time
  us_TokenVersion :: int

record 'd Ident =
  id_db :: "'d pg_client"
  id_argon2 :: argon2
  id_jwt :: jwt_pkg
  id_uuid :: uuid_pkg
  id_issuer :: Issuer

definition dummyHash :: string where
  "dummyHash = ''$argon2id$v=19$m=65536,t=1,p=4$AAAAAAAAAAAAAAAAAAAAAA$RdescudvJCsgt3ub+b+dWRWJTmaaJObG''"

definition normalizeEmail :: "string \<Rightarrow> string" where
  "normalizeEmail email = map ascii_lower (TrimSpace email)"

definition isUniqueViolation :: "go_error \<Rightarrow> bool" where
  "isUniqueViolation e = Contains (err_Error e) ''23505''"

text \<open>The columns a statement returns, scanned into a \<open>User\<close>.\<close>

definition scan_user :: "user_row \<Rightarrow> User" where
  "scan_user r = \<lparr>us_ID = ur_id r, us_OrgID = ur_org r, us_Email = ur_email r,
     us_DisplayName = ur_display r, us_Role = ur_role r, us_CreatedAt = ur_created r,
     us_TokenVersion = ur_version r\<rparr>"

text \<open>\<open>CreateUser\<close> and \<open>ListUsers\<close> do not scan the token version.\<close>

definition scan_profile :: "user_row \<Rightarrow> User" where
  "scan_profile r = (scan_user r)\<lparr>us_TokenVersion := 0\<rparr>"

abbreviation bad_row :: go_error where
  "bad_row \<equiv> ErrExt ''unexpected reply''"

section \<open>The service\<close>

definition insert_error :: "go_error \<Rightarrow> go_error" where
  "insert_error e = (if isUniqueViolation e then Sentinel ErrEmailTaken else e)"

definition RegisterOrg ::
  "'d Ident \<Rightarrow> string res \<Rightarrow> string \<Rightarrow> string \<Rightarrow> string \<Rightarrow> string \<Rightarrow> 'd \<Rightarrow> User res go \<times> 'd" where
  "RegisterOrg s rnd orgName email password displayName d =
     (case HashPassword (id_argon2 s) rnd password of
        Panic m \<Rightarrow> (Panic m, d)
      | Return (Inl e) \<Rightarrow> (Return (Inl e), d)
      | Return (Inr hash) \<Rightarrow>
          (case id_db s (RegisterOrgTx orgName (normalizeEmail email) hash displayName) d of
             (Inl e, d1) \<Rightarrow> (Return (Inl (insert_error e)), d1)
           | (Inr (PgUser r), d1) \<Rightarrow> (Return (Inr (scan_user r)), d1)
           | (Inr _, d1) \<Rightarrow> (Return (Inl bad_row), d1)))"

definition CreateUser ::
  "'d Ident \<Rightarrow> string res \<Rightarrow> uuid \<Rightarrow> string \<Rightarrow> string \<Rightarrow> string \<Rightarrow> string \<Rightarrow> 'd \<Rightarrow> User res go \<times> 'd" where
  "CreateUser s rnd orgID email password displayName role d =
     (let role' = (if role = '''' then ''agent'' else role)
      in case HashPassword (id_argon2 s) rnd password of
           Panic m \<Rightarrow> (Panic m, d)
         | Return (Inl e) \<Rightarrow> (Return (Inl e), d)
         | Return (Inr hash) \<Rightarrow>
             (case id_db s (InsertUser orgID (normalizeEmail email) hash displayName role') d of
                (Inl e, d1) \<Rightarrow> (Return (Inl (insert_error e)), d1)
              | (Inr (PgUser r), d1) \<Rightarrow> (Return (Inr (scan_profile r)), d1)
              | (Inr _, d1) \<Rightarrow> (Return (Inl bad_row), d1)))"

definition Authenticate :: "'d Ident \<Rightarrow> string \<Rightarrow> string \<Rightarrow> 'd \<Rightarrow> User res go \<times> 'd" where
  "Authenticate s email password d =
     (case id_db s (SelectUserByEmail (normalizeEmail email)) d of
        (Inl e, d1) \<Rightarrow> (Return (Inl e), d1)
      | (Inr PgNoRows, d1) \<Rightarrow>
          (case VerifyPassword (id_argon2 s) password dummyHash of
             Panic m \<Rightarrow> (Panic m, d1)
           | Return _ \<Rightarrow> (Return (Inl (Sentinel ErrInvalidCredentials)), d1))
      | (Inr (PgUser r), d1) \<Rightarrow>
          (case VerifyPassword (id_argon2 s) password (ur_hash r) of
             Panic m \<Rightarrow> (Panic m, d1)
           | Return (Inl e) \<Rightarrow> (Return (Inl (Sentinel ErrInvalidCredentials)), d1)
           | Return (Inr _) \<Rightarrow>
               if ur_disabled r then (Return (Inl (Sentinel ErrDisabled)), d1)
               else (Return (Inr (scan_user r)), d1))
      | (Inr _, d1) \<Rightarrow> (Return (Inl bad_row), d1))"

definition ListUsers :: "'d Ident \<Rightarrow> uuid \<Rightarrow> 'd \<Rightarrow> User list res \<times> 'd" where
  "ListUsers s orgID d =
     (case id_db s (SelectUsers orgID) d of
        (Inl e, d1) \<Rightarrow> (Inl e, d1)
      | (Inr (PgUsers rs), d1) \<Rightarrow> (Inr (map scan_profile rs), d1)
      | (Inr _, d1) \<Rightarrow> (Inl bad_row, d1))"

definition SetDisabled :: "'d Ident \<Rightarrow> uuid \<Rightarrow> uuid \<Rightarrow> bool \<Rightarrow> 'd \<Rightarrow> unit res \<times> 'd" where
  "SetDisabled s orgID userID disabled d =
     (case id_db s (SetDisabledStmt disabled userID orgID) d of
        (Inl e, d1) \<Rightarrow> (Inl e, d1)
      | (Inr (PgCount n), d1) \<Rightarrow> (if n = 0 then Inl (ErrNew ''user not found'') else Inr (), d1)
      | (Inr _, d1) \<Rightarrow> (Inl bad_row, d1))"

definition ErrNoRows :: string where
  "ErrNoRows = ''no rows in result set''"

definition GetUser :: "'d Ident \<Rightarrow> uuid \<Rightarrow> uuid \<Rightarrow> 'd \<Rightarrow> User res \<times> 'd" where
  "GetUser s orgID userID d =
     (case id_db s (SelectUser userID orgID) d of
        (Inl e, d1) \<Rightarrow> (Inl e, d1)
      | (Inr (PgUser r), d1) \<Rightarrow> (Inr (scan_user r), d1)
      | (Inr _, d1) \<Rightarrow> (Inl (Sentinel ErrNoRows), d1))"

definition BumpTokenVersion :: "'d Ident \<Rightarrow> uuid \<Rightarrow> uuid \<Rightarrow> 'd \<Rightarrow> unit res \<times> 'd" where
  "BumpTokenVersion s orgID userID d =
     (case id_db s (BumpVersion userID orgID) d of
        (Inl e, d1) \<Rightarrow> (Inl e, d1)
      | (Inr _, d1) \<Rightarrow> (Inr (), d1))"

section \<open>Validation\<close>

definition validateCredentials :: "string \<Rightarrow> string \<Rightarrow> unit res" where
  "validateCredentials email password =
     (let email' = TrimSpace email in
      if email' = '''' \<or> \<not> Contains email' ''@'' then Inl (ErrNew ''a valid email is required'')
      else if length password < 8 then Inl (ErrNew ''password must be at least 8 characters'')
      else Inr ())"

definition parseUUID :: "'d Ident \<Rightarrow> string \<Rightarrow> uuid option" where
  "parseUUID s = uuid_Parse (id_uuid s)"

section \<open>Handlers\<close>

record registerRequest =
  rg_OrgName :: string
  rg_Email :: string
  rg_Password :: string
  rg_DisplayName :: string

record loginRequest =
  lg_Email :: string
  lg_Password :: string

record createUserRequest =
  cu_Email :: string
  cu_Password :: string
  cu_DisplayName :: string
  cu_Role :: string

definition User_json :: "'d Ident \<Rightarrow> User \<Rightarrow> json" where
  "User_json s u = JObj
     [(''id'', JStr (uuid_String (id_uuid s) (us_ID u))),
      (''org_id'', JStr (uuid_String (id_uuid s) (us_OrgID u))), (''email'', JStr (us_Email u)),
      (''display_name'', JStr (us_DisplayName u)), (''role'', JStr (us_Role u)),
      (''created_at'', JTime (us_CreatedAt u))]"

text \<open>
  What one request draws from outside: the clock readings and the token ids of the two calls of
  \<open>Issue\<close>, the bytes of \<open>rand.Read\<close>, and the clock reading of \<open>Parse\<close>.
\<close>

record draws =
  dr_now :: time
  dr_access :: "time \<times> string"
  dr_refresh :: "time \<times> string"
  dr_salt :: "string res"

definition respondWithTokens :: "'d Ident \<Rightarrow> draws \<Rightarrow> int \<Rightarrow> User \<Rightarrow> response" where
  "respondWithTokens s dr status u =
     (case Issue (id_jwt s) (id_uuid s) (id_issuer s) (fst (dr_access dr)) (snd (dr_access dr))
         KindAccess (us_ID u) (us_OrgID u) (us_Role u) (us_TokenVersion u) of
        Inl e \<Rightarrow> WriteError StatusInternalServerError ''could not issue token''
      | Inr (access, exp) \<Rightarrow>
          (case Issue (id_jwt s) (id_uuid s) (id_issuer s) (fst (dr_refresh dr)) (snd (dr_refresh dr))
              KindRefresh (us_ID u) (us_OrgID u) (us_Role u) (us_TokenVersion u) of
             Inl e \<Rightarrow> WriteError StatusInternalServerError ''could not issue token''
           | Inr (refresh, _) \<Rightarrow>
               WriteJSON status (Some (JObj [(''access_token'', JStr access),
                 (''refresh_token'', JStr refresh), (''expires_at'', JTime exp),
                 (''user'', User_json s u)]))))"

definition handle_Register ::
  "'d Ident \<Rightarrow> draws \<Rightarrow> registerRequest res \<Rightarrow> 'd \<Rightarrow> response go \<times> 'd" where
  "handle_Register s dr decoded d =
     (case decoded of
        Inl e \<Rightarrow> (Return (WriteError StatusBadRequest (err_Error e)), d)
      | Inr req \<Rightarrow>
          (case validateCredentials (rg_Email req) (rg_Password req) of
             Inl e \<Rightarrow> (Return (WriteError StatusBadRequest (err_Error e)), d)
           | Inr _ \<Rightarrow>
               if rg_OrgName req = '''' then (Return (WriteError StatusBadRequest ''org_name is required''), d)
               else case RegisterOrg s (dr_salt dr) (rg_OrgName req) (rg_Email req) (rg_Password req)
                   (rg_DisplayName req) d of
                 (Panic m, d1) \<Rightarrow> (Panic m, d1)
               | (Return (Inl e), d1) \<Rightarrow>
                   (Return (if errors_Is e ErrEmailTaken then WriteError StatusConflict (err_Error e)
                         else WriteError StatusInternalServerError ''could not register''), d1)
               | (Return (Inr u), d1) \<Rightarrow> (Return (respondWithTokens s dr StatusCreated u), d1)))"

definition handle_Login ::
  "'d Ident \<Rightarrow> draws \<Rightarrow> loginRequest res \<Rightarrow> 'd \<Rightarrow> response go \<times> 'd" where
  "handle_Login s dr decoded d =
     (case decoded of
        Inl e \<Rightarrow> (Return (WriteError StatusBadRequest (err_Error e)), d)
      | Inr req \<Rightarrow>
          (case Authenticate s (lg_Email req) (lg_Password req) d of
             (Panic m, d1) \<Rightarrow> (Panic m, d1)
           | (Return (Inl e), d1) \<Rightarrow>
               (Return (if errors_Is e ErrInvalidCredentials
                     then WriteError StatusUnauthorized ''invalid email or password''
                     else if errors_Is e ErrDisabled then WriteError StatusForbidden ''account disabled''
                     else WriteError StatusInternalServerError ''login failed''), d1)
           | (Return (Inr u), d1) \<Rightarrow> (Return (respondWithTokens s dr StatusOK u), d1)))"

definition handle_Refresh ::
  "'d Ident \<Rightarrow> draws \<Rightarrow> string res \<Rightarrow> 'd \<Rightarrow> response go \<times> 'd" where
  "handle_Refresh s dr decoded d =
     (case decoded of
        Inl e \<Rightarrow> (Return (WriteError StatusBadRequest (err_Error e)), d)
      | Inr refreshToken \<Rightarrow>
          (case Parse (id_jwt s) (id_issuer s) (dr_now dr) refreshToken of
             Inl e \<Rightarrow> (Return (WriteError StatusUnauthorized ''invalid refresh token''), d)
           | Inr claims \<Rightarrow>
               if cl_Kind claims \<noteq> KindRefresh
               then (Return (WriteError StatusUnauthorized ''invalid refresh token''), d)
               else case (parseUUID s (cl_OrgID claims), parseUUID s (cl_Subject claims)) of
                 (Some orgID, Some userID) \<Rightarrow>
                   (case GetUser s orgID userID d of
                      (Inl e, d1) \<Rightarrow> (Return (WriteError StatusUnauthorized ''user no longer exists''), d1)
                    | (Inr u, d1) \<Rightarrow>
                        if cl_Ver claims \<noteq> us_TokenVersion u
                        then (Return (WriteError StatusUnauthorized ''token revoked''), d1)
                        else (Return (respondWithTokens s dr StatusOK u), d1))
               | _ \<Rightarrow> (Return (WriteError StatusUnauthorized ''invalid refresh token''), d)))"

definition handle_Logout :: "'d Ident \<Rightarrow> 'd handler" where
  "handle_Logout s r d =
     (case FromContext r of
        None \<Rightarrow> (WriteError StatusUnauthorized ''unauthenticated'', d)
      | Some p \<Rightarrow>
          (case BumpTokenVersion s (pr_OrgID p) (pr_UserID p) d of
             (Inl e, d1) \<Rightarrow> (WriteError StatusInternalServerError ''could not log out'', d1)
           | (Inr _, d1) \<Rightarrow> (WriteJSON StatusOK (Some (JObj [(''status'', JStr ''logged_out'')])), d1)))"

definition handle_Me :: "'d Ident \<Rightarrow> 'd handler" where
  "handle_Me s r d =
     (case FromContext r of
        None \<Rightarrow> (WriteError StatusUnauthorized ''unauthenticated'', d)
      | Some p \<Rightarrow>
          (case GetUser s (pr_OrgID p) (pr_UserID p) d of
             (Inl e, d1) \<Rightarrow> (WriteError StatusNotFound ''user not found'', d1)
           | (Inr u, d1) \<Rightarrow> (WriteJSON StatusOK (Some (User_json s u)), d1)))"

section \<open>Administration\<close>

definition requireAdmin :: "request \<Rightarrow> response + Principal" where
  "requireAdmin r =
     (case FromContext r of
        None \<Rightarrow> Inl (WriteError StatusUnauthorized ''unauthenticated'')
      | Some p \<Rightarrow>
          if pr_Role p \<noteq> ''admin'' then Inl (WriteError StatusForbidden ''admin role required'') else Inr p)"

definition handle_CreateUser ::
  "'d Ident \<Rightarrow> draws \<Rightarrow> createUserRequest res \<Rightarrow> request \<Rightarrow> 'd \<Rightarrow> response go \<times> 'd" where
  "handle_CreateUser s dr decoded r d =
     (case requireAdmin r of
        Inl resp \<Rightarrow> (Return resp, d)
      | Inr p \<Rightarrow>
          (case decoded of
             Inl e \<Rightarrow> (Return (WriteError StatusBadRequest (err_Error e)), d)
           | Inr req \<Rightarrow>
               (case validateCredentials (cu_Email req) (cu_Password req) of
                  Inl e \<Rightarrow> (Return (WriteError StatusBadRequest (err_Error e)), d)
                | Inr _ \<Rightarrow>
                    if cu_Role req \<noteq> '''' \<and> cu_Role req \<noteq> ''admin'' \<and> cu_Role req \<noteq> ''agent'' \<and>
                       cu_Role req \<noteq> ''viewer''
                    then (Return (WriteError StatusBadRequest ''role must be admin, agent, or viewer''), d)
                    else case CreateUser s (dr_salt dr) (pr_OrgID p) (cu_Email req) (cu_Password req)
                        (cu_DisplayName req) (cu_Role req) d of
                      (Panic m, d1) \<Rightarrow> (Panic m, d1)
                    | (Return (Inl e), d1) \<Rightarrow>
                        (Return (if errors_Is e ErrEmailTaken then WriteError StatusConflict (err_Error e)
                              else WriteError StatusInternalServerError ''could not create user''), d1)
                    | (Return (Inr u), d1) \<Rightarrow> (Return (WriteJSON StatusCreated (Some (User_json s u))), d1))))"

definition handle_ListUsers :: "'d Ident \<Rightarrow> 'd handler" where
  "handle_ListUsers s r d =
     (case requireAdmin r of
        Inl resp \<Rightarrow> (resp, d)
      | Inr p \<Rightarrow>
          (case ListUsers s (pr_OrgID p) d of
             (Inl e, d1) \<Rightarrow> (WriteError StatusInternalServerError ''could not list users'', d1)
           | (Inr users, d1) \<Rightarrow>
               (WriteJSON StatusOK (Some (JObj [(''users'',
                  if users = [] then JNull else JArr (map (User_json s) users))])), d1)))"

definition handle_SetUserDisabled :: "'d Ident \<Rightarrow> bool \<Rightarrow> 'd handler" where
  "handle_SetUserDisabled s disabled r d =
     (case requireAdmin r of
        Inl resp \<Rightarrow> (resp, d)
      | Inr p \<Rightarrow>
          (case uuid_Parse (id_uuid s) (PathValue r ''id'') of
             None \<Rightarrow> (WriteError StatusBadRequest ''invalid user id'', d)
           | Some userID \<Rightarrow>
               if userID = pr_UserID p \<and> disabled
               then (WriteError StatusBadRequest ''cannot disable your own account'', d)
               else case SetDisabled s (pr_OrgID p) userID disabled d of
                 (Inl e, d1) \<Rightarrow> (WriteError StatusNotFound (err_Error e), d1)
               | (Inr _, d1) \<Rightarrow> (WriteJSON StatusOK (Some (JObj [(''disabled'', JBool disabled)])), d1)))"

end
