(* ===== verification/Identity_Users.thy ===== *)
theory Identity_Users
  imports Identity
begin

text \<open>
  The users table under the operations of the identity service. Every request runs at most one
  statement; so an invariant of the table needs a look at the statements only. The theorems hold for
  every database client that keeps the contract \<open>pg_service\<close>, also when statements fail.
\<close>

section \<open>Requests\<close>

datatype id_op =
    OpRegister draws "registerRequest res"
  | OpLogin draws "loginRequest res"
  | OpRefresh draws "string res"
  | OpLogout request
  | OpMe request
  | OpCreateUser draws "createUserRequest res" request
  | OpListUsers request
  | OpSetDisabled bool request

fun id_serve :: "'d Ident \<Rightarrow> id_op \<Rightarrow> 'd \<Rightarrow> response go \<times> 'd" where
  "id_serve s (OpRegister dr q) d = handle_Register s dr q d"
| "id_serve s (OpLogin dr q) d = handle_Login s dr q d"
| "id_serve s (OpRefresh dr q) d = handle_Refresh s dr q d"
| "id_serve s (OpLogout r) d = apfst Return (handle_Logout s r d)"
| "id_serve s (OpMe r) d = apfst Return (handle_Me s r d)"
| "id_serve s (OpCreateUser dr q r) d = handle_CreateUser s dr q r d"
| "id_serve s (OpListUsers r) d = apfst Return (handle_ListUsers s r d)"
| "id_serve s (OpSetDisabled b r) d = apfst Return (handle_SetUserDisabled s b r d)"

fun id_run :: "'d Ident \<Rightarrow> id_op list \<Rightarrow> 'd \<Rightarrow> 'd" where
  "id_run s [] d = d"
| "id_run s (op # ops) d = id_run s ops (snd (id_serve s op d))"

text \<open>The statement a request may run.\<close>

definition op_stmt :: "'d Ident \<Rightarrow> id_op \<Rightarrow> pg_stmt \<Rightarrow> bool" where
  "op_stmt s op q = (case op of
     OpRegister dr b \<Rightarrow> \<exists>n e h dn. q = RegisterOrgTx n (normalizeEmail e) h dn
   | OpLogin dr b \<Rightarrow> \<exists>e. q = SelectUserByEmail e
   | OpRefresh dr b \<Rightarrow> \<exists>u org. q = SelectUser u org
   | OpLogout r \<Rightarrow> \<exists>p. FromContext r = Some p \<and> q = BumpVersion (pr_UserID p) (pr_OrgID p)
   | OpMe r \<Rightarrow> \<exists>u org. q = SelectUser u org
   | OpCreateUser dr b r \<Rightarrow> \<exists>p e h dn role. FromContext r = Some p \<and> pr_Role p = ''admin'' \<and>
       q = InsertUser (pr_OrgID p) (normalizeEmail e) h dn role
   | OpListUsers r \<Rightarrow> \<exists>p. FromContext r = Some p \<and> pr_Role p = ''admin'' \<and> q = SelectUsers (pr_OrgID p)
   | OpSetDisabled b r \<Rightarrow> \<exists>p u. FromContext r = Some p \<and> pr_Role p = ''admin'' \<and>
       uuid_Parse (id_uuid s) (PathValue r ''id'') = Some u \<and> \<not> (b \<and> u = pr_UserID p) \<and>
       q = SetDisabledStmt b u (pr_OrgID p))"

lemma requireAdmin_Inr: "requireAdmin r = Inr p \<longleftrightarrow> FromContext r = Some p \<and> pr_Role p = ''admin''"
  by (auto simp: requireAdmin_def split: option.split)

lemmas service_defs = RegisterOrg_def CreateUser_def Authenticate_def ListUsers_def SetDisabled_def
  GetUser_def BumpTokenVersion_def

lemma op_stmt_SetDisabled:
  "op_stmt s op (SetDisabledStmt c uid org) \<Longrightarrow> \<exists>r p. op = OpSetDisabled c r \<and> requireAdmin r = Inr p \<and>
     org = pr_OrgID p \<and> \<not> (c \<and> uid = pr_UserID p) \<and> uuid_Parse (id_uuid s) (PathValue r ''id'') = Some uid"
  by (cases op) (auto simp: op_stmt_def requireAdmin_Inr)

lemma op_stmt_BumpVersion: "op_stmt s op (BumpVersion uid org) \<Longrightarrow>
    \<exists>r p. op = OpLogout r \<and> FromContext r = Some p \<and> uid = pr_UserID p \<and> org = pr_OrgID p"
  by (cases op) (auto simp: op_stmt_def)

lemma op_stmt_InsertUser: "op_stmt s op (InsertUser org e h dn role) \<Longrightarrow>
    \<exists>dr b r p. op = OpCreateUser dr b r \<and> requireAdmin r = Inr p \<and> org = pr_OrgID p"
  by (cases op) (auto simp: op_stmt_def requireAdmin_Inr)

lemma op_stmt_RegisterOrgTx: "op_stmt s op (RegisterOrgTx n e h dn) \<Longrightarrow> \<exists>dr b. op = OpRegister dr b"
  by (cases op) (auto simp: op_stmt_def)

definition ran :: "'d Ident \<Rightarrow> id_op \<Rightarrow> 'd \<Rightarrow> 'd \<Rightarrow> bool" where
  "ran s op d d' \<longleftrightarrow> d' = d \<or> (\<exists>q x. op_stmt s op q \<and> id_db s q d = (x, d'))"

lemma ran_refl [simp]: "ran s op d d"
  by (simp add: ran_def)

lemma ran_db: "id_db s q d = (x, d') \<Longrightarrow> op_stmt s op q \<Longrightarrow> ran s op d d'"
  by (auto simp: ran_def)

lemma op_stmt_simps:
  "op_stmt s (OpRegister dr b) (RegisterOrgTx n (normalizeEmail e) h dn)"
  "op_stmt s (OpLogin dr b') (SelectUserByEmail e)"
  "op_stmt s (OpRefresh dr b'') (SelectUser u org)"
  "op_stmt s (OpMe r) (SelectUser u org)"
  "FromContext r = Some p \<Longrightarrow> op_stmt s (OpLogout r) (BumpVersion (pr_UserID p) (pr_OrgID p))"
  "requireAdmin r = Inr p \<Longrightarrow> op_stmt s (OpCreateUser dr b''' r) (InsertUser (pr_OrgID p) (normalizeEmail e) h dn role)"
  "requireAdmin r = Inr p \<Longrightarrow> op_stmt s (OpListUsers r) (SelectUsers (pr_OrgID p))"
  "requireAdmin r = Inr p \<Longrightarrow> uuid_Parse (id_uuid s) (PathValue r ''id'') = Some u \<Longrightarrow>
     \<not> (u = pr_UserID p \<and> c) \<Longrightarrow> op_stmt s (OpSetDisabled c r) (SetDisabledStmt c u (pr_OrgID p))"
  by (auto simp: op_stmt_def requireAdmin_Inr)

lemma CreateUser_ran:
  "CreateUser s rnd (pr_OrgID p) e pw dn role d = (x, d') \<Longrightarrow> requireAdmin r = Inr p \<Longrightarrow>
     ran s (OpCreateUser dr b r) d d'"
  by (auto simp: CreateUser_def Let_def intro: ran_db op_stmt_simps
      split: sum.splits go.splits prod.splits pg_reply.splits)

lemma SetDisabled_ran:
  "SetDisabled s (pr_OrgID p) u c d = (x, d') \<Longrightarrow> requireAdmin r = Inr p \<Longrightarrow>
     uuid_Parse (id_uuid s) (PathValue r ''id'') = Some u \<Longrightarrow> \<not> (u = pr_UserID p \<and> c) \<Longrightarrow>
     ran s (OpSetDisabled c r) d d'"
  by (auto simp: SetDisabled_def intro: ran_db op_stmt_simps
      split: sum.splits prod.splits pg_reply.splits)

lemma serve_ran: "ran s op d (snd (id_serve s op d))"
proof (cases op)
  case (OpRegister dr q)
  then show ?thesis
    by (auto simp: handle_Register_def RegisterOrg_def intro: ran_db op_stmt_simps
        split: sum.split go.split prod.split pg_reply.split)
next
  case (OpLogin dr q)
  then show ?thesis
    by (auto simp: handle_Login_def Authenticate_def intro: ran_db op_stmt_simps
        split: sum.split go.split prod.split pg_reply.split)
next
  case (OpRefresh dr q)
  then show ?thesis
    by (auto simp: handle_Refresh_def GetUser_def intro: ran_db op_stmt_simps
        split: sum.split option.split prod.split pg_reply.split)
next
  case (OpLogout r)
  then show ?thesis
    by (auto simp: handle_Logout_def BumpTokenVersion_def intro: ran_db op_stmt_simps
        split: sum.split option.split prod.split)
next
  case (OpMe r)
  then show ?thesis
    by (auto simp: handle_Me_def GetUser_def intro: ran_db op_stmt_simps
        split: sum.split option.split prod.split pg_reply.split)
next
  case (OpCreateUser dr q r)
  then show ?thesis
    by (auto simp: handle_CreateUser_def intro: CreateUser_ran
        split: sum.split go.split prod.split)
next
  case (OpListUsers r)
  then show ?thesis
    by (auto simp: handle_ListUsers_def ListUsers_def intro: ran_db op_stmt_simps
        split: sum.split prod.split pg_reply.split)
next
  case (OpSetDisabled b r)
  then show ?thesis
    by (auto simp: handle_SetUserDisabled_def intro: SetDisabled_ran
        split: sum.split option.split prod.split)
qed

section \<open>The users table\<close>

text \<open>
  Identifiers and lower-case emails are unique, and every stored email is in lower case. The first
  two are constraints of the schema, the last is what \<open>normalizeEmail\<close> adds; together they make
  the lookup of \<open>Authenticate\<close> hit the row its email was stored under, and no other.
\<close>

definition users_ok :: "db \<Rightarrow> bool" where
  "users_ok d \<longleftrightarrow> distinct (map ur_id (db_users d)) \<and> distinct (map ur_email (db_users d)) \<and>
     list_all (\<lambda>r. sql_lower (ur_email r) = ur_email r) (db_users d)"

text \<open>What a later row keeps of an earlier one: all but the flag and the version, which only grows.\<close>

definition user_le :: "user_row \<Rightarrow> user_row \<Rightarrow> bool" where
  "user_le r r' \<longleftrightarrow> ur_version r \<le> ur_version r' \<and>
     r' = r\<lparr>ur_disabled := ur_disabled r', ur_version := ur_version r'\<rparr>"

definition users_evolve :: "db \<Rightarrow> db \<Rightarrow> bool" where
  "users_evolve d d' \<longleftrightarrow> (\<forall>r \<in> set (db_users d). \<exists>r' \<in> set (db_users d'). user_le r r')"

lemma user_le_refl [simp]: "user_le r r"
  by (simp add: user_le_def)

lemma user_le_keeps:
  "user_le r r' \<Longrightarrow> ur_id r' = ur_id r \<and> ur_org r' = ur_org r \<and> ur_email r' = ur_email r \<and> ur_hash r' = ur_hash r"
  unfolding user_le_def by (metis user_row.select_convs(1-4) user_row.surjective user_row.update_convs(7,9))

lemma user_le_version: "user_le r r' \<Longrightarrow> ur_version r \<le> ur_version r'"
  by (simp add: user_le_def)

lemma user_le_role: "user_le r r' \<Longrightarrow> ur_role r' = ur_role r"
  unfolding user_le_def by (metis user_row.select_convs(6) user_row.surjective user_row.update_convs(7,9))

lemma user_le_trans: "user_le a b \<Longrightarrow> user_le b c \<Longrightarrow> user_le a c"
  by (cases a; cases b; cases c) (simp add: user_le_def)

lemma users_evolve_trans [trans]: "users_evolve a b \<Longrightarrow> users_evolve b c \<Longrightarrow> users_evolve a c"
  unfolding users_evolve_def by (meson user_le_trans)

lemma users_evolve_same: "db_users d' = db_users d \<Longrightarrow> users_evolve d d'"
  unfolding users_evolve_def using user_le_refl by metis

lemma users_evolve_append: "db_users d' = db_users d @ rs \<Longrightarrow> users_evolve d d'"
  unfolding users_evolve_def using user_le_refl by (metis Un_iff set_append)

lemma users_evolve_map:
  "db_users d' = map f (db_users d) \<Longrightarrow> (\<And>r. user_le r (f r)) \<Longrightarrow> users_evolve d d'"
  unfolding users_evolve_def by (metis image_eqI set_map)

lemma users_ok_map:
  assumes "users_ok d" and "db_users d' = map f (db_users d)" and "\<And>r. user_le r (f r)"
  shows "users_ok d'"
proof -
  have "ur_id (f r) = ur_id r" "ur_email (f r) = ur_email r" for r using user_le_keeps [OF assms(3)] by auto
  then show ?thesis using assms(1,2) by (simp add: users_ok_def o_def list.pred_map)
qed

lemma users_ok_same: "users_ok d \<Longrightarrow> db_users d' = db_users d \<Longrightarrow> users_ok d'"
  by (simp add: users_ok_def)

lemma lower_id: "users_ok d \<Longrightarrow> r \<in> set (db_users d) \<Longrightarrow> sql_lower (ur_email r) = ur_email r"
  by (auto simp: users_ok_def list_all_iff)

lemma users_ok_snoc:
  assumes "users_ok d" and "db_users d' = db_users d @ [u]" and "sql_lower (ur_email u) = ur_email u"
    and "\<forall>r \<in> set (db_users d). ur_id r \<noteq> ur_id u \<and> sql_lower (ur_email r) \<noteq> sql_lower (ur_email u)"
  shows "users_ok d'"
  using assms lower_id [OF assms(1)] by (force simp: users_ok_def)

text \<open>The same user throughout: with unique identifiers a row is found by its identifier.\<close>

lemma users_ok_unique:
  "users_ok d \<Longrightarrow> r \<in> set (db_users d) \<Longrightarrow> r' \<in> set (db_users d) \<Longrightarrow> ur_id r = ur_id r' \<Longrightarrow> r = r'"
  by (auto simp: users_ok_def distinct_map inj_on_def)

lemma users_ok_unique_email:
  "users_ok d \<Longrightarrow> r \<in> set (db_users d) \<Longrightarrow> r' \<in> set (db_users d) \<Longrightarrow> ur_email r = ur_email r' \<Longrightarrow> r = r'"
  by (auto simp: users_ok_def distinct_map inj_on_def)

section \<open>Statements\<close>

lemma ascii_lower_idem [simp]: "ascii_lower (ascii_lower c) = ascii_lower c"
  by (auto simp: ascii_lower_def)

lemma sql_lower_normalize [simp]: "sql_lower (normalizeEmail e) = normalizeEmail e"
  by (simp add: sql_lower_def normalizeEmail_def)

definition good_stmt :: "pg_stmt \<Rightarrow> bool" where
  "good_stmt q \<longleftrightarrow> (case q of
     RegisterOrgTx n e h dn \<Rightarrow> sql_lower e = e | InsertUser org e h dn role \<Rightarrow> sql_lower e = e | _ \<Rightarrow> True)"

lemma op_stmt_good: "op_stmt s op q \<Longrightarrow> good_stmt q"
  by (auto simp: op_stmt_def good_stmt_def split: id_op.splits)

definition disable_row :: "bool \<Rightarrow> uuid \<Rightarrow> uuid \<Rightarrow> user_row \<Rightarrow> user_row" where
  "disable_row b uid org r = (if ur_id r = uid \<and> ur_org r = org
     then r\<lparr>ur_disabled := b, ur_version := ur_version r + (if b then 1 else 0)\<rparr> else r)"

definition bump_row :: "uuid \<Rightarrow> uuid \<Rightarrow> user_row \<Rightarrow> user_row" where
  "bump_row uid org r = (if ur_id r = uid \<and> ur_org r = org then r\<lparr>ur_version := ur_version r + 1\<rparr> else r)"

lemma user_le_rows [simp]: "user_le r (disable_row b uid org r)" "user_le r (bump_row uid org r)"
  by (simp_all add: user_le_def disable_row_def bump_row_def)

text \<open>What a statement can do to the users table.\<close>

inductive user_effect :: "pg_stmt \<Rightarrow> user_row list \<Rightarrow> user_row list \<Rightarrow> bool" where
  same: "user_effect q us us"
| added: "q = RegisterOrgTx n (ur_email u) (ur_hash u) dn \<and> ur_role u = ''admin'' \<or>
      q = InsertUser (ur_org u) (ur_email u) (ur_hash u) dn (ur_role u) \<Longrightarrow>
    \<not> ur_disabled u \<Longrightarrow> ur_version u = 0 \<Longrightarrow>
    \<forall>r \<in> set us. ur_id r \<noteq> ur_id u \<and> sql_lower (ur_email r) \<noteq> sql_lower (ur_email u) \<Longrightarrow>
    user_effect q us (us @ [u])"
| disabled: "user_effect (SetDisabledStmt b uid org) us (map (disable_row b uid org) us)"
| bumped: "user_effect (BumpVersion uid org) us (map (bump_row uid org) us)"

inductive_cases user_effect_disable: "user_effect (SetDisabledStmt b uid org) us us'"
inductive_cases user_effect_bump: "user_effect (BumpVersion uid org) us us'"

lemma insert_user_effect:
  "sql_insert_user org e h dn role g d = (x, d') \<Longrightarrow>
     db_users d' = db_users d \<and> (\<forall>u. x \<noteq> PgUser u) \<or> (\<exists>u. x = PgUser u \<and> db_users d' = db_users d @ [u] \<and> ur_org u = org \<and>
       ur_email u = e \<and> ur_hash u = h \<and> ur_display u = dn \<and> ur_role u = role \<and> \<not> ur_disabled u \<and> ur_version u = 0 \<and>
       (\<forall>r \<in> set (db_users d). ur_id r \<noteq> ur_id u \<and> sql_lower (ur_email r) \<noteq> sql_lower e))"
  by (auto simp: sql_insert_user_def Let_def list_ex_iff split: if_splits)

lemma insert_org_users: "sql_insert_org n g d = (x, d') \<Longrightarrow> db_users d' = db_users d"
  by (auto simp: sql_insert_org_def split: if_splits)

lemma register_org_effect:
  "sql_register_org n e h dn g g' d = (x, d') \<Longrightarrow>
     db_users d' = db_users d \<and> (\<forall>u. x \<noteq> PgUser u) \<or> (\<exists>u. x = PgUser u \<and> db_users d' = db_users d @ [u] \<and>
       ur_email u = e \<and> ur_hash u = h \<and> ur_display u = dn \<and> ur_role u = ''admin'' \<and> \<not> ur_disabled u \<and> ur_version u = 0 \<and>
       (\<forall>r \<in> set (db_users d). ur_id r \<noteq> ur_id u \<and> sql_lower (ur_email r) \<noteq> sql_lower e))"
  by (auto simp: sql_register_org_def sql_insert_org_def dest!: insert_user_effect
      split: prod.splits pg_reply.splits if_splits)

lemma pg_run_user_effect: "user_effect q (db_users d) (db_users (snd (pg_run q g g' d)))"
proof (cases q)
  case (RegisterOrgTx n e h dn)
  obtain x d' where r: "sql_register_org n e h dn g g' d = (x, d')" by fastforce
  from register_org_effect [OF this] RegisterOrgTx r show ?thesis
    by (auto intro: user_effect.intros)
next
  case (InsertUser org e h dn role)
  obtain x d' where r: "sql_insert_user org e h dn role g d = (x, d')" by fastforce
  from insert_user_effect [OF this] InsertUser r show ?thesis
    by (auto intro: user_effect.intros)
next
  case (SetDisabledStmt b uid org)
  then show ?thesis
    using user_effect.disabled [of b uid org "db_users d", unfolded disable_row_def [abs_def]]
    by (auto simp: sql_set_disabled_def sql_update_def Let_def intro: user_effect.same)
next
  case (BumpVersion uid org)
  then show ?thesis
    using user_effect.bumped [of uid org "db_users d", unfolded bump_row_def [abs_def]]
    by (auto simp: sql_bump_version_def sql_update_def Let_def intro: user_effect.same)
qed (auto simp: sql_insert_session_def sql_delete_session_def sql_activate_session_def sql_end_session_def
    sql_expire_pending_def sql_select_user_by_email_def sql_select_users_def sql_select_user_def
    sql_session_in_org_def sql_insert_recording_def sql_complete_recording_def sql_select_recordings_def
    sql_update_def Let_def intro: user_effect.same split: list.split)

lemma user_effect_ok:
  assumes "user_effect q (db_users d) (db_users d')" and "good_stmt q" and "users_ok d"
  shows "users_ok d' \<and> users_evolve d d'"
  using assms(1)
proof cases
  case (added n u dn)
  moreover have "sql_lower (ur_email u) = ur_email u" using added(2) assms(2) by (auto simp: good_stmt_def)
  ultimately show ?thesis using users_ok_snoc [of d d' u] users_evolve_append [of d' d "[u]"] assms(3) by simp
next
  case (disabled b uid org)
  then show ?thesis using users_ok_map [of d d' "disable_row b uid org"] users_evolve_map [of d' "disable_row b uid org" d] assms(3) by simp
next
  case (bumped uid org)
  then show ?thesis using users_ok_map [of d d' "bump_row uid org"] users_evolve_map [of d' "bump_row uid org" d] assms(3) by simp
next
  case same
  then show ?thesis using assms(3) users_ok_same [of d d'] users_evolve_same [of d' d] by simp
qed

section \<open>Runs\<close>

context pg_service
begin

lemma pg_user_effect:
  assumes "pg q d = (x, d')"
  shows "user_effect q (db_users (pg_view d)) (db_users (pg_view d'))"
  using assms
proof (rule pg_cases)
  fix t g g' assume "pg_view d' = snd (pg_run q g g' ((pg_view d)\<lparr>db_clock := t\<rparr>))"
  then show ?thesis using pg_run_user_effect [of q "(pg_view d)\<lparr>db_clock := t\<rparr>" g g'] by simp
qed (simp add: user_effect.same)

lemma serve_users:
  assumes "id_db s = pg" and "users_ok (pg_view d)"
  shows "users_ok (pg_view (snd (id_serve s op d))) \<and> users_evolve (pg_view d) (pg_view (snd (id_serve s op d)))"
  using serve_ran [of s op d] assms op_stmt_good [of s op]
    user_effect_ok [OF pg_user_effect, of _ d _ "snd (id_serve s op d)"]
  unfolding ran_def by (metis users_evolve_same)

lemma run_users:
  assumes "id_db s = pg"
  shows "users_ok (pg_view d) \<Longrightarrow> users_ok (pg_view (id_run s ops d)) \<and> users_evolve (pg_view d) (pg_view (id_run s ops d))"
proof (induction ops arbitrary: d)
  case (Cons op ops)
  with serve_users [OF assms Cons.prems, of op] show ?case
    using users_evolve_trans by auto
qed (simp add: users_evolve_same)

text \<open>A successful read sees rows of the table.\<close>

lemma select_user_row:
  assumes "pg (SelectUser uid org) d = (Inr (PgUser r), d')"
  shows "r \<in> set (db_users (pg_view d)) \<and> r \<in> set (db_users (pg_view d')) \<and> ur_id r = uid \<and> ur_org r = org"
proof -
  from pg_ok [OF assms] obtain t where
    "sql_select_user uid org ((pg_view d)\<lparr>db_clock := t\<rparr>) = (PgUser r, pg_view d')" by auto
  then have v: "(pg_view d)\<lparr>db_clock := t\<rparr> = pg_view d'"
    and "\<exists>us. filter (\<lambda>r. ur_id r = uid \<and> ur_org r = org) (db_users (pg_view d)) = r # us"
    by (auto simp: sql_select_user_def split: list.splits)
  then have "r \<in> set (filter (\<lambda>r. ur_id r = uid \<and> ur_org r = org) (db_users (pg_view d)))"
    by (metis list.set_intros(1))
  with v [symmetric] show ?thesis by simp
qed

lemma insert_by_created_set: "set (insert_by_created u us) = insert u (set us)"
  by (induction us) auto

lemma sort_by_created_set [simp]: "set (sort_by_created us) = set us"
  by (induction us) (simp_all add: sort_by_created_def insert_by_created_set)

lemma select_by_email_row:
  assumes "pg (SelectUserByEmail e) d = (Inr rep, d')"
  shows "db_users (pg_view d') = db_users (pg_view d) \<and>
    (rep = PgNoRows \<and> (\<forall>r \<in> set (db_users (pg_view d)). sql_lower (ur_email r) \<noteq> e) \<or>
     (\<exists>r. rep = PgUser r \<and> r \<in> set (db_users (pg_view d)) \<and> sql_lower (ur_email r) = e))"
proof -
  from pg_ok [OF assms] obtain t where
    s: "sql_select_user_by_email e ((pg_view d)\<lparr>db_clock := t\<rparr>) = (rep, pg_view d')" by auto
  let ?xs = "sort_by_created (filter (\<lambda>r. sql_lower (ur_email r) = e) (db_users (pg_view d)))"
  from s have v: "pg_view d' = (pg_view d)\<lparr>db_clock := t\<rparr>"
    by (auto simp: sql_select_user_by_email_def split: list.splits)
  have set: "set ?xs = {r \<in> set (db_users (pg_view d)). sql_lower (ur_email r) = e}" by simp
  show ?thesis
  proof (cases ?xs)
    case Nil
    with set have "{r \<in> set (db_users (pg_view d)). sql_lower (ur_email r) = e} = {}" by simp
    with s Nil v show ?thesis by (auto simp: sql_select_user_by_email_def)
  next
    case (Cons u us)
    with set have "u \<in> {r \<in> set (db_users (pg_view d)). sql_lower (ur_email r) = e}" by (metis list.set_intros(1))
    with s Cons v show ?thesis by (auto simp: sql_select_user_by_email_def)
  qed
qed

end

section \<open>Authentication\<close>

text \<open>The dummy hash is a hash string with the parameters of the package.\<close>

definition dummy_salt :: string where
  "dummy_salt = replicate 16 (CHR 0x00)"

definition dummy_key :: string where
  "dummy_key = map char_of [69, 215, 172, 114, 231, 111, 36, 43, 32, 183, 123, 155, 249, 191, 157, 89, 21, 137, 78, 102, 154, 36, 230, 198 :: nat]"

lemma dummy_base64:
  "raw_EncodeToString dummy_salt = ''AAAAAAAAAAAAAAAAAAAAAA''"
  "raw_EncodeToString dummy_key = ''RdescudvJCsgt3ub+b+dWRWJTmaaJObG''"
  by code_simp+

lemma package_numbers: "Itoa 19 = ''19''" "Itoa 65536 = ''65536''" "Itoa 1 = ''1''" "Itoa 4 = ''4''"
  by (simp_all add: Itoa_def nat_dec.simps digit_char_def char_of_def bit_0)

lemma dummyHash_phc:
  "dummyHash = phc_string argon2_Version argonMemory argonTime argonThreads (raw_EncodeToString dummy_salt) (raw_EncodeToString dummy_key)"
  by (simp add: dummyHash_def phc_string_def dummy_base64 package_numbers argon2_Version_def argonMemory_def argonTime_def argonThreads_def)

definition package_hash :: "string \<Rightarrow> bool" where
  "package_hash h \<longleftrightarrow> (\<exists>salt key. h = phc_string argon2_Version argonMemory argonTime argonThreads
     (raw_EncodeToString salt) (raw_EncodeToString key))"

lemma VerifyPassword_package:
  assumes "package_hash h"
  shows "\<exists>salt key. VerifyPassword idkey pw h =
     (case idkey pw salt argonTime argonMemory argonThreads (int (length key)) of
        Panic e \<Rightarrow> Panic e
      | Return got \<Rightarrow> if got \<noteq> key then Return (Inl (Sentinel ErrMismatch)) else Return (Inr ()))"
proof -
  obtain salt key where h: "h = phc_string argon2_Version argonMemory argonTime argonThreads
      (raw_EncodeToString salt) (raw_EncodeToString key)" using assms by (auto simp: package_hash_def)
  show ?thesis unfolding h
    by (subst VerifyPassword_phc) (auto simp: argonMemory_def argonTime_def argonThreads_def)
qed

context pg_service
begin

lemma RegisterOrg_row:
  assumes "id_db s = pg" and "RegisterOrg s rnd org email pw dn d = (Return (Inr u), d1)"
  shows "\<exists>hash r. HashPassword (id_argon2 s) rnd pw = Return (Inr hash) \<and> r \<in> set (db_users (pg_view d1)) \<and>
    u = scan_user r \<and> ur_email r = normalizeEmail email \<and> ur_hash r = hash \<and> ur_role r = ''admin'' \<and>
    user_effect (RegisterOrgTx org (normalizeEmail email) hash dn) (db_users (pg_view d)) (db_users (pg_view d1))"
proof -
  obtain hash r where h: "HashPassword (id_argon2 s) rnd pw = Return (Inr hash)"
    and q: "pg (RegisterOrgTx org (normalizeEmail email) hash dn) d = (Inr (PgUser r), d1)" and u: "u = scan_user r"
    using assms by (auto simp: RegisterOrg_def split: go.splits sum.splits prod.splits pg_reply.splits)
  from pg_ok [OF q] obtain t g g' where
    "sql_register_org org (normalizeEmail email) hash dn g g' ((pg_view d)\<lparr>db_clock := t\<rparr>) = (PgUser r, pg_view d1)" by auto
  from register_org_effect [OF this] h u pg_user_effect [OF q] show ?thesis by auto
qed

text \<open>When the lookup works, the outcome is decided by the one row of that email.\<close>

lemma Authenticate_row:
  assumes "id_db s = pg" and "users_ok (pg_view d)" and r: "r \<in> set (db_users (pg_view d))" "ur_email r = normalizeEmail email"
    and q: "pg (SelectUserByEmail (normalizeEmail email)) d = (Inr rep, d1)"
    and v: "VerifyPassword (id_argon2 s) pw (ur_hash r) = Return (Inr ())"
  shows "Authenticate s email pw d =
    (Return (if ur_disabled r then Inl (Sentinel ErrDisabled) else Inr (scan_user r)), d1)"
proof -
  have "sql_lower (ur_email r) = normalizeEmail email" using r lower_id [OF assms(2)] by metis
  then obtain x where x: "rep = PgUser x" "x \<in> set (db_users (pg_view d))" "sql_lower (ur_email x) = normalizeEmail email"
    using select_by_email_row [OF q] r by blast
  then have "x = r" using users_ok_unique_email [OF assms(2) x(2) r(1)] lower_id [OF assms(2)] r by metis
  then show ?thesis using assms(1) q x v by (simp add: Authenticate_def)
qed

lemma Authenticate_hashes:
  assumes "id_db s = pg" and q: "pg (SelectUserByEmail (normalizeEmail email)) d = (Inr rep, d1)"
    and hs: "list_all (\<lambda>r. package_hash (ur_hash r)) (db_users (pg_view d))"
    and p: "\<And>pw salt n. id_argon2 s pw salt argonTime argonMemory argonThreads n = Panic msg"
  shows "Authenticate s email pw d = (Panic msg, d1)"
proof -
  have v: "VerifyPassword (id_argon2 s) pw h = Panic msg" if "package_hash h" for h
    using VerifyPassword_package [OF that, of "id_argon2 s" pw] p by auto
  have "package_hash dummyHash" by (auto simp: package_hash_def dummyHash_phc)
  from select_by_email_row [OF q] consider "rep = PgNoRows" | r where "rep = PgUser r" "r \<in> set (db_users (pg_view d))" by blast
  then show ?thesis
    by cases (use assms(1) q v [OF \<open>package_hash dummyHash\<close>] v hs in \<open>auto simp: Authenticate_def list_all_iff\<close>)
qed

end

section \<open>Administration\<close>

lemma admin_effect:
  assumes "op_stmt s op q" and "user_effect q us us'"
    and "op = OpCreateUser dr b r \<or> op = OpListUsers r \<or> op = OpSetDisabled c r" and "requireAdmin r = Inr p"
  shows "filter (\<lambda>u. ur_org u \<noteq> pr_OrgID p \<or> ur_id u = pr_UserID p \<and> op = OpSetDisabled True r) us' =
    filter (\<lambda>u. ur_org u \<noteq> pr_OrgID p \<or> ur_id u = pr_UserID p \<and> op = OpSetDisabled True r) us"
  using assms(2)
proof cases
  case (added n u dn)
  then have "q = InsertUser (ur_org u) (ur_email u) (ur_hash u) dn (ur_role u)"
    using op_stmt_RegisterOrgTx [of s op n "ur_email u" "ur_hash u" dn] assms(1,3) by auto
  with op_stmt_InsertUser [of s op "ur_org u"] assms(1,3,4)
  have "ur_org u = pr_OrgID p" "op \<noteq> OpSetDisabled True r" by fastforce+
  with added show ?thesis by simp
next
  case (disabled c uid org)
  then have "op = OpSetDisabled c r" "org = pr_OrgID p" "\<not> (c \<and> uid = pr_UserID p)"
    using op_stmt_SetDisabled [of s op c uid org] assms(1,3,4) by fastforce+
  then have "filter (\<lambda>u. ur_org u \<noteq> pr_OrgID p \<or> ur_id u = pr_UserID p \<and> op = OpSetDisabled True r) (map (disable_row c uid org) xs) =
    filter (\<lambda>u. ur_org u \<noteq> pr_OrgID p \<or> ur_id u = pr_UserID p \<and> op = OpSetDisabled True r) xs" for xs
    by (induction xs) (auto simp: disable_row_def)
  with disabled show ?thesis by simp
next
  case (bumped uid org)
  then show ?thesis using op_stmt_BumpVersion [of s op uid org] assms(1,3) by auto
qed simp

section \<open>Theorems\<close>

text \<open>
  C32: the users table keeps its invariant under every sequence of requests, whatever fails:
  identifiers and emails stay unique over all organizations, every stored email is normalized, no user
  is lost or changes in more than the disabled flag and the token version, and versions never go
  down.
\<close>

theorem emails_stay_unique:
  assumes "pg_service (id_db s) view" and "users_ok (view d)"
  shows "users_ok (view (id_run s ops d)) \<and> users_evolve (view d) (view (id_run s ops d))"
  by (rule pg_service.run_users [OF assms(1) refl assms(2)])

definition demo_id :: "pgsim Ident" where
  "demo_id = \<lparr>id_db = sim_pg, id_argon2 = toy_argon2, id_jwt = ref_jwt, id_uuid = dec_uuid,
     id_issuer = NewIssuer ''key'' Minute Hour Hour\<rparr>"

definition demo_pg :: pgsim where
  "demo_pg = \<lparr>pg_db = db_empty 0, pg_supply = 1, pg_plan = []\<rparr>"

definition demo_draws :: draws where
  "demo_draws = \<lparr>dr_now = 0, dr_access = (0, ''a''), dr_refresh = (0, ''r''), dr_salt = Inr ''0123456789abcdef''\<rparr>"

definition demo_register :: registerRequest where
  "demo_register = \<lparr>rg_OrgName = ''Acme'', rg_Email = ''Ada@Acme.org'', rg_Password = ''correct horse'', rg_DisplayName = ''Ada''\<rparr>"

lemma demo_id_simps [simp]: "id_db demo_id = sim_pg" "id_argon2 demo_id = toy_argon2" "id_jwt demo_id = ref_jwt"
  "id_uuid demo_id = dec_uuid" "id_issuer demo_id = NewIssuer ''key'' Minute Hour Hour"
  by (simp_all add: demo_id_def)

lemma demo_users_ok [simp]: "users_ok (pg_db demo_pg)"
  by (simp add: users_ok_def demo_pg_def db_empty_def)

lemma sim_select_by_email:
  "pg_plan d = [] \<Longrightarrow> \<exists>rep d'. sim_pg (SelectUserByEmail e) d = (Inr rep, d') \<and> pg_plan d' = []"
  by (cases "sort_by_created (filter (\<lambda>r. sql_lower (ur_email r) = e) (db_users (pg_db d)))")
     (simp_all add: sim_pg_def sql_select_user_by_email_def pg_fail_def Let_def)

lemma TrimSpace_id:
  "first_strip space_runes s = None \<Longrightarrow> first_strip (map rev space_runes) (rev s) = None \<Longrightarrow> TrimSpace s = s"
  by (simp add: TrimSpace_def trim_left.simps [of space_runes] trim_left.simps [of "map rev space_runes"] image_iff)

theorem emails_stay_unique_witness:
  "users_ok (pg_db (id_run demo_id [OpRegister demo_draws (Inr demo_register), OpRegister demo_draws (Inr demo_register)] demo_pg)) \<and>
   users_evolve (pg_db demo_pg) (pg_db (id_run demo_id [OpRegister demo_draws (Inr demo_register), OpRegister demo_draws (Inr demo_register)] demo_pg))"
proof -
  have "pg_service (id_db demo_id) pg_db" using simpg.pg_service_axioms by simp
  then show ?thesis by (rule emails_stay_unique) simp
qed

text \<open>
  C33: who registered can log in. After a successful \<open>RegisterOrg\<close> and any further requests,
  \<open>Authenticate\<close> with the same password and any spelling of the email that normalizes to the same
  text finds that very user, an admin, as long as the database answers; it is refused only when the
  account has been disabled in between.
\<close>

theorem register_then_login:
  assumes "pg_service (id_db s) view" and "argon2_ok (id_argon2 s)" and "users_ok (view d)"
    and "RegisterOrg s (Inr salt) org email pw dn d = (Return (Inr u), d1)"
    and "normalizeEmail email' = normalizeEmail email"
    and "id_db s (SelectUserByEmail (normalizeEmail email)) (id_run s ops d1) = (Inr rep, d3)"
  shows "\<exists>r \<in> set (db_users (view (id_run s ops d1))). ur_id r = us_ID u \<and> ur_role r = ''admin'' \<and>
    Authenticate s email' pw (id_run s ops d1) =
      (Return (if ur_disabled r then Inl (Sentinel ErrDisabled) else Inr (scan_user r)), d3)"
proof -
  obtain hash r where h: "HashPassword (id_argon2 s) (Inr salt) pw = Return (Inr hash)"
    and r: "r \<in> set (db_users (view d1))" "u = scan_user r" "ur_email r = normalizeEmail email" "ur_hash r = hash" "ur_role r = ''admin''"
    and eff: "user_effect (RegisterOrgTx org (normalizeEmail email) hash dn) (db_users (view d)) (db_users (view d1))"
    using pg_service.RegisterOrg_row [OF assms(1) refl assms(4)] by blast
  have "users_ok (view d1)" using user_effect_ok [OF eff _ assms(3)] by (simp add: good_stmt_def)
  then have ok: "users_ok (view (id_run s ops d1))" and "users_evolve (view d1) (view (id_run s ops d1))"
    using pg_service.run_users [OF assms(1) refl] by auto
  then obtain r' where r': "r' \<in> set (db_users (view (id_run s ops d1)))" "user_le r r'"
    using r(1) by (auto simp: users_evolve_def)
  then have "ur_email r' = normalizeEmail email'" "ur_hash r' = hash" "ur_id r' = us_ID u" "ur_role r' = ''admin''"
    using user_le_keeps [OF r'(2)] r assms(5) by (auto simp: scan_user_def user_le_role)
  moreover have "VerifyPassword (id_argon2 s) pw hash = Return (Inr ())"
    using Verify_Hash [OF assms(2) h] by simp
  ultimately show ?thesis
    using pg_service.Authenticate_row [OF assms(1) refl ok r'(1), of email' rep d3 pw] assms(5,6) r'(1) by auto
qed

theorem register_then_login_witness:
  "\<exists>u d1. RegisterOrg demo_id (Inr ''0123456789abcdef'') ''Acme'' ''Ada@Acme.org'' ''correct horse'' ''Ada'' demo_pg = (Return (Inr u), d1) \<and>
     (\<exists>r \<in> set (db_users (pg_db d1)). \<exists>d3. ur_id r = us_ID u \<and> ur_role r = ''admin'' \<and>
       Authenticate demo_id ''ADA@acme.org'' ''correct horse'' d1 =
         (Return (if ur_disabled r then Inl (Sentinel ErrDisabled) else Inr (scan_user r)), d3))"
proof -
  have pg: "pg_service (id_db demo_id) pg_db" using simpg.pg_service_axioms by simp
  obtain u d1 where reg: "RegisterOrg demo_id (Inr ''0123456789abcdef'') ''Acme'' ''Ada@Acme.org'' ''correct horse'' ''Ada'' demo_pg
      = (Return (Inr u), d1)" "pg_plan d1 = []"
    by (simp add: RegisterOrg_def HashPassword_def toy_argon2_def argonTime_def argonThreads_def argonKeyLen_def sim_pg_def
        sql_register_org_def sql_insert_org_def sql_insert_user_def demo_pg_def db_empty_def pg_fail_def Let_def)
  obtain rep d3 where sel: "sim_pg (SelectUserByEmail (normalizeEmail ''Ada@Acme.org'')) d1 = (Inr rep, d3)"
    using sim_select_by_email [OF reg(2)] by blast
  have "TrimSpace ''ADA@acme.org'' = ''ADA@acme.org''" "TrimSpace ''Ada@Acme.org'' = ''Ada@Acme.org''"
    by (rule TrimSpace_id; code_simp)+
  then have n: "normalizeEmail ''ADA@acme.org'' = normalizeEmail ''Ada@Acme.org''"
    by (simp add: normalizeEmail_def ascii_lower_def char_of_def bit_0)
  from register_then_login [OF pg _ _ reg(1) n, of "[]" rep d3] sel reg(1) show ?thesis
    by auto
qed

text \<open>
  No login is answered without deriving a key. Whenever the lookup of the email succeeds, with
  a row or without one, \<open>Authenticate\<close> runs Argon2id with the parameters of the package before it
  answers: were the derivation to panic on these parameters, every login would panic. So the answer to
  an unknown email costs what the answer to a wrong password costs.
\<close>

theorem login_always_hashes:
  assumes "pg_service (id_db s) view"
    and "id_db s (SelectUserByEmail (normalizeEmail email)) d = (Inr rep, d1)"
    and "list_all (\<lambda>r. package_hash (ur_hash r)) (db_users (view d))"
    and "id_argon2 s = (\<lambda>pw salt t m p n. if t = argonTime \<and> m = argonMemory \<and> p = argonThreads
           then Panic msg else idkey pw salt t m p n)"
  shows "Authenticate s email pw d = (Panic msg, d1)"
  by (rule pg_service.Authenticate_hashes [OF assms(1) refl assms(2,3)]) (simp add: assms(4))

theorem login_always_hashes_witness:
  "\<exists>d1. Authenticate (demo_id\<lparr>id_argon2 := (\<lambda>pw salt t m p n. if t = argonTime \<and> m = argonMemory \<and> p = argonThreads
     then Panic ''called'' else toy_argon2 pw salt t m p n)\<rparr>) ''nobody@acme.org'' ''guess'' demo_pg = (Panic ''called'', d1)"
proof -
  let ?s = "demo_id\<lparr>id_argon2 := (\<lambda>pw salt t m p n. if t = argonTime \<and> m = argonMemory \<and> p = argonThreads
     then Panic ''called'' else toy_argon2 pw salt t m p n)\<rparr>"
  have pg: "pg_service (id_db ?s) pg_db" using simpg.pg_service_axioms by simp
  obtain rep d1 where sel: "id_db ?s (SelectUserByEmail (normalizeEmail ''nobody@acme.org'')) demo_pg = (Inr rep, d1)"
    using sim_select_by_email [of demo_pg "normalizeEmail ''nobody@acme.org''"] by (auto simp: demo_pg_def)
  have "list_all (\<lambda>r. package_hash (ur_hash r)) (db_users (pg_db demo_pg))" by (simp add: demo_pg_def db_empty_def)
  then have "Authenticate ?s ''nobody@acme.org'' ''guess'' demo_pg = (Panic ''called'', d1)"
    by (rule login_always_hashes [OF pg sel, where idkey = toy_argon2]) simp
  then show ?thesis ..
qed

text \<open>
  C34: administration stays within the organization. A caller who is not an admin gets 401 or 403
  and changes nothing; an admin's request leaves every user of every other organization as it was, and
  a request to disable leaves the admin's own account as it was.
\<close>

theorem admin_scope:
  assumes "pg_service (id_db s) view"
    and "op = OpCreateUser dr q r \<or> op = OpListUsers r \<or> op = OpSetDisabled b r"
  shows "(case requireAdmin r of
      Inl resp \<Rightarrow> id_serve s op d = (Return resp, d) \<and> rs_status resp \<in> {StatusUnauthorized, StatusForbidden}
    | Inr p \<Rightarrow> FromContext r = Some p \<and> pr_Role p = ''admin'' \<and>
        filter (\<lambda>u. ur_org u \<noteq> pr_OrgID p \<or> ur_id u = pr_UserID p \<and> op = OpSetDisabled True r)
            (db_users (view (snd (id_serve s op d)))) =
          filter (\<lambda>u. ur_org u \<noteq> pr_OrgID p \<or> ur_id u = pr_UserID p \<and> op = OpSetDisabled True r) (db_users (view d)))"
proof (cases "requireAdmin r")
  case (Inl resp)
  then have "rs_status resp \<in> {StatusUnauthorized, StatusForbidden}"
    by (auto simp: requireAdmin_def split: option.splits if_splits)
  moreover have "id_serve s op d = (Return resp, d)"
    using assms(2) Inl
    by (elim disjE) (simp_all add: handle_CreateUser_def handle_ListUsers_def handle_SetUserDisabled_def)
  ultimately show ?thesis using Inl by simp
next
  case (Inr p)
  let ?P = "\<lambda>u. ur_org u \<noteq> pr_OrgID p \<or> ur_id u = pr_UserID p \<and> op = OpSetDisabled True r"
  have "filter ?P (db_users (view (snd (id_serve s op d)))) = filter ?P (db_users (view d))"
  proof (cases "snd (id_serve s op d) = d")
    case False
    then obtain q x where q: "op_stmt s op q" "id_db s q d = (x, snd (id_serve s op d))"
      using serve_ran [of s op d] unfolding ran_def by blast
    have "user_effect q (db_users (view d)) (db_users (view (snd (id_serve s op d))))"
      by (rule pg_service.pg_user_effect [OF assms(1) q(2)])
    then show ?thesis by (rule admin_effect [OF q(1) _ assms(2) Inr])
  qed simp
  moreover have "FromContext r = Some p \<and> pr_Role p = ''admin''" using Inr by (simp only: requireAdmin_Inr)
  ultimately show ?thesis using Inr by simp
qed

definition admin_request :: request where
  "admin_request = \<lparr>rq_method = ''POST'', rq_path = ''/v1/users/9/disable'', rq_query = [], rq_header = [],
     rq_pathvals = [(''id'', ''9'')], rq_RemoteAddr = ''10.0.0.7:5000'',
     rq_principal = Some \<lparr>pr_UserID = 2, pr_OrgID = 1, pr_Role = ''admin''\<rparr>\<rparr>"

theorem admin_scope_witness:
  "filter (\<lambda>u. ur_org u \<noteq> 1 \<or> ur_id u = 2) (db_users (pg_db (snd (id_serve demo_id (OpSetDisabled True admin_request) demo_pg)))) =
   filter (\<lambda>u. ur_org u \<noteq> 1 \<or> ur_id u = 2) (db_users (pg_db demo_pg))"
proof -
  have pg: "pg_service (id_db demo_id) pg_db" using simpg.pg_service_axioms by simp
  have "requireAdmin admin_request = Inr \<lparr>pr_UserID = 2, pr_OrgID = 1, pr_Role = ''admin''\<rparr>"
    by (simp add: requireAdmin_def admin_request_def FromContext_def)
  with admin_scope [OF pg, of "OpSetDisabled True admin_request" _ _ admin_request True demo_pg] show ?thesis by simp
qed

end
