(* ===== verification/Recordings.thy ===== *)
theory Recordings
  imports Auth Postgres_Service
begin

text \<open>
  Recordings (\<open>recordings/service.go\<close>, \<open>recordings/handlers.go\<close>): metadata rows for
  objects that clients upload straight to the bucket. The presigner is the Go interface
  \<open>Presigner\<close>, a field of the record \<open>Recs\<close>; its implementation is in the theory
  \<open>S3_Presign\<close>. The identifier of a new recording (\<open>uuid.New\<close>) is an argument.
\<close>

section \<open>Data\<close>

definition MaxRecordingSizeBytes :: int where
  "MaxRecordingSizeBytes = 10 * 2 ^ 30"

definition ErrInvalidSize :: string where
  "ErrInvalidSize = ''size_bytes must be positive and within the allowed maximum''"

record Recording =
  re_ID :: uuid
  re_SessionID :: uuid
  re_ObjectKey :: string
  re_Content :: string
  re_SizeBytes :: int
  re_Status :: string
  re_CreatedAt :: time

record Upload =
  up_RecordingID :: uuid
  up_ObjectKey :: string
  up_URL :: string
  up_ExpiresIn :: int

text \<open>\<open>Presigner.PresignPut(objectKey, contentType, expiry)\<close>.\<close>

type_synonym presigner = "string \<Rightarrow> string \<Rightarrow> duration \<Rightarrow> string res"

record 'd Recs =
  rc_db :: "'d pg_client"
  rc_presigner :: presigner
  rc_urlTTL :: duration
  rc_uuid :: uuid_pkg

text \<open>
  \<open>int(d.Seconds())\<close>: towards zero. (Go goes through a 64-bit float; the result is this one for
  whole seconds and for every duration below ninety days.)
\<close>

definition whole_seconds :: "duration \<Rightarrow> int" where
  "whole_seconds d = sgn d * (\<bar>d\<bar> div Second)"

fun status_text :: "recording_status \<Rightarrow> string" where
  "status_text RecPending = ''pending''"
| "status_text RecAvailable = ''available''"
| "status_text RecFailed = ''failed''"

definition scan_recording :: "recording_row \<Rightarrow> Recording" where
  "scan_recording r = \<lparr>re_ID = rr_id r, re_SessionID = rr_session r, re_ObjectKey = rr_key r,
     re_Content = rr_content r, re_SizeBytes = rr_size r, re_Status = status_text (rr_status r),
     re_CreatedAt = rr_created r\<rparr>"

section \<open>The service\<close>

definition object_key :: "'d Recs \<Rightarrow> uuid \<Rightarrow> uuid \<Rightarrow> string" where
  "object_key s sessionID recordingID = ''recordings/'' @ uuid_String (rc_uuid s) sessionID @ ''/'' @
     uuid_String (rc_uuid s) recordingID @ ''.webm''"

definition CreateUpload ::
  "'d Recs \<Rightarrow> uuid \<Rightarrow> uuid \<Rightarrow> uuid \<Rightarrow> string \<Rightarrow> 'd \<Rightarrow> Upload res \<times> 'd" where
  "CreateUpload s recordingID orgID sessionID contentType d =
     (let content = (if contentType = '''' then ''video/webm'' else contentType);
          objectKey = object_key s sessionID recordingID
      in case rc_db s (SessionInOrg sessionID orgID) d of
           (Inl e, d1) \<Rightarrow> (Inl e, d1)
         | (Inr (PgBool exists), d1) \<Rightarrow>
             if \<not> exists then (Inl (ErrNew ''session not found''), d1)
             else (case rc_presigner s objectKey content (rc_urlTTL s) of
               Inl e \<Rightarrow> (Inl (ErrWrap ''presign'' e), d1)
             | Inr url \<Rightarrow>
                 (case rc_db s (InsertRecording recordingID sessionID orgID objectKey content) d1 of
                    (Inl e, d2) \<Rightarrow> (Inl e, d2)
                  | (Inr _, d2) \<Rightarrow>
                      (Inr \<lparr>up_RecordingID = recordingID, up_ObjectKey = objectKey, up_URL = url,
                            up_ExpiresIn = whole_seconds (rc_urlTTL s)\<rparr>, d2)))
         | (Inr _, d1) \<Rightarrow> (Inl (ErrExt ''unexpected reply''), d1))"

definition Complete :: "'d Recs \<Rightarrow> uuid \<Rightarrow> uuid \<Rightarrow> int \<Rightarrow> 'd \<Rightarrow> unit res \<times> 'd" where
  "Complete s orgID recordingID sizeBytes d =
     (if sizeBytes \<le> 0 \<or> MaxRecordingSizeBytes < sizeBytes then (Inl (Sentinel ErrInvalidSize), d)
      else case rc_db s (CompleteRecording sizeBytes recordingID orgID) d of
        (Inl e, d1) \<Rightarrow> (Inl e, d1)
      | (Inr (PgCount n), d1) \<Rightarrow>
          (if n = 0 then Inl (ErrNew ''recording not found or already finalized'') else Inr (), d1)
      | (Inr _, d1) \<Rightarrow> (Inl (ErrExt ''unexpected reply''), d1))"

definition List :: "'d Recs \<Rightarrow> uuid \<Rightarrow> uuid \<Rightarrow> 'd \<Rightarrow> Recording list res \<times> 'd" where
  "List s orgID sessionID d =
     (case rc_db s (SelectRecordings sessionID orgID) d of
        (Inl e, d1) \<Rightarrow> (Inl e, d1)
      | (Inr (PgRecordings rs), d1) \<Rightarrow> (Inr (map scan_recording rs), d1)
      | (Inr _, d1) \<Rightarrow> (Inl (ErrExt ''unexpected reply''), d1))"

section \<open>Handlers\<close>

text \<open>
  The handlers ignore the error of \<open>DecodeJSON\<close>: \<open>req\<close> is what decoding left in the
  request struct, possibly its zero value.
\<close>

definition Upload_json :: "'d Recs \<Rightarrow> Upload \<Rightarrow> json" where
  "Upload_json s up = JObj
     [(''recording_id'', JStr (uuid_String (rc_uuid s) (up_RecordingID up))),
      (''object_key'', JStr (up_ObjectKey up)), (''upload_url'', JStr (up_URL up)),
      (''expires_in_seconds'', JInt (up_ExpiresIn up))]"

definition Recording_json :: "'d Recs \<Rightarrow> Recording \<Rightarrow> json" where
  "Recording_json s r = JObj
     [(''id'', JStr (uuid_String (rc_uuid s) (re_ID r))),
      (''session_id'', JStr (uuid_String (rc_uuid s) (re_SessionID r))),
      (''object_key'', JStr (re_ObjectKey r)), (''content_type'', JStr (re_Content r)),
      (''size_bytes'', JInt (re_SizeBytes r)), (''status'', JStr (re_Status r)),
      (''created_at'', JTime (re_CreatedAt r))]"

record createUploadRequest =
  cr_ContentType :: string

record completeRequest =
  co_SizeBytes :: int

definition handle_CreateUpload :: "'d Recs \<Rightarrow> uuid \<Rightarrow> createUploadRequest \<Rightarrow> 'd handler" where
  "handle_CreateUpload s recordingID req r d =
     (case FromContext r of
        None \<Rightarrow> (WriteError StatusUnauthorized ''unauthenticated'', d)
      | Some p \<Rightarrow>
          if pr_Role p = ''viewer'' then (WriteError StatusForbidden ''viewers cannot create recordings'', d)
          else case uuid_Parse (rc_uuid s) (PathValue r ''id'') of
            None \<Rightarrow> (WriteError StatusBadRequest ''invalid session id'', d)
          | Some sessionID \<Rightarrow>
              (case CreateUpload s recordingID (pr_OrgID p) sessionID (cr_ContentType req) d of
                 (Inl e, d1) \<Rightarrow> (WriteError StatusBadRequest (err_Error e), d1)
               | (Inr up, d1) \<Rightarrow> (WriteJSON StatusCreated (Some (Upload_json s up)), d1)))"

definition handle_Complete :: "'d Recs \<Rightarrow> completeRequest \<Rightarrow> 'd handler" where
  "handle_Complete s req r d =
     (case FromContext r of
        None \<Rightarrow> (WriteError StatusUnauthorized ''unauthenticated'', d)
      | Some p \<Rightarrow>
          if pr_Role p = ''viewer'' then (WriteError StatusForbidden ''viewers cannot complete recordings'', d)
          else case uuid_Parse (rc_uuid s) (PathValue r ''id'') of
            None \<Rightarrow> (WriteError StatusBadRequest ''invalid recording id'', d)
          | Some recordingID \<Rightarrow>
              (case Complete s (pr_OrgID p) recordingID (co_SizeBytes req) d of
                 (Inl e, d1) \<Rightarrow> (WriteError StatusBadRequest (err_Error e), d1)
               | (Inr _, d1) \<Rightarrow> (WriteJSON StatusOK (Some (JObj [(''status'', JStr ''available'')])), d1)))"

definition handle_List :: "'d Recs \<Rightarrow> 'd handler" where
  "handle_List s r d =
     (case FromContext r of
        None \<Rightarrow> (WriteError StatusUnauthorized ''unauthenticated'', d)
      | Some p \<Rightarrow>
          (case uuid_Parse (rc_uuid s) (PathValue r ''id'') of
             None \<Rightarrow> (WriteError StatusBadRequest ''invalid session id'', d)
           | Some sessionID \<Rightarrow>
               (case List s (pr_OrgID p) sessionID d of
                  (Inl e, d1) \<Rightarrow> (WriteError StatusInternalServerError ''could not list recordings'', d1)
                | (Inr list, d1) \<Rightarrow>
                    (WriteJSON StatusOK (Some (JObj [(''recordings'',
                       if list = [] then JNull else JArr (map (Recording_json s) list))])), d1))))"

section \<open>The recordings table\<close>

text \<open>
  Every recording belongs to a session of its own organization, and its size is zero until it is
  available and within bounds afterwards.
\<close>

definition rec_row_ok :: "db \<Rightarrow> recording_row \<Rightarrow> bool" where
  "rec_row_ok d r \<longleftrightarrow> list_ex (\<lambda>x. sr_id x = rr_session r \<and> sr_org x = rr_org r) (db_sessions d) \<and>
     (case rr_status r of
        RecPending \<Rightarrow> rr_size r = 0
      | RecAvailable \<Rightarrow> 0 < rr_size r \<and> rr_size r \<le> MaxRecordingSizeBytes
      | RecFailed \<Rightarrow> True)"

definition recordings_ok :: "db \<Rightarrow> bool" where
  "recordings_ok d = list_all (rec_row_ok d) (db_recordings d)"

text \<open>What completing makes of a row.\<close>

definition complete_row :: "int \<Rightarrow> uuid \<Rightarrow> uuid \<Rightarrow> time \<Rightarrow> recording_row \<Rightarrow> recording_row" where
  "complete_row sz rid org t r = (if rr_id r = rid \<and> rr_org r = org \<and> rr_status r = RecPending
     then r\<lparr>rr_status := RecAvailable, rr_size := sz, rr_completed := Some t\<rparr> else r)"

lemma complete_run:
  "db_recordings (snd (sql_complete_recording sz rid org d)) = map (complete_row sz rid org (db_clock d)) (db_recordings d)"
  "db_sessions (snd (sql_complete_recording sz rid org d)) = db_sessions d"
  unfolding complete_row_def [abs_def] by (simp_all add: sql_complete_recording_def sql_update_def Let_def)

text \<open>
  What one request of a member of the organization \<open>org\<close> may do to the table: nothing, append a
  pending row under an unused identifier for a session of the organization, or complete the
  pending rows with one identifier in the organization.
\<close>

inductive rec_step :: "uuid \<Rightarrow> db \<Rightarrow> db \<Rightarrow> bool" for org :: uuid where
  rec_same: "db_sessions d' = db_sessions d \<Longrightarrow> db_recordings d' = db_recordings d \<Longrightarrow> rec_step org d d'"
| rec_add: "db_sessions d' = db_sessions d \<Longrightarrow> db_recordings d' = db_recordings d @ [r] \<Longrightarrow>
    rr_org r = org \<Longrightarrow> rr_status r = RecPending \<Longrightarrow> rr_size r = 0 \<Longrightarrow>
    list_ex (\<lambda>x. sr_id x = rr_session r \<and> sr_org x = org) (db_sessions d) \<Longrightarrow>
    \<not> list_ex (\<lambda>x. rr_id x = rr_id r) (db_recordings d) \<Longrightarrow> rec_step org d d'"
| rec_complete: "db_sessions d' = db_sessions d \<Longrightarrow>
    db_recordings d' = map (complete_row sz rid org t) (db_recordings d) \<Longrightarrow>
    0 < sz \<Longrightarrow> sz \<le> MaxRecordingSizeBytes \<Longrightarrow> rec_step org d d'"

inductive_cases rec_stepE: "rec_step org d d'"

text \<open>How a row may change over time: not at all, or once, from pending to available.\<close>

definition rec_le :: "recording_row \<Rightarrow> recording_row \<Rightarrow> bool" where
  "rec_le r r' \<longleftrightarrow> r' = r \<or> rr_status r = RecPending \<and>
     r' = r\<lparr>rr_status := RecAvailable, rr_size := rr_size r', rr_completed := rr_completed r'\<rparr>"

definition recordings_evolve :: "db \<Rightarrow> db \<Rightarrow> bool" where
  "recordings_evolve d d' \<longleftrightarrow> length (db_recordings d) \<le> length (db_recordings d') \<and>
     list_all2 rec_le (db_recordings d) (take (length (db_recordings d)) (db_recordings d'))"

text \<open>The identifier \<open>rid\<close> is taken, and no row with it is pending in the organization.\<close>

definition settled :: "uuid \<Rightarrow> uuid \<Rightarrow> db \<Rightarrow> bool" where
  "settled org rid d \<longleftrightarrow> list_ex (\<lambda>r. rr_id r = rid) (db_recordings d) \<and>
     \<not> list_ex (\<lambda>r. rr_id r = rid \<and> rr_org r = org \<and> rr_status r = RecPending) (db_recordings d)"

lemma rec_le_refl [simp]: "rec_le r r"
  by (simp add: rec_le_def)

lemma rec_le_trans [trans]: "rec_le a b \<Longrightarrow> rec_le b c \<Longrightarrow> rec_le a c"
  by (cases a; cases b; cases c) (auto simp: rec_le_def)

lemma complete_row_simps [simp]:
  "rr_id (complete_row sz rid org t r) = rr_id r" "rr_org (complete_row sz rid org t r) = rr_org r"
  "rr_status (complete_row sz rid org t r) = RecPending \<longleftrightarrow>
     rr_status r = RecPending \<and> \<not> (rr_id r = rid \<and> rr_org r = org)"
  by (auto simp: complete_row_def)

lemma complete_row_le [simp]: "rec_le r (complete_row sz rid org t r)"
  by (simp add: rec_le_def complete_row_def)

lemma rec_step_ok: "rec_step org d d' \<Longrightarrow> recordings_ok d \<Longrightarrow> recordings_ok d'"
  by (erule rec_stepE) (auto simp: recordings_ok_def rec_row_ok_def complete_row_def list_all_iff)

lemma rec_step_others:
  "rec_step org d d' \<Longrightarrow> filter (\<lambda>r. rr_org r \<noteq> org) (db_recordings d') = filter (\<lambda>r. rr_org r \<noteq> org) (db_recordings d)"
proof (erule rec_stepE)
  fix sz rid t
  have "filter (\<lambda>r. rr_org r \<noteq> org) (map (complete_row sz rid org t) rs) = filter (\<lambda>r. rr_org r \<noteq> org) rs" for rs
    by (induction rs) (simp_all add: complete_row_def)
  then show "db_recordings d' = map (complete_row sz rid org t) (db_recordings d) \<Longrightarrow> ?thesis" by simp
qed simp_all

lemma recordings_evolve_refl [simp]: "recordings_evolve d d"
  by (simp add: recordings_evolve_def list_all2_refl)

lemma rec_step_evolve: "rec_step org d d' \<Longrightarrow> recordings_evolve d d'"
  by (erule rec_stepE) (auto simp: recordings_evolve_def list_all2_refl list_all2_conv_all_nth)

lemma recordings_evolve_trans:
  assumes "recordings_evolve a b" and "recordings_evolve b c"
  shows "recordings_evolve a c"
  using assms rec_le_trans by (fastforce simp: recordings_evolve_def list_all2_conv_all_nth)

lemma rec_step_settled: "rec_step org' d d' \<Longrightarrow> settled org rid d \<Longrightarrow> settled org rid d'"
  by (erule rec_stepE) (auto simp: settled_def list_ex_iff)

section \<open>Requests as steps\<close>

context pg_service
begin

lemma CreateUpload_step:
  assumes "rc_db s = pg"
  shows "rec_step org (pg_view d) (pg_view (snd (CreateUpload s rid org sid ct d)))"
proof -
  obtain x d1 where q: "pg (SessionInOrg sid org) d = (x, d1)" by fastforce
  then have same: "db_sessions (pg_view d1) = db_sessions (pg_view d)" "db_recordings (pg_view d1) = db_recordings (pg_view d)"
    by (rule pg_cases, simp_all add: sql_session_in_org_def)+
  have "rec_step org (pg_view d) (pg_view d2)"
    if x: "x = Inr (PgBool True)" and i: "pg (InsertRecording rid sid org k c) d1 = (y, d2)" for k c y d2
  proof -
    have "list_ex (\<lambda>r. sr_id r = sid \<and> sr_org r = org) (db_sessions (pg_view d))"
      using pg_ok [of "SessionInOrg sid org" d "PgBool True" d1] q x by (auto simp: sql_session_in_org_def)
    with same show ?thesis using i
      by (elim pg_cases) (auto simp: sql_insert_recording_def intro: rec_same rec_add)
  qed
  moreover have "rec_step org (pg_view d) (pg_view d1)" using same by (rule rec_same)
  ultimately show ?thesis using q assms
    by (auto simp: CreateUpload_def Let_def split: sum.split pg_reply.split prod.split)
qed

lemma Complete_step:
  assumes "rc_db s = pg"
  shows "rec_step org (pg_view d) (pg_view (snd (Complete s org rid sz d)))"
proof (cases "sz \<le> 0 \<or> MaxRecordingSizeBytes < sz")
  case False
  obtain x d1 where q: "pg (CompleteRecording sz rid org) d = (x, d1)" by fastforce
  then have "rec_step org (pg_view d) (pg_view d1)"
    by (rule pg_cases) (use False in \<open>auto simp: complete_run intro: rec_same rec_complete\<close>)
  with q False assms show ?thesis by (simp add: Complete_def split: sum.split pg_reply.split)
qed (simp add: Complete_def rec_same)

lemma List_same:
  assumes "rc_db s = pg"
  shows "db_sessions (pg_view (snd (List s org sid d))) = db_sessions (pg_view d)"
    and "db_recordings (pg_view (snd (List s org sid d))) = db_recordings (pg_view d)"
proof -
  obtain x d1 where q: "pg (SelectRecordings sid org) d = (x, d1)" by fastforce
  then have "db_sessions (pg_view d1) = db_sessions (pg_view d) \<and> db_recordings (pg_view d1) = db_recordings (pg_view d)"
    by (rule pg_cases) (simp_all add: sql_select_recordings_def)
  with q assms show "db_sessions (pg_view (snd (List s org sid d))) = db_sessions (pg_view d)"
    "db_recordings (pg_view (snd (List s org sid d))) = db_recordings (pg_view d)"
    by (simp_all add: List_def split: sum.split pg_reply.split)
qed

lemmas List_step = rec_same [OF List_same]

lemma Complete_success:
  assumes "rc_db s = pg" and "Complete s org rid sz d = (Inr (), d')"
  obtains t where "0 < sz" and "sz \<le> MaxRecordingSizeBytes" and "db_clock (pg_view d) \<le> t"
    and "list_ex (\<lambda>r. rr_id r = rid \<and> rr_org r = org \<and> rr_status r = RecPending) (db_recordings (pg_view d))"
    and "db_recordings (pg_view d') = map (complete_row sz rid org t) (db_recordings (pg_view d))"
proof -
  from assms obtain n where sz: "0 < sz" "sz \<le> MaxRecordingSizeBytes" and n: "n \<noteq> 0"
    and q: "pg (CompleteRecording sz rid org) d = (Inr (PgCount n), d')"
    by (auto simp: Complete_def split: if_splits sum.splits prod.splits pg_reply.splits)
  from pg_ok [OF q] obtain t g g' where t: "db_clock (pg_view d) \<le> t"
    and r: "sql_complete_recording sz rid org ((pg_view d)\<lparr>db_clock := t\<rparr>) = (PgCount n, pg_view d')" by auto
  have "db_recordings (pg_view d') = map (complete_row sz rid org t) (db_recordings (pg_view d))"
    using complete_run(1) [of sz rid org "(pg_view d)\<lparr>db_clock := t\<rparr>"] r by simp
  moreover have "list_ex (\<lambda>r. rr_id r = rid \<and> rr_org r = org \<and> rr_status r = RecPending) (db_recordings (pg_view d))"
    using r n by (auto simp: sql_complete_recording_def sql_update_def Let_def list_ex_iff filter_empty_conv)
  ultimately show thesis using that sz t by blast
qed

end

section \<open>The table under every sequence of requests\<close>

datatype rec_op =
    RecCreate uuid createUploadRequest request
  | RecComplete completeRequest request
  | RecList request

fun rec_request :: "rec_op \<Rightarrow> request" where
  "rec_request (RecCreate _ _ r) = r"
| "rec_request (RecComplete _ r) = r"
| "rec_request (RecList r) = r"

fun rec_serve :: "'d Recs \<Rightarrow> rec_op \<Rightarrow> 'd \<Rightarrow> response \<times> 'd" where
  "rec_serve s (RecCreate rid q r) d = handle_CreateUpload s rid q r d"
| "rec_serve s (RecComplete q r) d = handle_Complete s q r d"
| "rec_serve s (RecList r) d = handle_List s r d"

fun rec_run :: "'d Recs \<Rightarrow> rec_op list \<Rightarrow> 'd \<Rightarrow> 'd" where
  "rec_run s [] d = d"
| "rec_run s (op # ops) d = rec_run s ops (snd (rec_serve s op d))"

context pg_service
begin

lemma rec_serve_step:
  assumes "rc_db s = pg" and "FromContext (rec_request op) = Some p"
  shows "rec_step (pr_OrgID p) (pg_view d) (pg_view (snd (rec_serve s op d)))"
  using assms CreateUpload_step [OF assms(1)] Complete_step [OF assms(1)] List_step [OF assms(1)]
  by (cases op) (auto simp: handle_CreateUpload_def handle_Complete_def handle_List_def rec_same
    split: option.split sum.split prod.split; metis snd_conv)+

lemma rec_serve_any:
  assumes "rc_db s = pg"
  obtains org where "rec_step org (pg_view d) (pg_view (snd (rec_serve s op d)))"
proof (cases "FromContext (rec_request op)")
  case None
  then have "snd (rec_serve s op d) = d"
    by (cases op) (simp_all add: handle_CreateUpload_def handle_Complete_def handle_List_def)
  then show thesis using that rec_same by metis
next
  case (Some p)
  then show thesis using that rec_serve_step [OF assms] by blast
qed

lemma rec_run_invariant:
  assumes "rc_db s = pg"
  shows "recordings_ok (pg_view d) \<Longrightarrow> recordings_ok (pg_view (rec_run s ops d))"
    and "recordings_evolve (pg_view d) (pg_view (rec_run s ops d))"
    and "settled org rid (pg_view d) \<Longrightarrow> settled org rid (pg_view (rec_run s ops d))"
proof (induction ops arbitrary: d)
  case (Cons op ops)
  have st: "\<exists>o'. rec_step o' (pg_view e) (pg_view (snd (rec_serve s op e)))" for e
    by (rule rec_serve_any [OF assms]) blast
  { case 1 with st [of d] Cons.IH(1) rec_step_ok show ?case by (metis rec_run.simps(2))
  next case 2 with st [of d] Cons.IH(2) rec_step_evolve recordings_evolve_trans show ?case by (metis rec_run.simps(2))
  next case 3 with st [of d] Cons.IH(3) rec_step_settled show ?case by (metis rec_run.simps(2)) }
qed simp_all

lemma Complete_settled:
  assumes "rc_db s = pg" and "settled org rid (pg_view d)"
  shows "\<exists>e. fst (Complete s org rid sz d) = Inl e"
proof (rule ccontr)
  assume "\<not> ?thesis"
  then obtain d' where "Complete s org rid sz d = (Inr (), d')"
    by (metis prod.collapse sum.exhaust old.unit.exhaust)
  from Complete_success [OF assms(1) this] assms(2) show False by (auto simp: settled_def)
qed

end

text \<open>
  C37: whatever recording requests arrive, in any order and with any failures of the database,
  every recording keeps belonging to a session of its own organization, sizes are zero until
  completion and between 1 byte and 10 GiB afterwards, and no row is dropped or changed except for
  one step from pending to available.
\<close>

theorem recordings_lifecycle:
  assumes "pg_service (rc_db s) view" and "recordings_ok (view d)"
  shows "recordings_ok (view (rec_run s ops d)) \<and> recordings_evolve (view d) (view (rec_run s ops d))"
proof -
  note P = pg_service.rec_run_invariant [OF assms(1) refl]
  show ?thesis using P(1) [OF assms(2)] P(2) by blast
qed

definition demo_recs :: "pgsim Recs" where
  "demo_recs = \<lparr>rc_db = sim_pg, rc_presigner = (\<lambda>k c e. Inr (''https://s3/'' @ k)), rc_urlTTL = 15 * Minute,
     rc_uuid = \<lparr>uuid_String = (\<lambda>u. ''x''), uuid_Parse = (\<lambda>t. if t = ''s1'' then Some 1 else if t = ''r7'' then Some 7 else None)\<rparr>\<rparr>"

definition demo_rec_db :: pgsim where
  "demo_rec_db = \<lparr>pg_db = (db_empty 0)\<lparr>db_orgs := [\<lparr>or_id = 5, or_name = ''acme'', or_created = 0\<rparr>],
       db_sessions := [\<lparr>sr_id = 1, sr_org = 5, sr_agent = 9, sr_connect = ''c'', sr_status = Active,
         sr_created = 0, sr_connected = Some 0, sr_ended = None\<rparr>]\<rparr>, pg_supply = 20, pg_plan = []\<rparr>"

definition rec_caller :: "uuid \<Rightarrow> string \<Rightarrow> request" where
  "rec_caller org path_id = \<lparr>rq_method = ''POST'', rq_path = '''', rq_query = [], rq_header = [],
     rq_pathvals = [(''id'', path_id)], rq_RemoteAddr = '''',
     rq_principal = Some \<lparr>pr_UserID = 9, pr_OrgID = org, pr_Role = ''agent''\<rparr>\<rparr>"

definition demo_rec_ops :: "rec_op list" where
  "demo_rec_ops = [RecCreate 7 \<lparr>cr_ContentType = ''''\<rparr> (rec_caller 5 ''s1''),
     RecComplete \<lparr>co_SizeBytes = 2048\<rparr> (rec_caller 6 ''r7''), RecComplete \<lparr>co_SizeBytes = 1024\<rparr> (rec_caller 5 ''r7'')]"

lemma demo_recs_service: "pg_service (rc_db demo_recs) pg_db"
  using simpg.pg_service_axioms by (simp add: demo_recs_def)

theorem recordings_lifecycle_witness:
  "recordings_ok (pg_db (rec_run demo_recs demo_rec_ops demo_rec_db)) \<and>
   map rr_size (db_recordings (pg_db (rec_run demo_recs demo_rec_ops demo_rec_db))) = [1024]"
proof -
  have "recordings_ok (pg_db demo_rec_db)" by code_simp
  from recordings_lifecycle [OF demo_recs_service this, of demo_rec_ops]
  show ?thesis by (rule conjI [OF conjunct1]) code_simp
qed

text \<open>
  C38: an unauthenticated recording request is answered 401 and touches nothing; a request of an
  authenticated caller leaves the recordings of all other organizations as they were, and a
  viewer's request leaves the whole table as it was.
\<close>

theorem recordings_tenant_scope:
  assumes "pg_service (rc_db s) view"
  shows "case FromContext (rec_request op) of
      None \<Rightarrow> rec_serve s op d = (WriteError StatusUnauthorized ''unauthenticated'', d)
    | Some p \<Rightarrow>
        filter (\<lambda>r. rr_org r \<noteq> pr_OrgID p) (db_recordings (view (snd (rec_serve s op d)))) =
          filter (\<lambda>r. rr_org r \<noteq> pr_OrgID p) (db_recordings (view d)) \<and>
        (pr_Role p = ''viewer'' \<longrightarrow> db_recordings (view (snd (rec_serve s op d))) = db_recordings (view d))"
proof (cases "FromContext (rec_request op)")
  case None
  then show ?thesis by (cases op) (simp_all add: handle_CreateUpload_def handle_Complete_def handle_List_def)
next
  case (Some p)
  have "db_recordings (view (snd (rec_serve s op d))) = db_recordings (view d)" if "pr_Role p = ''viewer''"
  proof (cases op)
    case (RecList r)
    then show ?thesis using Some pg_service.List_same(2) [OF assms refl, of "pr_OrgID p" _ d]
      by (auto simp: handle_List_def split: option.split sum.split prod.split; metis snd_conv)
  qed (use Some that in \<open>simp_all add: handle_CreateUpload_def handle_Complete_def\<close>)
  then show ?thesis using Some rec_step_others [OF pg_service.rec_serve_step [OF assms refl Some]] by simp
qed

theorem recordings_tenant_scope_witness:
  "filter (\<lambda>r. rr_org r \<noteq> 6) (db_recordings (pg_db (snd (rec_serve demo_recs (demo_rec_ops ! 1) (rec_run demo_recs (take 1 demo_rec_ops) demo_rec_db))))) =
     filter (\<lambda>r. rr_org r \<noteq> 6) (db_recordings (pg_db (rec_run demo_recs (take 1 demo_rec_ops) demo_rec_db)))"
proof -
  have "FromContext (rec_request (demo_rec_ops ! 1)) = Some \<lparr>pr_UserID = 9, pr_OrgID = 6, pr_Role = ''agent''\<rparr>"
    by (simp add: demo_rec_ops_def rec_caller_def FromContext_def)
  with recordings_tenant_scope [OF demo_recs_service, of "demo_rec_ops ! 1" "rec_run demo_recs (take 1 demo_rec_ops) demo_rec_db"]
  show ?thesis by simp
qed

text \<open>
  Completing a recording takes effect exactly once. When the handler answers 200, the reported
  size is within bounds, the caller's organization had a pending row with that identifier, and
  exactly those rows became available with that size, everything else unchanged. From then on,
  after any further recording requests, no attempt to complete the same identifier in the same
  organization is answered 200.
\<close>

theorem complete_at_most_once:
  assumes "pg_service (rc_db s) view"
    and "FromContext r = Some p" and "uuid_Parse (rc_uuid s) (PathValue r ''id'') = Some rid"
    and "handle_Complete s q r d = (resp, d1)" and "rs_status resp = StatusOK"
    and "FromContext r' = Some p'" and "pr_OrgID p' = pr_OrgID p"
    and "uuid_Parse (rc_uuid s) (PathValue r' ''id'') = Some rid"
  shows "0 < co_SizeBytes q \<and> co_SizeBytes q \<le> MaxRecordingSizeBytes \<and>
    list_ex (\<lambda>x. rr_id x = rid \<and> rr_org x = pr_OrgID p \<and> rr_status x = RecPending) (db_recordings (view d)) \<and>
    (\<exists>t \<ge> db_clock (view d). db_recordings (view d1) =
       map (complete_row (co_SizeBytes q) rid (pr_OrgID p) t) (db_recordings (view d))) \<and>
    rs_status (fst (handle_Complete s q' r' (rec_run s ops d1))) \<in> {StatusBadRequest, StatusForbidden}"
proof -
  have "Complete s (pr_OrgID p) rid (co_SizeBytes q) d = (Inr (), d1)"
    using assms(2-5) by (auto simp: handle_Complete_def split: if_splits sum.splits prod.splits)
  from pg_service.Complete_success [OF assms(1) refl this] obtain t where
    t: "0 < co_SizeBytes q" "co_SizeBytes q \<le> MaxRecordingSizeBytes" "db_clock (view d) \<le> t"
       "list_ex (\<lambda>x. rr_id x = rid \<and> rr_org x = pr_OrgID p \<and> rr_status x = RecPending) (db_recordings (view d))"
       "db_recordings (view d1) = map (complete_row (co_SizeBytes q) rid (pr_OrgID p) t) (db_recordings (view d))" .
  then have "settled (pr_OrgID p) rid (view d1)"
    by (auto simp: settled_def list_ex_iff)
  from pg_service.rec_run_invariant(3) [OF assms(1) refl this, of ops]
  obtain e where "fst (Complete s (pr_OrgID p) rid (co_SizeBytes q') (rec_run s ops d1)) = Inl e"
    using pg_service.Complete_settled [OF assms(1) refl] by blast
  then have "rs_status (fst (handle_Complete s q' r' (rec_run s ops d1))) \<in> {StatusBadRequest, StatusForbidden}"
    using assms(6-8) by (auto simp: handle_Complete_def split: sum.splits prod.splits)
  with t show ?thesis by blast
qed

theorem complete_at_most_once_witness:
  "rs_status (fst (handle_Complete demo_recs \<lparr>co_SizeBytes = 4\<rparr> (rec_caller 5 ''r7'')
     (rec_run demo_recs demo_rec_ops (rec_run demo_recs demo_rec_ops demo_rec_db)))) \<in> {StatusBadRequest, StatusForbidden}"
proof -
  let ?d = "rec_run demo_recs (take 2 demo_rec_ops) demo_rec_db"
  let ?c = "handle_Complete demo_recs \<lparr>co_SizeBytes = 1024\<rparr> (rec_caller 5 ''r7'') ?d"
  have ctx: "FromContext (rec_caller 5 ''r7'') = Some \<lparr>pr_UserID = 9, pr_OrgID = 5, pr_Role = ''agent''\<rparr>"
    and path: "uuid_Parse (rc_uuid demo_recs) (PathValue (rec_caller 5 ''r7'') ''id'') = Some 7"
    by (simp_all add: rec_caller_def FromContext_def PathValue_def map_get_def demo_recs_def)
  have c: "?c = (fst ?c, snd ?c)" by simp
  have st: "rs_status (fst ?c) = StatusOK" by code_simp
  have "snd ?c = rec_run demo_recs demo_rec_ops demo_rec_db" by (simp add: demo_rec_ops_def)
  then show ?thesis
    using complete_at_most_once [OF demo_recs_service ctx path c st ctx refl path, of "\<lparr>co_SizeBytes = 4\<rparr>" demo_rec_ops] by simp
qed

end
