(* ===== verification/Ratelimit.thy ===== *)
theory Ratelimit
  imports Http Redis_Service
begin

text \<open>
  The fixed-window rate limiter (\<open>ratelimit/ratelimit.go\<close>, \<open>ratelimit/redis.go\<close>) and
  the address a request is charged to. The limiter uses its store through the interface
  \<open>Store\<close>, here the locale \<open>counter_store\<close>: \<open>Incr\<close> counts the requests of
  a key and \<open>Expire\<close> does not change counts. The locale is interpreted on the Redis
  store. Parsing of addresses and networks is that of Go's package \<open>net\<close>, a parameter.
\<close>

section \<open>Client addresses\<close>

record ('ip, 'net) net_pkg =
  net_ParseCIDR :: "string \<Rightarrow> 'net res"
  net_Contains :: "'net \<Rightarrow> 'ip \<Rightarrow> bool"
  net_ParseIP :: "string \<Rightarrow> 'ip option"
  net_SplitHostPort :: "string \<Rightarrow> (string \<times> string) res"

record 'net TrustedProxies =
  tp_nets :: "'net list"

fun parse_parts :: "('ip, 'net) net_pkg \<Rightarrow> string list \<Rightarrow> 'net list \<Rightarrow> 'net TrustedProxies res" where
  "parse_parts np [] nets = Inr \<lparr>tp_nets = nets\<rparr>"
| "parse_parts np (p # ps) nets =
     (let s = TrimSpace p in
      if s = '''' then parse_parts np ps nets
      else case net_ParseCIDR np s of
        Inl e \<Rightarrow> Inl (ErrWrap (''invalid trusted proxy CIDR '' @ quoted s) e)
      | Inr ipnet \<Rightarrow> parse_parts np ps (nets @ [ipnet]))"

definition ParseTrustedProxies :: "('ip, 'net) net_pkg \<Rightarrow> string \<Rightarrow> 'net TrustedProxies res" where
  "ParseTrustedProxies np cidrs = parse_parts np (Split CHR '','' cidrs) []"

definition trusts :: "('ip, 'net) net_pkg \<Rightarrow> 'net TrustedProxies \<Rightarrow> 'ip \<Rightarrow> bool" where
  "trusts np tp ip = list_ex (\<lambda>n. net_Contains np n ip) (tp_nets tp)"

definition peer_host :: "('ip, 'net) net_pkg \<Rightarrow> request \<Rightarrow> string" where
  "peer_host np r = (case net_SplitHostPort np (rq_RemoteAddr r) of
     Inl e \<Rightarrow> rq_RemoteAddr r | Inr (h, port) \<Rightarrow> h)"

definition ClientIP :: "('ip, 'net) net_pkg \<Rightarrow> 'net TrustedProxies \<Rightarrow> request \<Rightarrow> string" where
  "ClientIP np trusted r =
     (let host = peer_host np r
      in case net_ParseIP np host of
           None \<Rightarrow> host
         | Some ip \<Rightarrow>
             if \<not> trusts np trusted ip then host
             else let xff = Header_Get r ''X-Forwarded-For''
               in if xff = '''' then host
                  else let first = TrimSpace (hd (Split CHR '','' xff))
                    in if first \<noteq> '''' then first else host)"

section \<open>The limiter\<close>

record 's Store =
  st_Incr :: "string \<Rightarrow> 's \<Rightarrow> int res \<times> 's"
  st_Expire :: "string \<Rightarrow> duration \<Rightarrow> 's \<Rightarrow> unit res \<times> 's"

record 'net Limiter =
  lm_max :: int
  lm_window :: duration
  lm_trusted :: "'net TrustedProxies"

definition Allow :: "'s Store \<Rightarrow> 'net Limiter \<Rightarrow> string \<Rightarrow> 's \<Rightarrow> bool \<times> 's" where
  "Allow st l key s =
     (case st_Incr st key s of
        (Inl e, s1) \<Rightarrow> (True, s1)
      | (Inr n, s1) \<Rightarrow>
          (n \<le> lm_max l, if n = 1 then snd (st_Expire st key (lm_window l) s1) else s1))"

definition rl_Middleware ::
  "('ip, 'net) net_pkg \<Rightarrow> 's Store \<Rightarrow> 'net Limiter \<Rightarrow> string \<Rightarrow> 's handler \<Rightarrow> 's handler" where
  "rl_Middleware np st l prefix next r s =
     (let key = prefix @ '':'' @ ClientIP np (lm_trusted l) r;
          (allowed, s1) = Allow st l key s
      in if \<not> allowed
         then (let e = http_Error ''too many requests'' StatusTooManyRequests
               in e\<lparr>rs_headers := (''Retry-After'', ''60'') # rs_headers e\<rparr>, s1)
         else next r s1)"

text \<open>The Redis store: one command per call.\<close>

definition redis_Incr :: "'r redis_client \<Rightarrow> string \<Rightarrow> 'r \<Rightarrow> int res \<times> 'r" where
  "redis_Incr exec key s =
     (case exec [INCR key] s of
        (Inl e, s1) \<Rightarrow> (Inl e, s1)
      | (Inr [RInt n], s1) \<Rightarrow> (Inr n, s1)
      | (Inr _, s1) \<Rightarrow> (Inl (ErrExt ''redis: unexpected reply''), s1))"

definition redis_Expire :: "'r redis_client \<Rightarrow> string \<Rightarrow> duration \<Rightarrow> 'r \<Rightarrow> unit res \<times> 'r" where
  "redis_Expire exec key ttl s =
     (case exec [EXPIRE key ttl] s of (Inl e, s1) \<Rightarrow> (Inl e, s1) | (Inr _, s1) \<Rightarrow> (Inr (), s1))"

definition NewRedisStore :: "'r redis_client \<Rightarrow> 'r Store" where
  "NewRedisStore exec = \<lparr>st_Incr = redis_Incr exec, st_Expire = redis_Expire exec\<rparr>"

text \<open>A series of requests charged to one key.\<close>

fun allow_many :: "'s Store \<Rightarrow> 'net Limiter \<Rightarrow> string \<Rightarrow> nat \<Rightarrow> 's \<Rightarrow> bool list \<times> 's" where
  "allow_many st l key 0 s = ([], s)"
| "allow_many st l key (Suc n) s =
     (let (b, s1) = Allow st l key s; (bs, s2) = allow_many st l key n s1 in (b # bs, s2))"

section \<open>The contract of the store\<close>

locale counter_store =
  fixes st :: "'s Store"
    and count :: "'s \<Rightarrow> string \<Rightarrow> nat"
    and ok :: "'s \<Rightarrow> string \<Rightarrow> bool"
  assumes incr_value: "ok s k \<Longrightarrow> int (count s k) < max_int64 \<Longrightarrow>
      fst (st_Incr st k s) = Inr (int (count s k) + 1)"
    and incr_count: "ok s k \<Longrightarrow> int (count s k) < max_int64 \<Longrightarrow>
      count (snd (st_Incr st k s)) k' = count s k' + (if k' = k then 1 else 0)"
    and incr_ok: "ok s k \<Longrightarrow> int (count s k) < max_int64 \<Longrightarrow>
      ok (snd (st_Incr st k s)) k' = (k' = k \<or> ok s k')"
    and expire_count: "ok s k \<Longrightarrow> 0 < d \<Longrightarrow> count (snd (st_Expire st k d s)) k' = count s k'"
    and expire_ok: "ok s k \<Longrightarrow> 0 < d \<Longrightarrow> ok (snd (st_Expire st k d s)) k' = ok s k'"
begin

lemma Allow_step:
  assumes "ok s k" and "int (count s k) < max_int64" and "0 < lm_window l"
  shows "fst (Allow st l k s) \<longleftrightarrow> int (count s k) < lm_max l"
    and "count (snd (Allow st l k s)) k' = count s k' + (if k' = k then 1 else 0)"
    and "ok (snd (Allow st l k s)) k'  \<longleftrightarrow> k' = k \<or> ok s k'"
proof -
  obtain s1 where i: "st_Incr st k s = (Inr (int (count s k) + 1), s1)"
    using incr_value [OF assms(1,2)] by (metis prod.collapse)
  have s1: "\<And>k'. count s1 k' = count s k' + (if k' = k then 1 else 0)" "\<And>k'. ok s1 k' \<longleftrightarrow> k' = k \<or> ok s k'"
    using incr_count [OF assms(1,2)] incr_ok [OF assms(1,2)] by (simp_all add: i)
  show "fst (Allow st l k s) \<longleftrightarrow> int (count s k) < lm_max l"
    by (auto simp: Allow_def i)
  show "count (snd (Allow st l k s)) k' = count s k' + (if k' = k then 1 else 0)"
    using s1 assms(3) by (simp add: Allow_def i expire_count)
  show "ok (snd (Allow st l k s)) k'  \<longleftrightarrow> k' = k \<or> ok s k'"
    using s1 assms(3) by (simp add: Allow_def i expire_ok)
qed

lemma allow_many_results:
  assumes "ok s k" and "int (count s k) + int n \<le> max_int64" and "0 < lm_window l"
  shows "fst (allow_many st l k n s) = map (\<lambda>i. int (count s k + i) < lm_max l) [0..<n]"
  using assms
proof (induction n arbitrary: s)
  case (Suc n)
  let ?t = "snd (Allow st l k s)"
  have step: "fst (Allow st l k s) \<longleftrightarrow> int (count s k) < lm_max l"
    "count ?t k = Suc (count s k)" "ok ?t k"
    using Suc.prems by (simp_all add: Allow_step)
  have "fst (allow_many st l k n ?t) = map (\<lambda>i. int (count s k + Suc i) < lm_max l) [0..<n]"
    using Suc.IH [OF step(3)] Suc.prems step(2) by simp
  then show ?case
    using step(1) by (simp add: Let_def case_prod_beta upt_conv_Cons map_Suc_upt [symmetric] algebra_simps del: upt_Suc)
qed simp

text \<open>The budget: of \<open>n\<close> requests of one key exactly the first \<open>max - count\<close> pass.\<close>

lemma allow_many_budget:
  assumes "ok s k" and "count s k = 0" and "int n \<le> max_int64" and "0 < lm_window l" and "0 \<le> lm_max l"
  shows "length (filter id (fst (allow_many st l k n s))) = min n (nat (lm_max l))"
proof -
  have "fst (allow_many st l k n s) = map (\<lambda>i. int i < lm_max l) [0..<n]"
    using allow_many_results [of s k n l] assms by simp
  moreover have "length (filter (\<lambda>i. int i < m) [0..<n]) = min n (nat m)" if "0 \<le> m" for m
    using that by (induction n) auto
  ultimately show ?thesis
    using assms(5) by (simp add: filter_map o_def)
qed

end

section \<open>The Redis store keeps the contract\<close>

lemma redis_Incr_ref:
  assumes "key_ok ks k" and "int (key_count ks k) < max_int64"
  shows "\<exists>e. redis_Incr ref_exec k ks = (Inr (int (key_count ks k) + 1),
    ks_put k (RvStr (Itoa (int (key_count ks k) + 1))) e ks) \<and>
    (\<forall>t. e = Some t \<longrightarrow> ks_clock ks < t)"
  using ref_exec_single [OF incr_run [OF assms]] key_expiry_later [of ks k]
  by (intro exI [of _ "key_expiry ks k"]) (simp add: redis_Incr_def)

interpretation redis_counter: counter_store "NewRedisStore ref_exec" key_count key_ok
proof
  fix s k assume a: "key_ok s k" "int (key_count s k) < max_int64"
  obtain e where inc: "redis_Incr ref_exec k s = (Inr (int (key_count s k) + 1),
      ks_put k (RvStr (Itoa (int (key_count s k) + 1))) e s)" and e: "\<forall>t. e = Some t \<longrightarrow> ks_clock s < t"
    using redis_Incr_ref [OF a] by blast
  have at: "Atoi (Itoa (int (key_count s k) + 1)) = (int (key_count s k) + 1, True)"
    using a(2) by (intro Atoi_Itoa) (simp add: int64_bounds)
  show "fst (st_Incr (NewRedisStore ref_exec) k s) = Inr (int (key_count s k) + 1)"
    by (simp add: NewRedisStore_def inc)
  show "key_count (snd (st_Incr (NewRedisStore ref_exec) k s)) k' = key_count s k' + (if k' = k then 1 else 0)" for k'
    using e at by (auto simp: NewRedisStore_def inc key_count_def split: option.split)
  show "key_ok (snd (st_Incr (NewRedisStore ref_exec) k s)) k' = (k' = k \<or> key_ok s k')" for k'
    using e a(2) by (cases e) (auto simp: NewRedisStore_def inc key_ok_def intro!: exI [of _ "int (key_count s k) + 1"])
next
  fix s k and d :: duration assume "key_ok s k" "0 < d"
  then have d: "0 < expire_secs d"
    by (simp add: expire_secs_def Second_def)
  then show "key_count (snd (st_Expire (NewRedisStore ref_exec) k d s)) k' = key_count s k'"
    "key_ok (snd (st_Expire (NewRedisStore ref_exec) k d s)) k' = key_ok s k'" for k'
    by (auto simp: NewRedisStore_def redis_Expire_def ref_exec_def key_count_def key_ok_def
        split: option.splits)
qed

section \<open>A lost EXPIRE\<close>

lemma Incr_permanent:
  assumes "live (fl_ks f) k = Some (RvStr (Itoa c), None)" and "0 \<le> c" and "c < max_int64"
    and "fl_plan f = map Serve (d # ds)"
  shows "\<exists>f'. redis_Incr flaky_exec k f = (Inr (c + 1), f') \<and> fl_plan f' = map Serve ds \<and>
    live (fl_ks f') k = Some (RvStr (Itoa (c + 1)), None)"
proof -
  have "ks_map (fl_ks f) k = Some (RvStr (Itoa c), None)" using assms(1) by (simp add: live_Some_iff)
  then have "live ((fl_ks f)\<lparr>ks_clock := ks_clock (fl_ks f) + int d\<rparr>) k = Some (RvStr (Itoa c), None)"
    by (simp add: live_later)
  moreover have "Atoi (Itoa c) = (c, True)" using assms(2,3) by (simp add: Atoi_Itoa int64_bounds)
  ultimately show ?thesis
    using assms(3,4) by (simp add: redis_Incr_def flaky_exec_def ref_exec_def)
qed

lemma allow_permanent:
  assumes "live (fl_ks f) k = Some (RvStr (Itoa (int c)), None)" and "0 < c"
    and "int (c + length ds) \<le> max_int64" and "fl_plan f = map Serve ds"
  shows "fst (allow_many (NewRedisStore flaky_exec) l k (length ds) f) =
    map (\<lambda>i. int (c + i) < lm_max l) [0..<length ds]"
  using assms
proof (induction ds arbitrary: f c)
  case (Cons d ds)
  obtain f' where f': "redis_Incr flaky_exec k f = (Inr (int c + 1), f')" "fl_plan f' = map Serve ds"
    "live (fl_ks f') k = Some (RvStr (Itoa (int (Suc c))), None)"
    using Incr_permanent [OF Cons.prems(1) _ _ Cons.prems(4)] Cons.prems(3) by (auto simp: algebra_simps)
  have al: "Allow (NewRedisStore flaky_exec) l k f = (int c + 1 \<le> lm_max l, f')"
    using Cons.prems(2) by (simp add: Allow_def NewRedisStore_def f')
  have "fst (allow_many (NewRedisStore flaky_exec) l k (length ds) f') =
      map (\<lambda>i. int (Suc c + i) < lm_max l) [0..<length ds]"
    by (rule Cons.IH [OF f'(3) _ _ f'(2)]) (use Cons.prems(3) in simp_all)
  then show ?case
    by (simp add: Let_def case_prod_beta al upt_conv_Cons map_Suc_upt [symmetric] algebra_simps del: upt_Suc) linarith
qed simp

section \<open>Theorems\<close>



text \<open>
  One lost \<open>EXPIRE\<close> makes the window endless. If the request that creates a counter is
  counted but the following \<open>EXPIRE\<close> fails, whose error the limiter ignores, then however
  much time passes between the later requests, all of them after the first \<open>max\<close> are
  refused.
\<close>

theorem lost_expire_locks_out:
  assumes "int (Suc (length ds)) \<le> max_int64"
  shows "fst (allow_many (NewRedisStore flaky_exec) l k (Suc (length ds))
      \<lparr>fl_ks = ks_empty t0, fl_plan = Serve 0 # LoseRequest 0 # map Serve ds\<rparr>) =
    map (\<lambda>i. int i < lm_max l) [0..<Suc (length ds)]"
proof -
  let ?f = "\<lparr>fl_ks = ks_empty t0, fl_plan = Serve 0 # LoseRequest 0 # map Serve ds\<rparr>"
  obtain f' where al: "Allow (NewRedisStore flaky_exec) l k ?f = (1 \<le> lm_max l, f')"
    and f': "fl_plan f' = map Serve ds" "live (fl_ks f') k = Some (RvStr (Itoa (int 1)), None)"
    by (simp add: Allow_def NewRedisStore_def redis_Incr_def redis_Expire_def flaky_exec_def ref_exec_def Let_def ks_put_def live_def ks_empty_def)
  have "fst (allow_many (NewRedisStore flaky_exec) l k (length ds) f') =
      map (\<lambda>i. int (1 + i) < lm_max l) [0..<length ds]"
    by (rule allow_permanent [OF f'(2) _ _ f'(1)]) (use assms in simp_all)
  then show ?thesis
    by (simp add: Let_def case_prod_beta al upt_conv_Cons map_Suc_upt [symmetric] algebra_simps del: upt_Suc) linarith
qed

theorem lost_expire_locks_out_witness:
  "fst (allow_many (NewRedisStore flaky_exec)
      \<lparr>lm_max = 1, lm_window = Minute, lm_trusted = \<lparr>tp_nets = []\<rparr>\<rparr> ''login:10.0.0.7'' (Suc (length [10 ^ 15]))
      \<lparr>fl_ks = ks_empty 0, fl_plan = Serve 0 # LoseRequest 0 # map Serve [10 ^ 15]\<rparr>) = [True, False]"
  using lost_expire_locks_out [of "[10 ^ 15]" "\<lparr>lm_max = 1, lm_window = Minute, lm_trusted = \<lparr>tp_nets = []\<rparr>\<rparr>"
      "''login:10.0.0.7''" 0]
  by (simp add: max_int64_def)

text \<open>
  C28: a client cannot choose the address it is charged to: unless the peer itself is a trusted
  proxy, no header changes the key, so requests that differ only in their headers share one
  budget.
\<close>

theorem untrusted_peer_cannot_choose_key:
  assumes "\<And>ip. net_ParseIP np (peer_host np r) = Some ip \<Longrightarrow> \<not> trusts np tp ip"
  shows "ClientIP np tp (r\<lparr>rq_header := hs\<rparr>) = peer_host np r"
proof -
  have "peer_host np (r\<lparr>rq_header := hs\<rparr>) = peer_host np r" by (simp add: peer_host_def split: sum.split)
  with assms show ?thesis by (simp add: ClientIP_def Let_def split: option.split)
qed

definition demo_net :: "(nat, nat) net_pkg" where
  "demo_net = \<lparr>net_ParseCIDR = (\<lambda>s. Inr (length s)), net_Contains = (=),
     net_ParseIP = (\<lambda>s. Some (length s)), net_SplitHostPort = (\<lambda>s. Inr (takeWhile (\<lambda>c. c \<noteq> CHR '':'') s, ''''))\<rparr>"

definition xff_request :: request where
  "xff_request = \<lparr>rq_method = ''POST'', rq_path = ''/v1/auth/login'', rq_query = [],
     rq_header = [(''X-Forwarded-For'', ''1.2.3.4'')], rq_pathvals = [],
     rq_RemoteAddr = ''203.0.113.5:1234'', rq_principal = None\<rparr>"

theorem untrusted_peer_cannot_choose_key_witness:
  "ClientIP demo_net \<lparr>tp_nets = [9]\<rparr> (xff_request\<lparr>rq_header := [(''X-Forwarded-For'', ''8.8.8.8'')]\<rparr>)
     = peer_host demo_net xff_request"
  by (rule untrusted_peer_cannot_choose_key)
     (auto simp: demo_net_def xff_request_def trusts_def peer_host_def)

end
