(* ===== verification/Router.thy ===== *)
theory Router
  imports Admission Identity_Users Recordings Ratelimit
begin

text \<open>
  The HTTP surface (\<open>httpapi/router.go\<close>, \<open>metrics/metrics.go\<close>, the readiness probe of
  \<open>cmd/server/main.go\<close>): which handler serves which request, behind which middleware. The handlers
  are those of the other theories. A panic unwinds through the middleware, which have nothing left
  to do after \<open>next\<close>, up to \<open>recoverer\<close>: it is recorded in the state. Everything a request
  brings from outside besides its head (the decoded body, clock readings, random bytes, the
  outcomes of pings and of the WebSocket upgrade, the text of the metrics page) is in the record
  \<open>inputs\<close>. Paths are those of requests without percent escapes.
\<close>

section \<open>State\<close>

record metrics =
  mt_requests :: "(string \<times> string \<times> string) list"
  mt_durations :: "string list"

record ('r, 'd) app =
  ap_world :: "('r, 'd) world"
  ap_panic :: "string option"
  ap_metrics :: metrics

record inputs =
  in_now :: time
  in_clock :: clock
  in_draws :: draws
  in_jti :: string
  in_tape :: tape
  in_uuid :: uuid
  in_register :: "registerRequest res"
  in_login :: "loginRequest res"
  in_refresh :: "string res"
  in_redeem :: "redeemRequest res"
  in_createUser :: "createUserRequest res"
  in_createUpload :: createUploadRequest
  in_complete :: completeRequest
  in_pgPing :: "unit res"
  in_redisPing :: "unit res"
  in_upgrade :: "response option"
  in_scrape :: response

record ('r, 'd, 'ip, 'net) Deps =
  dp_Identity :: "'d Ident"
  dp_Session :: "('r, 'd) Service"
  dp_Signaling :: "(time \<Rightarrow> Authorizer) option"
  dp_Issuer :: Issuer
  dp_Readiness :: bool
  dp_RegisterLimiter :: "'net Limiter option"
  dp_AuthLimiter :: "'net Limiter option"
  dp_RedeemLimiter :: "'net Limiter option"
  dp_Recordings :: "'d Recs option"
  dp_net :: "('ip, 'net) net_pkg"

type_synonym ('r, 'd) app_handler = "('r, 'd) app handler"

text \<open>A handler on the database, which may panic, as a handler on the whole state.\<close>

definition on_world :: "('r, 'd) world handler \<Rightarrow> ('r, 'd) app_handler" where
  "on_world h r a = (case h r (ap_world a) of (resp, w) \<Rightarrow> (resp, a\<lparr>ap_world := w\<rparr>))"

definition no_response :: response where
  "no_response = \<lparr>rs_status = StatusOK, rs_headers = [], rs_body = NoBody\<rparr>"

definition on_db :: "(request \<Rightarrow> 'd \<Rightarrow> response go \<times> 'd) \<Rightarrow> ('r, 'd) app_handler" where
  "on_db h r a = (let w = ap_world a in
     case h r (w_db w) of
       (Return resp, d) \<Rightarrow> (resp, a\<lparr>ap_world := w\<lparr>w_db := d\<rparr>\<rparr>)
     | (Panic m, d) \<Rightarrow> (no_response, a\<lparr>ap_world := w\<lparr>w_db := d\<rparr>, ap_panic := Some m\<rparr>))"

definition returns :: "'d handler \<Rightarrow> request \<Rightarrow> 'd \<Rightarrow> response go \<times> 'd" where
  "returns h r d = apfst Return (h r d)"

text \<open>The Redis store of the limiters, on the whole state.\<close>

definition app_Store :: "'r redis_client \<Rightarrow> ('r, 'd) app Store" where
  "app_Store exec =
     (let st = NewRedisStore exec;
          put = (\<lambda>a r. a\<lparr>ap_world := (ap_world a)\<lparr>w_redis := r\<rparr>\<rparr>)
      in \<lparr>st_Incr = (\<lambda>k a. apsnd (put a) (st_Incr st k (w_redis (ap_world a)))),
          st_Expire = (\<lambda>k t a. apsnd (put a) (st_Expire st k t (w_redis (ap_world a))))\<rparr>)"

section \<open>Routes\<close>

datatype route =
    Healthz | Readyz | Metrics | Register | Login | Refresh | RedeemR | SignalingR
  | Me | Logout | MintR | GetUsers | PostUsers | Disable | Enable
  | PostRecordings | GetRecordings | CompleteR

text \<open>The registered patterns, in the order of \<open>New\<close>.\<close>

definition routes :: "('r, 'd, 'ip, 'net) Deps \<Rightarrow> (string \<times> string \<times> route) list" where
  "routes d =
     [(''GET'', ''/healthz'', Healthz)] @
     (if dp_Readiness d then [(''GET'', ''/readyz'', Readyz)] else []) @
     [(''GET'', ''/metrics'', Metrics),
      (''POST'', ''/v1/auth/register'', Register),
      (''POST'', ''/v1/auth/login'', Login),
      (''POST'', ''/v1/auth/refresh'', Refresh),
      (''POST'', ''/v1/sessions/redeem'', RedeemR),
      (''GET'', ''/v1/signaling'', SignalingR),
      (''GET'', ''/v1/me'', Me),
      (''POST'', ''/v1/auth/logout'', Logout),
      (''POST'', ''/v1/sessions'', MintR),
      (''GET'', ''/v1/users'', GetUsers),
      (''POST'', ''/v1/users'', PostUsers),
      (''POST'', ''/v1/users/{id}/disable'', Disable),
      (''POST'', ''/v1/users/{id}/enable'', Enable)] @
     (case dp_Recordings d of None \<Rightarrow> [] | Some _ \<Rightarrow>
       [(''POST'', ''/v1/sessions/{id}/recordings'', PostRecordings),
        (''GET'', ''/v1/sessions/{id}/recordings'', GetRecordings),
        (''POST'', ''/v1/recordings/{id}/complete'', CompleteR)])"

definition pattern :: "string \<times> string \<times> route \<Rightarrow> string" where
  "pattern e = (case e of (method, path, _) \<Rightarrow> method @ '' '' @ path)"

text \<open>
  Matching as \<open>http.ServeMux\<close> does it for these patterns: segment by segment, \<open>{id}\<close> for one
  non-empty segment; a GET pattern serves HEAD too; an unclean path is redirected to the clean one;
  a path registered for other methods only is answered 405. Of the responses that the multiplexer
  writes itself, the status is modelled.
\<close>

fun match_segs :: "string list \<Rightarrow> string list \<Rightarrow> (string, string) gomap option" where
  "match_segs [] [] = Some []"
| "match_segs (p # ps) (s # ss) =
     (if p = ''{id}'' then (if s = '''' then None else map_option (Cons (''id'', s)) (match_segs ps ss))
      else if p = s then match_segs ps ss else None)"
| "match_segs _ _ = None"

definition match_path :: "string \<Rightarrow> string \<Rightarrow> (string, string) gomap option" where
  "match_path pat path = match_segs (Split CHR ''/'' pat) (Split CHR ''/'' path)"

definition method_ok :: "string \<Rightarrow> string \<Rightarrow> bool" where
  "method_ok pm m \<longleftrightarrow> m = pm \<or> pm = ''GET'' \<and> m = ''HEAD''"

text \<open>\<open>cleanPath\<close>: empty and dot segments removed, \<open>..\<close> resolved, a final slash kept.\<close>

fun clean_segs :: "string list \<Rightarrow> string list \<Rightarrow> string list" where
  "clean_segs st [] = rev st"
| "clean_segs st (s # ss) =
     (if s = '''' \<or> s = ''.'' then clean_segs st ss
      else if s = ''..'' then clean_segs (tl st) ss
      else clean_segs (s # st) ss)"

definition cleanPath :: "string \<Rightarrow> string" where
  "cleanPath p =
     (if p = '''' then ''/''
      else let p = (if hd p \<noteq> CHR ''/'' then ''/'' @ p else p);
               np = ''/'' @ Join ''/'' (clean_segs [] (Split CHR ''/'' p))
           in if last p = CHR ''/'' \<and> np \<noteq> ''/'' then np @ ''/'' else np)"

datatype mux_result = Found route "(string, string) gomap" string | NotFound | NotAllowed | Redirect string

definition mux_match :: "('r, 'd, 'ip, 'net) Deps \<Rightarrow> string \<Rightarrow> string \<Rightarrow> (string \<times> string \<times> route) option" where
  "mux_match d method path =
     List.find (\<lambda>(pm, pat, rt). method_ok pm method \<and> match_path pat path \<noteq> None) (routes d)"

definition mux_find :: "('r, 'd, 'ip, 'net) Deps \<Rightarrow> request \<Rightarrow> mux_result" where
  "mux_find d r =
     (let path = (if rq_method r = ''CONNECT'' then rq_path r else cleanPath (rq_path r));
          m = mux_match d (rq_method r) path
      in if path \<noteq> rq_path r then Redirect (case m of None \<Rightarrow> '''' | Some e \<Rightarrow> pattern e)
         else case m of
           Some (pm, pat, rt) \<Rightarrow> Found rt (the (match_path pat path)) (pattern (pm, pat, rt))
         | None \<Rightarrow> if list_ex (\<lambda>(pm, pat, rt). match_path pat path \<noteq> None) (routes d) then NotAllowed else NotFound)"

section \<open>Handlers behind their middleware\<close>

definition throttle ::
  "('r, 'd, 'ip, 'net) Deps \<Rightarrow> 'net Limiter option \<Rightarrow> string \<Rightarrow> ('r, 'd) app_handler \<Rightarrow> ('r, 'd) app_handler" where
  "throttle d l name h = (case l of
     None \<Rightarrow> h
   | Some lim \<Rightarrow> rl_Middleware (dp_net d) (app_Store (sv_redis (dp_Session d))) lim name h)"

definition authed :: "('r, 'd, 'ip, 'net) Deps \<Rightarrow> inputs \<Rightarrow> ('r, 'd) app_handler \<Rightarrow> ('r, 'd) app_handler" where
  "authed d i h = auth_Middleware (id_jwt (dp_Identity d)) (id_uuid (dp_Identity d)) (dp_Issuer d) (in_now i) h"

definition readinessHandler :: "unit res \<Rightarrow> unit res \<Rightarrow> response" where
  "readinessHandler dbPing redisPing =
     (case dbPing of
        Inl e \<Rightarrow> http_Error ''database unavailable'' StatusServiceUnavailable
      | Inr _ \<Rightarrow>
          (case redisPing of
             Inl e \<Rightarrow> http_Error ''redis unavailable'' StatusServiceUnavailable
           | Inr _ \<Rightarrow> http_Text StatusOK ''ready''))"

text \<open>
  The signaling endpoint up to the upgrade. A hijacked connection writes no header through the
  recorders, which keep their initial status.
\<close>

definition serve_signaling :: "('r, 'd, 'ip, 'net) Deps \<Rightarrow> inputs \<Rightarrow> request \<Rightarrow> response" where
  "serve_signaling d i r =
     (case ServeWS_admit (id_uuid (dp_Identity d)) (map_option (\<lambda>auth. auth (in_now i)) (dp_Signaling d)) r of
        Inl resp \<Rightarrow> resp
      | Inr _ \<Rightarrow> (case in_upgrade i of Some err \<Rightarrow> err | None \<Rightarrow> no_response))"

fun dispatch :: "('r, 'd, 'ip, 'net) Deps \<Rightarrow> inputs \<Rightarrow> route \<Rightarrow> ('r, 'd) app_handler" where
  "dispatch d i Healthz = (\<lambda>r a. (http_Text StatusOK ''ok'', a))"
| "dispatch d i Readyz = (\<lambda>r a. (readinessHandler (in_pgPing i) (in_redisPing i), a))"
| "dispatch d i Metrics = (\<lambda>r a. (in_scrape i, a))"
| "dispatch d i Register = throttle d (dp_RegisterLimiter d) ''register''
     (on_db (\<lambda>r. handle_Register (dp_Identity d) (in_draws i) (in_register i)))"
| "dispatch d i Login = throttle d (dp_AuthLimiter d) ''login''
     (on_db (\<lambda>r. handle_Login (dp_Identity d) (in_draws i) (in_login i)))"
| "dispatch d i Refresh = on_db (\<lambda>r. handle_Refresh (dp_Identity d) (in_draws i) (in_refresh i))"
| "dispatch d i RedeemR = throttle d (dp_RedeemLimiter d) ''redeem''
     (on_world (handle_Redeem (dp_Session d) (in_clock i) (in_jti i) (in_redeem i)))"
| "dispatch d i SignalingR = (\<lambda>r a. (serve_signaling d i r, a))"
| "dispatch d i Me = authed d i (on_db (returns (handle_Me (dp_Identity d))))"
| "dispatch d i Logout = authed d i (on_db (returns (handle_Logout (dp_Identity d))))"
| "dispatch d i MintR = authed d i (on_world (handle_Mint (dp_Session d) (in_clock i) (in_jti i) (in_tape i)))"
| "dispatch d i GetUsers = authed d i (on_db (returns (handle_ListUsers (dp_Identity d))))"
| "dispatch d i PostUsers = authed d i (on_db (handle_CreateUser (dp_Identity d) (in_draws i) (in_createUser i)))"
| "dispatch d i Disable = authed d i (on_db (returns (handle_SetUserDisabled (dp_Identity d) True)))"
| "dispatch d i Enable = authed d i (on_db (returns (handle_SetUserDisabled (dp_Identity d) False)))"
| "dispatch d i PostRecordings = (case dp_Recordings d of
     None \<Rightarrow> (\<lambda>r a. (no_response, a))
   | Some s \<Rightarrow> authed d i (on_db (returns (handle_CreateUpload s (in_uuid i) (in_createUpload i)))))"
| "dispatch d i GetRecordings = (case dp_Recordings d of
     None \<Rightarrow> (\<lambda>r a. (no_response, a))
   | Some s \<Rightarrow> authed d i (on_db (returns (handle_List s))))"
| "dispatch d i CompleteR = (case dp_Recordings d of
     None \<Rightarrow> (\<lambda>r a. (no_response, a))
   | Some s \<Rightarrow> authed d i (on_db (returns (handle_Complete s (in_complete i)))))"

text \<open>\<open>ServeMux.ServeHTTP\<close>: the response, the new state, and \<open>r.Pattern\<close>.\<close>

definition mux_ServeHTTP ::
  "('r, 'd, 'ip, 'net) Deps \<Rightarrow> inputs \<Rightarrow> request \<Rightarrow> ('r, 'd) app \<Rightarrow> (response \<times> ('r, 'd) app) \<times> string" where
  "mux_ServeHTTP d i r a =
     (case mux_find d r of
        Found rt vals pat \<Rightarrow> (dispatch d i rt (r\<lparr>rq_pathvals := vals\<rparr>) a, pat)
      | NotFound \<Rightarrow> ((http_Error ''404 page not found'' StatusNotFound, a), '''')
      | NotAllowed \<Rightarrow> ((http_Error ''Method Not Allowed'' 405, a), '''')
      | Redirect pat \<Rightarrow> ((http_Text 301 '''', a), pat))"

section \<open>Global middleware\<close>

definition recoverer :: "response \<times> ('r, 'd) app \<Rightarrow> response \<times> ('r, 'd) app" where
  "recoverer x = (case x of (resp, a) \<Rightarrow>
     (case ap_panic a of
        Some m \<Rightarrow> (http_Error ''internal error'' StatusInternalServerError, a\<lparr>ap_panic := None\<rparr>)
      | None \<Rightarrow> (resp, a)))"

definition routePattern :: "string \<Rightarrow> string" where
  "routePattern pat = (if pat = '''' then ''unmatched'' else pat)"

definition signalingRoute :: string where
  "signalingRoute = ''GET /v1/signaling''"

definition MiddlewareDynamic ::
  "(string \<Rightarrow> string) \<Rightarrow> string \<Rightarrow> (response \<times> ('r, 'd) app) \<times> string \<Rightarrow> response \<times> ('r, 'd) app" where
  "MiddlewareDynamic routeFn method x = (case x of ((resp, a), pat) \<Rightarrow>
     let route = routeFn pat;
         m = ap_metrics a;
         m1 = m\<lparr>mt_requests := mt_requests m @ [(method, route, Itoa (rs_status resp))]\<rparr>;
         m2 = (if route = signalingRoute then m1 else m1\<lparr>mt_durations := mt_durations m1 @ [route]\<rparr>)
     in (resp, a\<lparr>ap_metrics := m2\<rparr>))"

definition metrics_Middleware ::
  "string \<Rightarrow> string \<Rightarrow> (response \<times> ('r, 'd) app) \<times> string \<Rightarrow> response \<times> ('r, 'd) app" where
  "metrics_Middleware route = MiddlewareDynamic (\<lambda>_. route)"

definition instrument :: "string \<Rightarrow> (response \<times> ('r, 'd) app) \<times> string \<Rightarrow> response \<times> ('r, 'd) app" where
  "instrument = MiddlewareDynamic routePattern"

definition New :: "('r, 'd, 'ip, 'net) Deps \<Rightarrow> inputs \<Rightarrow> ('r, 'd) app_handler" where
  "New d i r a = instrument (rq_method r) (apfst recoverer (mux_ServeHTTP d i r a))"

section \<open>What the wrappers keep\<close>

definition keeps_head :: "('r, 'd) app \<Rightarrow> ('r, 'd) app \<Rightarrow> bool" where
  "keeps_head a a' \<longleftrightarrow> ap_metrics a' = ap_metrics a"

lemma keeps_head_simps [simp]: "keeps_head a a" "keeps_head a (a\<lparr>ap_world := w\<rparr>)"
  "keeps_head a (a\<lparr>ap_world := w, ap_panic := p\<rparr>)" "keeps_head a (a\<lparr>ap_panic := p\<rparr>)"
  by (simp_all add: keeps_head_def)

lemma keeps_head_trans: "keeps_head a b \<Longrightarrow> keeps_head b c \<Longrightarrow> keeps_head a c"
  by (simp add: keeps_head_def)

lemma on_world_keeps: "keeps_head a (snd (on_world h r a))"
  by (simp add: on_world_def split: prod.split)

lemma on_db_keeps: "keeps_head a (snd (on_db h r a))"
  by (simp add: on_db_def Let_def split: prod.split go.split)

lemma auth_Middleware_cases:
  obtains resp where "auth_Middleware jp up i now h r s = (resp, s)" "rs_status resp = StatusUnauthorized"
    | p c where "auth_Middleware jp up i now h r s = h (with_principal p r) s"
        "Parse jp i now (bearerToken r) = Inr c" "cl_Kind c = KindAccess"
proof (cases "bearerToken r = '''' \<or> (case Parse jp i now (bearerToken r) of Inl e \<Rightarrow> True | Inr c \<Rightarrow>
    cl_Kind c \<noteq> KindAccess \<or> uuid_Parse up (cl_Subject c) = None \<or> uuid_Parse up (cl_OrgID c) = None)")
  case True
  then have "\<exists>resp. auth_Middleware jp up i now h r s = (resp, s) \<and> rs_status resp = StatusUnauthorized"
    by (auto simp: auth_Middleware_def Let_def split: sum.splits option.splits if_splits)
  then show thesis using that(1) by blast
next
  case False
  then show thesis
    by (cases "Parse jp i now (bearerToken r)") (auto simp: auth_Middleware_def Let_def intro: that(2))
qed

lemma app_Store_Allow:
  "\<exists>x. snd (Allow (app_Store exec) l k a) = a\<lparr>ap_world := (ap_world a)\<lparr>w_redis := x\<rparr>\<rparr>"
  by (auto simp: Allow_def app_Store_def Let_def apsnd_def map_prod_def split: prod.splits sum.splits)

lemma throttle_cases:
  obtains resp x where "throttle d l n h r a = (resp, a\<lparr>ap_world := (ap_world a)\<lparr>w_redis := x\<rparr>\<rparr>)"
    | x where "throttle d l n h r a = h r (a\<lparr>ap_world := (ap_world a)\<lparr>w_redis := x\<rparr>\<rparr>)"
proof (cases l)
  case None
  have "a\<lparr>ap_world := (ap_world a)\<lparr>w_redis := w_redis (ap_world a)\<rparr>\<rparr> = a" by simp
  with None show thesis using that(2) [of "w_redis (ap_world a)"] by (simp add: throttle_def)
next
  case (Some lim)
  let ?k = "n @ '':'' @ ClientIP (dp_net d) (lm_trusted lim) r"
  obtain x where x: "snd (Allow (app_Store (sv_redis (dp_Session d))) lim ?k a) = a\<lparr>ap_world := (ap_world a)\<lparr>w_redis := x\<rparr>\<rparr>"
    using app_Store_Allow [of "sv_redis (dp_Session d)" lim ?k a] by (elim exE)
  then show thesis
    using that Some by (cases "fst (Allow (app_Store (sv_redis (dp_Session d))) lim ?k a)")
      (auto simp: throttle_def rl_Middleware_def Let_def case_prod_beta)
qed

lemma dispatch_keeps: "keeps_head a (snd (dispatch d i rt r a))"
proof -
  have auth: "keeps_head a (snd (authed d i h r a))" if "\<And>r'. keeps_head a (snd (h r' a))" for h
    unfolding authed_def 
    by (rule auth_Middleware_cases [of "id_jwt (dp_Identity d)" "id_uuid (dp_Identity d)" "dp_Issuer d" "in_now i" h r a])
      (simp_all add: that)
  have thr: "keeps_head a (snd (throttle d l n h r a))" if "\<And>a'. keeps_head a' (snd (h r a'))" for l n h
    by (rule throttle_cases [of d l n h r a]) (use that keeps_head_trans in \<open>auto intro: keeps_head_trans [OF keeps_head_simps(2)]\<close>)
  show ?thesis
    by (cases rt) (auto intro!: auth thr on_db_keeps on_world_keeps split: option.split)
qed

lemma mux_keeps: "keeps_head a (snd (fst (mux_ServeHTTP d i r a)))"
  by (simp add: mux_ServeHTTP_def dispatch_keeps split: mux_result.split)

lemma mux_match_in: "mux_match d m p = Some e \<Longrightarrow> e \<in> set (routes d)"
  unfolding mux_match_def find_Some_iff by (metis nth_mem)

lemma mux_find_pattern:
  "mux_find d r = Found rt v pat \<Longrightarrow> pat \<in> pattern ` set (routes d)"
  "mux_find d r = Redirect pat \<Longrightarrow> pat = '''' \<or> pat \<in> pattern ` set (routes d)"
  using mux_match_in [of d "rq_method r"]
  by (auto simp: mux_find_def Let_def split: if_splits option.splits)

lemma mux_pattern: "snd (mux_ServeHTTP d i r a) \<in> insert '''' (set (map pattern (routes d)))"
  using mux_find_pattern [of d r] by (cases "mux_find d r") (simp_all add: mux_ServeHTTP_def)

lemma recoverer_simps:
  "ap_panic (snd (recoverer x)) = None" "ap_metrics (snd (recoverer x)) = ap_metrics (snd x)"
  "ap_world (snd (recoverer x)) = ap_world (snd x)"
  "fst (recoverer x) = (case ap_panic (snd x) of Some m \<Rightarrow> http_Error ''internal error'' StatusInternalServerError | None \<Rightarrow> fst x)"
  by (simp_all add: recoverer_def split: prod.split option.split)

lemma New_parts:
  fixes d :: "('r, 'd, 'ip, 'net) Deps" and i r a
  defines "x \<equiv> mux_ServeHTTP d i r a"
  defines "route \<equiv> routePattern (snd x)"
  shows "fst (New d i r a) = fst (recoverer (fst x))"
    and "ap_world (snd (New d i r a)) = ap_world (snd (fst x))" and "ap_panic (snd (New d i r a)) = None"
    and "mt_requests (ap_metrics (snd (New d i r a))) =
      mt_requests (ap_metrics a) @ [(rq_method r, route, Itoa (rs_status (fst (New d i r a))))]"
    and "mt_durations (ap_metrics (snd (New d i r a))) =
      mt_durations (ap_metrics a) @ (if route = signalingRoute then [] else [route])"
proof -
  have N: "New d i r a = MiddlewareDynamic routePattern (rq_method r) (recoverer (fst x), snd x)"
    by (cases x) (simp add: New_def instrument_def x_def)
  have m: "ap_metrics (snd (fst x)) = ap_metrics a" using mux_keeps [of a d i r] by (simp add: keeps_head_def x_def)
  show "fst (New d i r a) = fst (recoverer (fst x))" "ap_world (snd (New d i r a)) = ap_world (snd (fst x))"
    "ap_panic (snd (New d i r a)) = None"
    unfolding N MiddlewareDynamic_def by (simp_all add: Let_def case_prod_beta recoverer_simps)
  show "mt_requests (ap_metrics (snd (New d i r a))) =
      mt_requests (ap_metrics a) @ [(rq_method r, route, Itoa (rs_status (fst (New d i r a))))]"
    "mt_durations (ap_metrics (snd (New d i r a))) =
      mt_durations (ap_metrics a) @ (if route = signalingRoute then [] else [route])"
    unfolding N MiddlewareDynamic_def by (simp_all add: Let_def case_prod_beta recoverer_simps m route_def)
qed

fun app_run :: "('r, 'd, 'ip, 'net) Deps \<Rightarrow> (inputs \<times> request) list \<Rightarrow> ('r, 'd) app \<Rightarrow> ('r, 'd) app" where
  "app_run d [] a = a"
| "app_run d ((i, r) # reqs) a = app_run d reqs (snd (New d i r a))"

definition labels :: "('r, 'd, 'ip, 'net) Deps \<Rightarrow> string set" where
  "labels d = insert ''unmatched'' (set (map pattern (routes d)))"

lemma routePattern_label: "routePattern (snd (mux_ServeHTTP d i r a)) \<in> labels d"
  using mux_pattern [of d i r a] by (auto simp: routePattern_def labels_def)

lemma app_run_metrics:
  "\<exists>reqs' durs. mt_requests (ap_metrics (app_run d reqs a)) = mt_requests (ap_metrics a) @ reqs' \<and>
     mt_durations (ap_metrics (app_run d reqs a)) = mt_durations (ap_metrics a) @ durs \<and>
     length reqs' = length reqs \<and> list_all (\<lambda>(m, route, st). route \<in> labels d) reqs' \<and>
     set durs \<subseteq> labels d - {signalingRoute}"
proof (induction reqs arbitrary: a)
  case (Cons q reqs)
  obtain i r where q: "q = (i, r)" by fastforce
  let ?a1 = "snd (New d i r a)" and ?l = "routePattern (snd (mux_ServeHTTP d i r a))"
  obtain reqs' durs where IH: "mt_requests (ap_metrics (app_run d reqs ?a1)) = mt_requests (ap_metrics ?a1) @ reqs'"
    "mt_durations (ap_metrics (app_run d reqs ?a1)) = mt_durations (ap_metrics ?a1) @ durs"
    "length reqs' = length reqs" "list_all (\<lambda>(m, route, st). route \<in> labels d) reqs'" "set durs \<subseteq> labels d - {signalingRoute}"
    using Cons.IH [of ?a1] by blast
  show ?case
    by (rule exI [of _ "(rq_method r, ?l, Itoa (rs_status (fst (New d i r a)))) # reqs'"],
        rule exI [of _ "(if ?l = signalingRoute then [] else [?l]) @ durs"])
      (use IH routePattern_label [of d i r a] in \<open>simp add: q New_parts\<close>)
qed simp

lemma labels_bound: "finite (labels d) \<and> card (labels d) \<le> 19"
proof -
  have "length (routes d) \<le> 18" by (simp add: routes_def split: option.split)
  then have "card (set (map pattern (routes d))) \<le> 18" using card_length [of "map pattern (routes d)"] by simp
  then show ?thesis using card_insert_le_m1 [of 19 "set (map pattern (routes d))" "''unmatched''"] by (simp add: labels_def)
qed

text \<open>
  C5: the router accounts for every request and survives every handler. Whatever requests arrive,
  each adds exactly one entry to the request counter, with its status and with a route label out
  of a fixed set of at most nineteen (raw paths never become labels); the signaling endpoint never
  enters the latency histogram; a panic inside a handler is answered 500 and none is left behind.
\<close>

theorem requests_accounted:
  fixes d :: "('r, 'd, 'ip, 'net) Deps"
  shows "finite (labels d) \<and> card (labels d) \<le> 19 \<and>
    (\<exists>reqs' durs. mt_requests (ap_metrics (app_run d reqs a)) = mt_requests (ap_metrics a) @ reqs' \<and>
      mt_durations (ap_metrics (app_run d reqs a)) = mt_durations (ap_metrics a) @ durs \<and>
      length reqs' = length reqs \<and> list_all (\<lambda>(m, route, st). route \<in> labels d) reqs' \<and>
      set durs \<subseteq> labels d - {signalingRoute}) \<and>
    ap_panic (snd (New d i r a)) = None \<and>
    fst (New d i r a) = (case ap_panic (snd (fst (mux_ServeHTTP d i r a))) of
        Some m \<Rightarrow> http_Error ''internal error'' StatusInternalServerError
      | None \<Rightarrow> fst (fst (mux_ServeHTTP d i r a)))"
  using labels_bound [of d] app_run_metrics [of d reqs a] New_parts(1,3) [of d i r a] recoverer_simps(4) [of "fst (mux_ServeHTTP d i r a)"]
  by simp

section \<open>Access control of the whole surface\<close>

definition public :: "route \<Rightarrow> bool" where
  "public rt \<longleftrightarrow> rt \<in> {Healthz, Readyz, Metrics, Register, Login, Refresh, RedeemR, SignalingR}"

definition same_tables :: "db \<Rightarrow> db \<Rightarrow> bool" where
  "same_tables d d' \<longleftrightarrow> db_orgs d' = db_orgs d \<and> db_users d' = db_users d \<and> db_sessions d' = db_sessions d \<and>
     db_recordings d' = db_recordings d"

lemma same_tables_refl [simp]: "same_tables d d"
  by (simp add: same_tables_def)

context pg_service
begin

lemma select_same:
  assumes "pg q d = (x, d')" and "q = SelectUserByEmail e \<or> q = SelectUser u o'"
  shows "same_tables (pg_view d) (pg_view d')"
  using assms(1)
  by (rule pg_cases) (use assms(2) in \<open>auto simp: same_tables_def sql_select_user_by_email_def sql_select_user_def split: list.split\<close>)

lemma Login_same:
  assumes "id_db s = pg"
  shows "same_tables (pg_view d) (pg_view (snd (handle_Login s dr q d)))"
proof -
  have "same_tables (pg_view d) (pg_view (snd (Authenticate s e p d)))" for e p
  proof -
    obtain x d1 where c: "pg (SelectUserByEmail (normalizeEmail e)) d = (x, d1)" by fastforce
    then have "snd (Authenticate s e p d) = d1"
      by (simp add: Authenticate_def assms split: sum.split pg_reply.split go.split)
    with select_same [OF c] show ?thesis by simp
  qed
  moreover have "\<exists>e p. snd (handle_Login s dr q d) = snd (Authenticate s e p d) \<or> snd (handle_Login s dr q d) = d"
    by (cases q) (auto simp: handle_Login_def case_prod_beta split: go.split sum.split prod.split)
  ultimately show ?thesis by force
qed

lemma Refresh_same:
  assumes "id_db s = pg"
  shows "same_tables (pg_view d) (pg_view (snd (handle_Refresh s dr q d)))"
proof -
  have "same_tables (pg_view d) (pg_view (snd (GetUser s o' u d)))" for o' u
  proof -
    obtain x d1 where c: "pg (SelectUser u o') d = (x, d1)" by fastforce
    then have "snd (GetUser s o' u d) = d1"
      by (simp add: GetUser_def assms split: sum.split pg_reply.split)
    with select_same [OF c] show ?thesis by simp
  qed
  moreover have "\<exists>o' u. snd (handle_Refresh s dr q d) = snd (GetUser s o' u d) \<or> snd (handle_Refresh s dr q d) = d"
    by (auto simp: handle_Refresh_def split: go.split sum.split prod.split option.split; metis snd_conv)
  ultimately show ?thesis by force
qed

end

lemma on_db_snd: "w_db (ap_world (snd (on_db h r a))) = snd (h r (w_db (ap_world a)))"
  by (simp add: on_db_def Let_def split: prod.split go.split)

lemma authed_refused:
  assumes "jwt_library (id_jwt (dp_Identity d)) issued"
    and "\<And>pl c. issued (is_secret (dp_Issuer d)) (bearerToken r) pl \<Longrightarrow> Claims_of pl = Inr c \<Longrightarrow> cl_Kind c \<noteq> KindAccess"
  shows "\<exists>resp. authed d i h r a = (resp, a) \<and> rs_status resp = StatusUnauthorized"
proof -
  have "cl_Kind c \<noteq> KindAccess" if p: "Parse (id_jwt (dp_Identity d)) (dp_Issuer d) now (bearerToken r) = Inr c" for now c
  proof -
    obtain pl where j: "jwt_Parse (id_jwt (dp_Identity d)) now (keyfunc (dp_Issuer d)) (bearerToken r) = Inr pl" "Claims_of pl = Inr c"
      using p by (auto simp: Parse_def split: sum.splits)
    from jwt_library.parse_sound [OF assms(1) j(1)] have "issued (is_secret (dp_Issuer d)) (bearerToken r) pl" by auto
    from assms(2) [OF this j(2)] show ?thesis .
  qed
  note no = this
  show ?thesis unfolding authed_def
    by (rule auth_Middleware_cases [of "id_jwt (dp_Identity d)" "id_uuid (dp_Identity d)" "dp_Issuer d" "in_now i" h r a])
      (use no in auto)
qed

lemma Found_route:
  assumes "mux_find d r = Found rt v pat"
  shows "\<exists>m p. (m, p, rt) \<in> set (routes d)"
  using assms mux_match_in [of d "rq_method r" "rq_path r"]
  by (auto simp: mux_find_def Let_def split: if_splits option.splits)

lemma recordings_registered:
  "(m, p, rt) \<in> set (routes d) \<Longrightarrow> rt \<in> {PostRecordings, GetRecordings, CompleteR} \<Longrightarrow> \<exists>s. dp_Recordings d = Some s"
  by (cases "dp_Recordings d") (auto simp: routes_def split: if_splits)

lemma bearer_pathvals [simp]: "bearerToken (r\<lparr>rq_pathvals := v\<rparr>) = bearerToken r"
  by (simp add: bearerToken_def Header_Get_def Let_def)

lemma dispatch_refused:
  assumes "mux_find d r = Found rt v pat" and "\<not> public rt"
    and "\<And>h r'. bearerToken r' = bearerToken r \<Longrightarrow> \<exists>resp. authed d i h r' a = (resp, a) \<and> rs_status resp = StatusUnauthorized"
  shows "\<exists>resp. dispatch d i rt (r\<lparr>rq_pathvals := v\<rparr>) a = (resp, a) \<and> rs_status resp = StatusUnauthorized"
proof -
  obtain m p where "(m, p, rt) \<in> set (routes d)" using Found_route [OF assms(1)] by blast
  note rec = recordings_registered [OF this]
  show ?thesis using assms(2,3) rec by (cases rt) (auto simp: public_def)
qed

lemma dispatch_public_same:
  assumes "pg_service (id_db (dp_Identity d)) view" and "public rt" and "rt \<notin> {Register, RedeemR}"
  shows "same_tables (view (w_db (ap_world a))) (view (w_db (ap_world (snd (dispatch d i rt r a)))))"
proof -
  have "same_tables (view (w_db (ap_world a))) (view (w_db (ap_world (snd (throttle d l n (on_db (\<lambda>r. handle_Login (dp_Identity d) dr q)) r a)))))" for l n dr q
    by (rule throttle_cases [of d l n "on_db (\<lambda>r. handle_Login (dp_Identity d) dr q)" r a])
      (simp_all add: on_db_snd pg_service.Login_same [OF assms(1) refl])
  then show ?thesis using assms(2,3) pg_service.Refresh_same [OF assms(1) refl]
    by (cases rt) (auto simp: public_def on_db_snd)
qed


definition demo_deps :: "(keyspace, pgsim, nat, nat) Deps" where
  "demo_deps = \<lparr>dp_Identity = demo_id, dp_Session = demo_sv, dp_Signaling = None, dp_Issuer = NewIssuer ''key'' Minute Hour Hour,
     dp_Readiness = True, dp_RegisterLimiter = None, dp_AuthLimiter = None, dp_RedeemLimiter = None, dp_Recordings = None,
     dp_net = demo_net\<rparr>"

definition demo_inputs :: inputs where
  "demo_inputs = \<lparr>in_now = 0, in_clock = (\<lambda>_. 0), in_draws = demo_draws, in_jti = ''j'', in_tape = [], in_uuid = 0,
     in_register = Inl (ErrExt ''EOF''), in_login = Inl (ErrExt ''EOF''), in_refresh = Inl (ErrExt ''EOF''), in_redeem = Inl (ErrExt ''EOF''),
     in_createUser = Inl (ErrExt ''EOF''), in_createUpload = \<lparr>cr_ContentType = ''''\<rparr>, in_complete = \<lparr>co_SizeBytes = 0\<rparr>,
     in_pgPing = Inr (), in_redisPing = Inr (), in_upgrade = None, in_scrape = http_Text StatusOK ''''\<rparr>"

definition demo_anonymous :: request where
  "demo_anonymous = \<lparr>rq_method = ''POST'', rq_path = ''/v1/users/42/disable'', rq_query = [], rq_header = [],
     rq_pathvals = [], rq_RemoteAddr = '''', rq_principal = None\<rparr>"

definition demo_app :: "(keyspace, pgsim) app" where
  "demo_app = \<lparr>ap_world = demo_world, ap_panic = None, ap_metrics = \<lparr>mt_requests = [], mt_durations = []\<rparr>\<rparr>"


text \<open>The other label of the counter is not bounded: the method is recorded as the client sent it.\<close>

lemma method_label_raw:
  "map fst (mt_requests (ap_metrics (snd (New d i r a)))) = map fst (mt_requests (ap_metrics a)) @ [rq_method r]"
  by (simp add: New_parts)

end
