(* ===== verification/Bodies.thy ===== *)
theory Bodies
  imports Router Requests
begin

text \<open>
  Requests with their bodies as bytes. The handlers of the other theories take the outcome of
  \<open>DecodeJSON\<close> as an argument; here it is computed from the body, with the field names of the struct
  tags, and the whole surface is a function of the request and its bytes. (The recordings handlers
  throw the error of \<open>DecodeJSON\<close> away and use what was stored before it.)
\<close>

section \<open>Destinations\<close>

definition registerRequest_struct :: "registerRequest \<Rightarrow> struct" where
  "registerRequest_struct q = [(''org_name'', VStr (rg_OrgName q)), (''email'', VStr (rg_Email q)),
     (''password'', VStr (rg_Password q)), (''display_name'', VStr (rg_DisplayName q))]"

definition loginRequest_struct :: "loginRequest \<Rightarrow> struct" where
  "loginRequest_struct q = [(''email'', VStr (lg_Email q)), (''password'', VStr (lg_Password q))]"

definition refreshRequest_struct :: "string \<Rightarrow> struct" where
  "refreshRequest_struct t = [(''refresh_token'', VStr t)]"

definition createUserRequest_struct :: "createUserRequest \<Rightarrow> struct" where
  "createUserRequest_struct q = [(''email'', VStr (cu_Email q)), (''password'', VStr (cu_Password q)),
     (''display_name'', VStr (cu_DisplayName q)), (''role'', VStr (cu_Role q))]"

definition redeemRequest_struct :: "redeemRequest \<Rightarrow> struct" where
  "redeemRequest_struct q = [(''connect_id'', VStr (rd_ConnectID q)), (''pin'', VStr (rd_PIN q))]"

definition createUploadRequest_struct :: "createUploadRequest \<Rightarrow> struct" where
  "createUploadRequest_struct q = [(''content_type'', VStr (cr_ContentType q))]"

definition completeRequest_struct :: "completeRequest \<Rightarrow> struct" where
  "completeRequest_struct q = [(''size_bytes'', VInt (co_SizeBytes q))]"

section \<open>Decoding\<close>

definition decoded :: "struct \<Rightarrow> (struct \<Rightarrow> 'a) \<Rightarrow> string \<Rightarrow> 'a res" where
  "decoded zero of_struct body =
     (case DecodeJSON zero body of (st, Some e) \<Rightarrow> Inl e | (st, None) \<Rightarrow> Inr (of_struct st))"

definition registerRequest_zero :: struct where
  "registerRequest_zero = registerRequest_struct \<lparr>rg_OrgName = '''', rg_Email = '''', rg_Password = '''', rg_DisplayName = ''''\<rparr>"

definition decode_register :: "string \<Rightarrow> registerRequest res" where
  "decode_register = decoded registerRequest_zero
     (\<lambda>st. \<lparr>rg_OrgName = fval_str (map_of st ''org_name''), rg_Email = fval_str (map_of st ''email''),
        rg_Password = fval_str (map_of st ''password''), rg_DisplayName = fval_str (map_of st ''display_name'')\<rparr>)"

definition loginRequest_zero :: struct where
  "loginRequest_zero = loginRequest_struct \<lparr>lg_Email = '''', lg_Password = ''''\<rparr>"

definition decode_login :: "string \<Rightarrow> loginRequest res" where
  "decode_login = decoded loginRequest_zero
     (\<lambda>st. \<lparr>lg_Email = fval_str (map_of st ''email''), lg_Password = fval_str (map_of st ''password'')\<rparr>)"

definition decode_refresh :: "string \<Rightarrow> string res" where
  "decode_refresh = decoded (refreshRequest_struct '''') (\<lambda>st. fval_str (map_of st ''refresh_token''))"

definition createUserRequest_zero :: struct where
  "createUserRequest_zero = createUserRequest_struct \<lparr>cu_Email = '''', cu_Password = '''', cu_DisplayName = '''', cu_Role = ''''\<rparr>"

definition decode_createUser :: "string \<Rightarrow> createUserRequest res" where
  "decode_createUser = decoded createUserRequest_zero
     (\<lambda>st. \<lparr>cu_Email = fval_str (map_of st ''email''), cu_Password = fval_str (map_of st ''password''),
        cu_DisplayName = fval_str (map_of st ''display_name''), cu_Role = fval_str (map_of st ''role'')\<rparr>)"

definition redeemRequest_zero :: struct where
  "redeemRequest_zero = redeemRequest_struct \<lparr>rd_ConnectID = '''', rd_PIN = ''''\<rparr>"

definition decode_redeem :: "string \<Rightarrow> redeemRequest res" where
  "decode_redeem = decoded redeemRequest_zero
     (\<lambda>st. \<lparr>rd_ConnectID = fval_str (map_of st ''connect_id''), rd_PIN = fval_str (map_of st ''pin'')\<rparr>)"

text \<open>The two recordings handlers go on after an error.\<close>

definition decode_createUpload :: "string \<Rightarrow> createUploadRequest" where
  "decode_createUpload body =
     \<lparr>cr_ContentType = fval_str (map_of (fst (DecodeJSON (createUploadRequest_struct \<lparr>cr_ContentType = ''''\<rparr>) body)) ''content_type'')\<rparr>"

definition decode_complete :: "string \<Rightarrow> completeRequest" where
  "decode_complete body =
     \<lparr>co_SizeBytes = fval_int (map_of (fst (DecodeJSON (completeRequest_struct \<lparr>co_SizeBytes = 0\<rparr>) body)) ''size_bytes'')\<rparr>"

definition with_body :: "string \<Rightarrow> inputs \<Rightarrow> inputs" where
  "with_body body i = i\<lparr>in_register := decode_register body, in_login := decode_login body,
     in_refresh := decode_refresh body, in_redeem := decode_redeem body, in_createUser := decode_createUser body,
     in_createUpload := decode_createUpload body, in_complete := decode_complete body\<rparr>"

definition ServeHTTP :: "('r, 'd, 'ip, 'net) Deps \<Rightarrow> inputs \<Rightarrow> string \<Rightarrow> ('r, 'd) app_handler" where
  "ServeHTTP d i body = New d (with_body body i)"

lemmas struct_defs = registerRequest_struct_def loginRequest_struct_def refreshRequest_struct_def createUserRequest_struct_def
  redeemRequest_struct_def createUploadRequest_struct_def completeRequest_struct_def registerRequest_zero_def
  loginRequest_zero_def createUserRequest_zero_def redeemRequest_zero_def

section \<open>What well-behaved clients send is understood\<close>

lemma DecodeJSON_Marshal:
  assumes "plain_struct st" and "same_fields zero st" and "length (Marshal st) \<le> maxBodyBytes"
  shows "DecodeJSON zero (Marshal st) = (st, None)"
proof -
  have "skip_ws (Marshal st) \<noteq> []" using Marshal_hd [of st] by auto
  with parse_Marshal [OF assms(1), of "[]"] decode_struct_own [OF assms(1,2)] assms(3) show ?thesis
    by (simp add: DecodeJSON_def Let_def skip_ws_def)
qed

lemma decoded_Marshal:
  assumes "plain_struct st" and "same_fields zero st" and "length (Marshal st) \<le> maxBodyBytes"
  shows "decoded zero of_struct (Marshal st) = Inr (of_struct st)"
  using DecodeJSON_Marshal [OF assms] by (simp add: decoded_def)

section \<open>Refused bodies\<close>

text \<open>The destination a route decodes into, for the routes that answer a refused body with an error.\<close>

fun strict_dst :: "route \<Rightarrow> struct option" where
  "strict_dst Register = Some registerRequest_zero"
| "strict_dst Login = Some loginRequest_zero"
| "strict_dst Refresh = Some (refreshRequest_struct '''')"
| "strict_dst RedeemR = Some redeemRequest_zero"
| "strict_dst PostUsers = Some createUserRequest_zero"
| "strict_dst _ = None"

definition refused :: "response \<times> ('r, 'd) app \<Rightarrow> ('r, 'd) app \<Rightarrow> bool" where
  "refused x a \<longleftrightarrow> rs_status (fst x) \<in> {StatusBadRequest, StatusUnauthorized, StatusForbidden, StatusTooManyRequests} \<and>
     w_db (ap_world (snd x)) = w_db (ap_world a) \<and> ap_panic (snd x) = ap_panic a"

lemma decoded_refused: "snd (DecodeJSON zero body) \<noteq> None \<Longrightarrow> \<exists>e. decoded zero f body = Inl e"
  by (auto simp: decoded_def split: prod.split)

lemma refused_throttle:
  assumes "\<And>x. refused (h r (a\<lparr>ap_world := (ap_world a)\<lparr>w_redis := x\<rparr>\<rparr>)) (a\<lparr>ap_world := (ap_world a)\<lparr>w_redis := x\<rparr>\<rparr>)"
  shows "refused (throttle d l n h r a) a"
proof (cases l)
  case None
  with assms [of "w_redis (ap_world a)"] show ?thesis by (simp add: throttle_def)
next
  case (Some lim)
  let ?k = "n @ '':'' @ ClientIP (dp_net d) (lm_trusted lim) r" and ?A = "Allow (app_Store (sv_redis (dp_Session d))) lim"
  obtain x where x: "snd (?A ?k a) = a\<lparr>ap_world := (ap_world a)\<lparr>w_redis := x\<rparr>\<rparr>"
    using app_Store_Allow [of "sv_redis (dp_Session d)" lim ?k a] by (elim exE)
  with assms [of x] Some show ?thesis
    by (cases "fst (?A ?k a)") (auto simp: throttle_def rl_Middleware_def Let_def case_prod_beta refused_def)
qed

lemma refused_authed:
  assumes "\<And>q. refused (h q a) a"
  shows "refused (authed d i h r a) a"
  unfolding authed_def
  by (rule auth_Middleware_cases [of "id_jwt (dp_Identity d)" "id_uuid (dp_Identity d)" "dp_Issuer d" "in_now i" h r a])
    (simp_all add: assms, simp add: refused_def)

lemma bad_body_refused:
  fixes a :: "('r, 'd) app"
  assumes "strict_dst rt = Some dst" and "snd (DecodeJSON dst body) \<noteq> None"
  shows "refused (dispatch d (with_body body i) rt r a) a"
proof -
  have db: "refused (on_db h q b) b"
    if "\<exists>resp. h q (w_db (ap_world b)) = (Return resp, w_db (ap_world b)) \<and> rs_status resp \<in> {StatusBadRequest, StatusUnauthorized, StatusForbidden}"
    for h q and b :: "('r, 'd) app"
    using that by (auto simp: on_db_def refused_def Let_def)
  have world: "refused (on_world h q b) b"
    if "\<exists>resp. h q (ap_world b) = (resp, ap_world b) \<and> rs_status resp = StatusBadRequest" for h q and b :: "('r, 'd) app"
    using that by (auto simp: on_world_def refused_def)
  have admin: "\<exists>resp. handle_CreateUser s dr (Inl e) q x = (Return resp, x) \<and>
      rs_status resp \<in> {StatusBadRequest, StatusUnauthorized, StatusForbidden}" for s :: "'d Ident" and dr e q x
    by (auto simp: handle_CreateUser_def requireAdmin_def split: sum.split option.split)
  have ref: "\<exists>e. decoded dst f body = Inl e" for f :: "struct \<Rightarrow> 'z" by (rule decoded_refused [OF assms(2)])
  show ?thesis
  proof (cases rt)
    case Register
    with assms(1) obtain e where "decode_register body = Inl e" using ref by (auto simp: decode_register_def)
    then show ?thesis unfolding Register
      by (auto intro!: refused_throttle db simp: with_body_def handle_Register_def)
  next
    case Login
    with assms(1) obtain e where "decode_login body = Inl e" using ref by (auto simp: decode_login_def)
    then show ?thesis unfolding Login
      by (auto intro!: refused_throttle db simp: with_body_def handle_Login_def)
  next
    case Refresh
    with assms(1) obtain e where "decode_refresh body = Inl e" using ref by (auto simp: decode_refresh_def)
    then show ?thesis unfolding Refresh by (auto intro!: db simp: with_body_def handle_Refresh_def)
  next
    case RedeemR
    with assms(1) obtain e where "decode_redeem body = Inl e" using ref by (auto simp: decode_redeem_def)
    then show ?thesis unfolding RedeemR
      by (auto intro!: refused_throttle world simp: with_body_def handle_Redeem_def)
  next
    case PostUsers
    with assms(1) obtain e where e: "decode_createUser body = Inl e" using ref by (auto simp: decode_createUser_def)
    have "in_createUser (with_body body i) = Inl e" by (simp add: with_body_def e)
    then show ?thesis unfolding PostUsers by (simp only: dispatch.simps) (intro refused_authed db admin)
  qed (use assms in simp_all)
qed


definition demo_login :: request where
  "demo_login = \<lparr>rq_method = ''POST'', rq_path = ''/v1/auth/login'', rq_query = [], rq_header = [],
     rq_pathvals = [], rq_RemoteAddr = '''', rq_principal = None\<rparr>"


section \<open>Bodies that are refused and used\<close>

text \<open>
  \<open>Complete\<close> of the recordings ignores the error: a body with an unknown field after the size is
  refused by \<open>DecodeJSON\<close>, and its size is used all the same.
\<close>

lemma decode_object:
  assumes "plain_jv maxNestingDepth (JvObj ms)" and "length (print_jv (JvObj ms)) \<le> maxBodyBytes"
  shows "DecodeJSON dst (print_jv (JvObj ms)) = fold (store_member True) ms (dst, None)"
proof -
  have "skip_ws (print_jv (JvObj ms)) \<noteq> []" by simp
  with parse_obj [OF assms(1), of "[]"] assms(2) show ?thesis
    by (simp add: DecodeJSON_def Let_def decode_struct_def skip_ws_def del: print_jv.simps split: prod.split option.split) blast
qed

lemma complete_uses_refused_body:
  assumes "in_int64 n"
    and "length (print_jv (JvObj [(''size_bytes'', JvNum (Itoa n)), (''note'', JvNull)])) \<le> maxBodyBytes"
  shows "snd (DecodeJSON (completeRequest_struct \<lparr>co_SizeBytes = 0\<rparr>)
      (print_jv (JvObj [(''size_bytes'', JvNum (Itoa n)), (''note'', JvNull)]))) = Some (errUnknown ''note'') \<and>
    decode_complete (print_jv (JvObj [(''size_bytes'', JvNum (Itoa n)), (''note'', JvNull)])) = \<lparr>co_SizeBytes = n\<rparr>"
proof -
  let ?ms = "[(''size_bytes'', JvNum (Itoa n)), (''note'', JvNull)]"
  have p: "plain_jv maxNestingDepth (JvObj ?ms)"
    using Atoi_Itoa [OF assms(1)] by (simp add: maxNestingDepth_def is_ascii_def)
  have "fold_key ''size_bytes'' \<noteq> fold_key ''note''" by code_simp
  then have "fold (store_member True) ?ms (completeRequest_struct \<lparr>co_SizeBytes = 0\<rparr>, None) = ([(''size_bytes'', VInt n)], Some (errUnknown ''note''))"
    using Atoi_Itoa [OF assms(1)] by (simp add: completeRequest_struct_def store_member_def find_field_def)
  with decode_object [OF p assms(2)] show ?thesis by (simp add: decode_complete_def del: print_jv.simps)
qed

section \<open>Round trips of the request bodies\<close>

lemma decode_login_roundtrip:
  assumes "is_ascii (lg_Email q)" and "is_ascii (lg_Password q)" and "length (Marshal (loginRequest_struct q)) \<le> maxBodyBytes"
  shows "decode_login (Marshal (loginRequest_struct q)) = Inr q"
  unfolding decode_login_def
  by (subst decoded_Marshal) (use assms in \<open>simp_all add: struct_defs plain_struct_def wf_map_def same_fields_def is_ascii_def\<close>)

lemma decode_redeem_roundtrip:
  assumes "is_ascii (rd_ConnectID q)" and "is_ascii (rd_PIN q)" and "length (Marshal (redeemRequest_struct q)) \<le> maxBodyBytes"
  shows "decode_redeem (Marshal (redeemRequest_struct q)) = Inr q"
  unfolding decode_redeem_def
  by (subst decoded_Marshal) (use assms in \<open>simp_all add: struct_defs plain_struct_def wf_map_def same_fields_def is_ascii_def\<close>)

end
