(* ===== verification/Config.thy ===== *)
theory Config
  imports Go_Strings
begin

text \<open>
  Configuration from environment variables (\<open>config/config.go\<close>). The environment is a function
  (\<open>os.LookupEnv\<close>). \<open>time.ParseDuration\<close> is modelled with its overflow checks; the value of a
  decimal fraction, which Go computes in 64-bit floats, is the parameter \<open>frac\<close> (digits, unit and
  power of ten to a number of nanoseconds).
\<close>

section \<open>Durations\<close>

text \<open>\<open>leadingInt\<close>: the digits at the front as a number, \<open>None\<close> when it exceeds \<open>2 ^ 63\<close>.\<close>

fun leadingInt :: "nat \<Rightarrow> string \<Rightarrow> (nat \<times> string) option" where
  "leadingInt x [] = Some (x, [])"
| "leadingInt x (c # cs) =
     (if \<not> is_digit c then Some (x, c # cs)
      else if 2 ^ 63 div 10 < x then None
      else let x = x * 10 + char_digit c in if 2 ^ 63 < x then None else leadingInt x cs)"

text \<open>
  \<open>leadingFraction\<close>: the digits as a number with its power of ten; digits beyond 63 bits are
  skipped.
\<close>

fun leadingFraction :: "nat \<Rightarrow> nat \<Rightarrow> bool \<Rightarrow> string \<Rightarrow> (nat \<times> nat) \<times> string" where
  "leadingFraction x scale ov [] = ((x, scale), [])"
| "leadingFraction x scale ov (c # cs) =
     (if \<not> is_digit c then ((x, scale), c # cs)
      else if ov then leadingFraction x scale ov cs
      else if (2 ^ 63 - 1) div 10 < x then leadingFraction x scale True cs
      else let y = x * 10 + char_digit c
           in if 2 ^ 63 < y then leadingFraction x scale True cs else leadingFraction y (scale * 10) False cs)"

definition unit_of :: "string \<Rightarrow> nat option" where
  "unit_of u = map_of
     [(''ns'', 1), (''us'', 1000), (utf8 [0xC2, 0xB5] @ ''s'', 1000), (utf8 [0xCE, 0xBC] @ ''s'', 1000),
      (''ms'', 1000000), (''s'', 1000000000), (''m'', 60000000000), (''h'', 3600000000000)] u"

definition unit_char :: "char \<Rightarrow> bool" where
  "unit_char c \<longleftrightarrow> c \<noteq> CHR ''.'' \<and> \<not> is_digit c"

text \<open>One number with its unit: its nanoseconds and the rest.\<close>

definition duration_part :: "(nat \<Rightarrow> nat \<Rightarrow> nat \<Rightarrow> nat) \<Rightarrow> string \<Rightarrow> (nat \<times> string) option" where
  "duration_part frac s =
     (if s = [] \<or> \<not> (hd s = CHR ''.'' \<or> is_digit (hd s)) then None
      else case leadingInt 0 s of
        None \<Rightarrow> None
      | Some (v, s1) \<Rightarrow>
          (let pre = (length s1 \<noteq> length s);
               (fs, s2) = (if s1 \<noteq> [] \<and> hd s1 = CHR ''.'' then leadingFraction 0 1 False (tl s1) else ((0, 1), s1));
               post = (s1 \<noteq> [] \<and> hd s1 = CHR ''.'' \<and> length s2 \<noteq> length (tl s1));
               u = takeWhile unit_char s2
           in if \<not> pre \<and> \<not> post \<or> u = [] then None
              else case unit_of u of
                None \<Rightarrow> None
              | Some unit \<Rightarrow>
                  if 2 ^ 63 div unit < v then None
                  else let v = v * unit + (if 0 < fst fs then frac (fst fs) unit (snd fs) else 0)
                       in if 2 ^ 63 < v then None else Some (v, dropWhile unit_char s2)))"

lemma leadingInt_length: "leadingInt x s = Some (v, r) \<Longrightarrow> length r \<le> length s"
  by (induction x s rule: leadingInt.induct) (auto simp: Let_def split: if_splits)

lemma leadingFraction_length: "leadingFraction x k ov s = (f, r) \<Longrightarrow> length r \<le> length s"
  by (induction x k ov s rule: leadingFraction.induct) (auto simp: Let_def split: if_splits)

lemma duration_part_shorter: "duration_part frac s = Some (v, r) \<Longrightarrow> length r < length s"
proof -
  assume d: "duration_part frac s = Some (v, r)"
  then obtain v1 s1 where l: "leadingInt 0 s = Some (v1, s1)"
    by (auto simp: duration_part_def split: if_splits option.splits)
  define p where "p = (if s1 \<noteq> [] \<and> hd s1 = CHR ''.'' then leadingFraction 0 1 False (tl s1) else ((0, 1), s1))"
  have p: "length (snd p) \<le> length s1"
    using leadingFraction_length [of 0 1 False "tl s1"] by (cases "leadingFraction 0 1 False (tl s1)") (auto simp: p_def)
  from d l have r: "r = dropWhile unit_char (snd p)" and u: "takeWhile unit_char (snd p) \<noteq> []"
    by (auto simp: duration_part_def p_def Let_def case_prod_beta split: if_splits option.splits)
  have "length (takeWhile unit_char (snd p)) + length r = length (snd p)"
    unfolding r by (metis length_append takeWhile_dropWhile_id)
  moreover have "0 < length (takeWhile unit_char (snd p))" using u by simp
  ultimately show "length r < length s" using p leadingInt_length [OF l] by linarith
qed

function duration_parts :: "(nat \<Rightarrow> nat \<Rightarrow> nat \<Rightarrow> nat) \<Rightarrow> nat \<Rightarrow> string \<Rightarrow> nat option" where
  "duration_parts frac d s =
     (if s = [] then Some d
      else case duration_part frac s of
        None \<Rightarrow> None
      | Some (v, r) \<Rightarrow> if 2 ^ 63 < d + v then None else duration_parts frac (d + v) r)"
  by pat_completeness auto
termination
  by (relation "measure (\<lambda>(frac, d, s). length s)") (auto dest: duration_part_shorter)

declare duration_parts.simps [simp del]

definition ParseDuration :: "(nat \<Rightarrow> nat \<Rightarrow> nat \<Rightarrow> nat) \<Rightarrow> string \<Rightarrow> duration option" where
  "ParseDuration frac s =
     (let (neg, r) = (case s of c # cs \<Rightarrow> if c = CHR ''-'' then (True, cs) else if c = CHR ''+'' then (False, cs) else (False, s)
                      | [] \<Rightarrow> (False, []))
      in if r = ''0'' then Some 0
         else if r = '''' then None
         else case duration_parts frac 0 r of
           None \<Rightarrow> None
         | Some d \<Rightarrow> if neg then Some (- int d) else if 2 ^ 63 - 1 < d then None else Some (int d))"

section \<open>Reading variables\<close>

type_synonym env = "string \<Rightarrow> string option"

definition getenv :: "env \<Rightarrow> string \<Rightarrow> string \<Rightarrow> string" where
  "getenv env key def = (case env key of Some v \<Rightarrow> if v \<noteq> '''' then v else def | None \<Rightarrow> def)"

definition getdur :: "(nat \<Rightarrow> nat \<Rightarrow> nat \<Rightarrow> nat) \<Rightarrow> env \<Rightarrow> string \<Rightarrow> duration \<Rightarrow> duration res" where
  "getdur frac env key def =
     (case env key of
        None \<Rightarrow> Inr def
      | Some v \<Rightarrow>
          if v = '''' then Inr def
          else case ParseDuration frac v of
            Some d \<Rightarrow> Inr d
          | None \<Rightarrow>
              (case Atoi v of
                 (secs, ok) \<Rightarrow>
                   if \<not> ok then Inl (ErrNew (''config '' @ key @ '': invalid duration '' @ quoted v))
                   else Inr (int64 (secs * Second))))"

text \<open>
  The loop of \<open>splitNonEmpty\<close> runs over the characters of the value; for UTF-8 text this is the
  same as running over its bytes, as here, because a comma is a single byte.
\<close>

fun split_loop :: "string list \<Rightarrow> string \<Rightarrow> string \<Rightarrow> string list" where
  "split_loop out cur [] = (if cur \<noteq> '''' then out @ [cur] else out)"
| "split_loop out cur (r # rs) =
     (if r = CHR '','' then split_loop (if cur \<noteq> '''' then out @ [cur] else out) '''' rs
      else split_loop out (cur @ [r]) rs)"

definition splitNonEmpty :: "string \<Rightarrow> string list" where
  "splitNonEmpty s = split_loop [] '''' s"

record Config =
  cf_HTTPAddr :: string
  cf_DatabaseURL :: string
  cf_RedisURL :: string
  cf_JWTSecret :: string
  cf_AccessTokenTTL :: duration
  cf_RefreshTokenTTL :: duration
  cf_SessionTokenTTL :: duration
  cf_SignalingTokenTTL :: duration
  cf_SignalingFanout :: string
  cf_TrustedProxyCIDRs :: string
  cf_TURNSecret :: string
  cf_TURNRealm :: string
  cf_TURNURLs :: "string list"
  cf_TURNCredTTL :: duration
  cf_S3Endpoint :: string
  cf_S3AccessKey :: string
  cf_S3SecretKey :: string
  cf_S3Bucket :: string
  cf_S3Region :: string
  cf_S3UseSSL :: bool
  cf_RecordingURLTTL :: duration

definition RecordingsEnabled :: "Config \<Rightarrow> bool" where
  "RecordingsEnabled c \<longleftrightarrow> cf_S3Endpoint c \<noteq> ''''"

definition base_config :: "env \<Rightarrow> Config" where
  "base_config env = \<lparr>
     cf_HTTPAddr = getenv env ''HTTP_ADDR'' '':8080'',
     cf_DatabaseURL = getenv env ''DATABASE_URL'' ''postgres://ar:ar@localhost:5432/ar?sslmode=disable'',
     cf_RedisURL = getenv env ''REDIS_URL'' ''redis://localhost:6379/0'',
     cf_JWTSecret = getenv env ''JWT_SECRET'' ''dev-insecure-secret-change-me'',
     cf_AccessTokenTTL = 0, cf_RefreshTokenTTL = 0, cf_SessionTokenTTL = 0, cf_SignalingTokenTTL = 0,
     cf_SignalingFanout = getenv env ''SIGNALING_FANOUT'' ''local'',
     cf_TrustedProxyCIDRs = getenv env ''TRUSTED_PROXY_CIDRS'' '''',
     cf_TURNSecret = getenv env ''TURN_SECRET'' ''dev-turn-secret'',
     cf_TURNRealm = getenv env ''TURN_REALM'' ''ar.local'',
     cf_TURNURLs = splitNonEmpty (getenv env ''TURN_URLS'' ''turn:localhost:3478?transport=udp''),
     cf_TURNCredTTL = 0,
     cf_S3Endpoint = getenv env ''S3_ENDPOINT'' '''',
     cf_S3AccessKey = getenv env ''S3_ACCESS_KEY'' '''',
     cf_S3SecretKey = getenv env ''S3_SECRET_KEY'' '''',
     cf_S3Bucket = getenv env ''S3_BUCKET'' ''recordings'',
     cf_S3Region = getenv env ''S3_REGION'' ''us-east-1'',
     cf_S3UseSSL = (getenv env ''S3_USE_SSL'' ''true'' = ''true''),
     cf_RecordingURLTTL = 0\<rparr>"

definition Load :: "(nat \<Rightarrow> nat \<Rightarrow> nat \<Rightarrow> nat) \<Rightarrow> env \<Rightarrow> Config res" where
  "Load frac env =
     (let c = base_config env in
      case getdur frac env ''ACCESS_TOKEN_TTL'' (15 * Minute) of Inl e \<Rightarrow> Inl e | Inr access \<Rightarrow>
      (case getdur frac env ''REFRESH_TOKEN_TTL'' (720 * Hour) of Inl e \<Rightarrow> Inl e | Inr refresh \<Rightarrow>
      (case getdur frac env ''SESSION_TOKEN_TTL'' (10 * Minute) of Inl e \<Rightarrow> Inl e | Inr session \<Rightarrow>
      (case getdur frac env ''SIGNALING_TOKEN_TTL'' (4 * Hour) of Inl e \<Rightarrow> Inl e | Inr signaling \<Rightarrow>
      (case getdur frac env ''TURN_CRED_TTL'' Hour of Inl e \<Rightarrow> Inl e | Inr turn \<Rightarrow>
      (case getdur frac env ''RECORDING_URL_TTL'' (15 * Minute) of Inl e \<Rightarrow> Inl e | Inr recording \<Rightarrow>
       Inr (c\<lparr>cf_AccessTokenTTL := access, cf_RefreshTokenTTL := refresh, cf_SessionTokenTTL := session,
          cf_SignalingTokenTTL := signaling, cf_TURNCredTTL := turn, cf_RecordingURLTTL := recording\<rparr>)))))))"

section \<open>Plain numbers of seconds\<close>

lemma leadingInt_digits: "list_all is_digit s \<Longrightarrow> leadingInt x s = Some (v, r) \<Longrightarrow> r = []"
  by (induction x s rule: leadingInt.induct) (auto simp: Let_def split: if_splits)

lemma duration_part_digits:
  assumes "list_all is_digit s"
  shows "duration_part frac s = None"
proof (cases "leadingInt 0 s")
  case (Some p)
  then obtain v where "p = (v, [])" using leadingInt_digits [OF assms] by (metis surj_pair)
  with Some show ?thesis by (simp add: duration_part_def Let_def)
qed (simp add: duration_part_def)

lemma ParseDuration_Itoa: "n \<noteq> 0 \<Longrightarrow> ParseDuration frac (Itoa n) = None"
proof -
  assume n: "n \<noteq> 0"
  define r where "r = nat_dec (nat \<bar>n\<bar>)"
  have r: "r \<noteq> ''''" "list_all is_digit r" by (simp_all add: r_def)
  have "dec_nat ''0'' = 0" by code_simp
  moreover have "dec_nat r = nat \<bar>n\<bar>" by (simp add: r_def)
  ultimately have r0: "r \<noteq> ''0''" using n by auto
  have none: "duration_parts frac 0 r = None"
    using r by (subst duration_parts.simps) (simp add: duration_part_digits)
  obtain c cs where c: "r = c # cs" "is_digit c" using r by (cases r) auto
  have "Itoa n = (if n < 0 then CHR ''-'' # r else r)" by (simp add: Itoa_def r_def)
  then show ?thesis
    using none r0 r(1) c is_digit_not_sign [OF c(2)] by (cases "n < 0") (auto simp: ParseDuration_def Let_def)
qed

lemma int64_exact: "int64 m = m \<longleftrightarrow> in_int64 m"
  using int64_id in_int64_int64 by metis

text \<open>
  A lifetime given as a plain number of seconds is multiplied out in 64 bits. The variable is
  accepted for every number that fits 64 bits; the lifetime is the number given when its magnitude
  is at most 9223372036 seconds, and a wrapped-around one beyond.
\<close>

theorem seconds_wrap:
  assumes "in_int64 n" and "env key = Some (Itoa n)"
  shows "getdur frac env key def = Inr (int64 (n * Second)) \<and>
    (int64 (n * Second) = n * Second \<longleftrightarrow> \<bar>n\<bar> \<le> 9223372036)"
proof -
  have "Itoa n \<noteq> ''''" by (simp add: Itoa_def)
  moreover have "ParseDuration frac (Itoa 0) = Some 0"
  proof -
    have "Itoa 0 = ''0''" by code_simp
    then show ?thesis by (simp add: ParseDuration_def Let_def)
  qed
  ultimately have "getdur frac env key def = Inr (int64 (n * Second))"
    using assms ParseDuration_Itoa [of n frac] Atoi_Itoa [OF assms(1)]
    by (cases "n = 0") (simp_all add: getdur_def int64_def)
  moreover have "in_int64 (n * Second) \<longleftrightarrow> \<bar>n\<bar> \<le> 9223372036"
    by (auto simp: int64_bounds Second_def abs_le_iff)
  ultimately show ?thesis by (simp add: int64_exact)
qed

theorem seconds_wrap_witness:
  "getdur (\<lambda>f u s. 0) ((\<lambda>_. None)(''SESSION_TOKEN_TTL'' := Some (Itoa 9223372037))) ''SESSION_TOKEN_TTL'' Minute =
     Inr (int64 (9223372037 * Second)) \<and> int64 (9223372037 * Second) < 0"
proof -
  have "in_int64 9223372037" by (simp add: int64_bounds)
  from seconds_wrap [OF this, where key = "''SESSION_TOKEN_TTL''" and env = "(\<lambda>_. None)(''SESSION_TOKEN_TTL'' := Some (Itoa 9223372037))"]
  show ?thesis by (simp add: int64_def Second_def)
qed

section \<open>Lists and errors\<close>

lemma split_loop_spec:
  "split_loop out cur s = out @ filter (\<lambda>p. p \<noteq> '''') (case Split CHR '','' s of [] \<Rightarrow> [] | p # ps \<Rightarrow> (cur @ p) # ps)"
proof (induction out cur s rule: split_loop.induct)
  case (2 out cur r rs)
  obtain p ps where p: "Split CHR '','' rs = p # ps" by (meson Split_neq_Nil list.exhaust)
  then show ?case using 2 by auto
qed auto

lemma splitNonEmpty_spec: "splitNonEmpty s = filter (\<lambda>p. p \<noteq> '''') (Split CHR '','' s)"
  using split_loop_spec [of "[]" "[]" s] by (cases "Split CHR '','' s") (simp_all add: splitNonEmpty_def)

definition duration_keys :: "string list" where
  "duration_keys = [''ACCESS_TOKEN_TTL'', ''REFRESH_TOKEN_TTL'', ''SESSION_TOKEN_TTL'', ''SIGNALING_TOKEN_TTL'',
     ''TURN_CRED_TTL'', ''RECORDING_URL_TTL'']"

lemma getdur_ok_iff:
  "ok_res (getdur frac env key def) \<longleftrightarrow>
     (case env key of None \<Rightarrow> True | Some v \<Rightarrow> v = '''' \<or> ParseDuration frac v \<noteq> None \<or> snd (Atoi v))"
  by (auto simp: getdur_def ok_res_def case_prod_beta split: option.split)

text \<open>Loading fails only for a duration that is neither a Go duration nor a 64-bit number.\<close>

lemma Load_ok_iff: "ok_res (Load frac env) \<longleftrightarrow> list_all (\<lambda>k. ok_res (getdur frac env k 0)) duration_keys"
proof -
  have d: "ok_res (getdur frac env k 0) = (case getdur frac env k x of Inl e \<Rightarrow> False | Inr y \<Rightarrow> True)" for k x
    using getdur_ok_iff [of frac env k] by (metis ok_res_def)
  show ?thesis
    by (auto simp: duration_keys_def Load_def Let_def ok_res_def [of "case _ of Inl e \<Rightarrow> _ | Inr y \<Rightarrow> _"]
        d [of "''ACCESS_TOKEN_TTL''" "15 * Minute"] d [of "''REFRESH_TOKEN_TTL''" "720 * Hour"] d [of "''SESSION_TOKEN_TTL''" "10 * Minute"]
        d [of "''SIGNALING_TOKEN_TTL''" "4 * Hour"] d [of "''TURN_CRED_TTL''" Hour] d [of "''RECORDING_URL_TTL''" "15 * Minute"]
        split: sum.split)
qed

end
