(* ===== verification/Migrations.thy ===== *)
theory Migrations
  imports Go_Strings "HOL-Library.List_Lexorder" "HOL-Library.Char_ord"
begin

text \<open>
  Connections and migrations (\<open>store/store.go\<close>). The embedded directory, the SQL texts and the
  server are parameters: the client is a record with one field per call of \<open>Migrate\<close>, and the
  contract \<open>migration_db\<close> says what each does to the schema, to the table
  \<open>schema_migrations\<close> and to the open transaction, when it succeeds and when it fails. A commit
  that fails may or may not have taken effect.
\<close>

section \<open>Opening and closing\<close>

text \<open>
  The outcomes of the library calls are arguments; the result says which handles are left open.
\<close>

record Handles =
  hd_DB :: bool
  hd_Redis :: bool

definition Open :: "unit res \<Rightarrow> unit res \<Rightarrow> unit res \<Rightarrow> unit res \<Rightarrow> Handles res \<times> Handles" where
  "Open pgNew pgPing redisURL redisPing =
     (case pgNew of
        Inl e \<Rightarrow> (Inl (ErrWrap ''postgres connect'' e), \<lparr>hd_DB = False, hd_Redis = False\<rparr>)
      | Inr _ \<Rightarrow>
          let h = \<lparr>hd_DB = True, hd_Redis = False\<rparr> in
          (case pgPing of
             Inl e \<Rightarrow> (Inl (ErrWrap ''postgres ping'' e), h\<lparr>hd_DB := False\<rparr>)
           | Inr _ \<Rightarrow>
               (case redisURL of
                  Inl e \<Rightarrow> (Inl (ErrWrap ''redis url'' e), h\<lparr>hd_DB := False\<rparr>)
                | Inr _ \<Rightarrow>
                    let h = h\<lparr>hd_Redis := True\<rparr> in
                    (case redisPing of
                       Inl e \<Rightarrow> (Inl (ErrWrap ''redis ping'' e), h\<lparr>hd_DB := False, hd_Redis := False\<rparr>)
                     | Inr _ \<Rightarrow> (Inr h, h)))))"

definition Store_Close :: "Handles \<Rightarrow> Handles" where
  "Store_Close h = (let h = (if hd_DB h then h\<lparr>hd_DB := False\<rparr> else h)
     in if hd_Redis h then h\<lparr>hd_Redis := False\<rparr> else h)"

lemma Open_no_leak:
  "case Open a b c d of
     (Inl e, h) \<Rightarrow> \<not> hd_DB h \<and> \<not> hd_Redis h
   | (Inr s, h) \<Rightarrow> s = h \<and> hd_DB h \<and> hd_Redis h \<and> Store_Close h = \<lparr>hd_DB = False, hd_Redis = False\<rparr>"
  by (auto simp: Open_def Store_Close_def Let_def split: sum.split)

section \<open>Migrating\<close>

record embed_FS =
  fs_ReadDir :: "string \<Rightarrow> (string \<times> bool) list res"
  fs_ReadFile :: "string \<Rightarrow> string res"

record 'd mig_client =
  mg_ensure :: "'d \<Rightarrow> unit res \<times> 'd"
  mg_exists :: "string \<Rightarrow> 'd \<Rightarrow> bool res \<times> 'd"
  mg_begin :: "'d \<Rightarrow> unit res \<times> 'd"
  mg_exec :: "string \<Rightarrow> 'd \<Rightarrow> unit res \<times> 'd"
  mg_insert :: "string \<Rightarrow> 'd \<Rightarrow> unit res \<times> 'd"
  mg_rollback :: "'d \<Rightarrow> 'd"
  mg_commit :: "'d \<Rightarrow> unit res \<times> 'd"

definition HasSuffix :: "string \<Rightarrow> string \<Rightarrow> bool" where
  "HasSuffix s suf \<longleftrightarrow> length suf \<le> length s \<and> drop (length s - length suf) s = suf"

definition migration_names :: "(string \<times> bool) list \<Rightarrow> string list" where
  "migration_names entries = sort (map fst (filter (\<lambda>(name, isDir). \<not> isDir \<and> HasSuffix name ''.sql'') entries))"

definition migrate_one :: "'d mig_client \<Rightarrow> embed_FS \<Rightarrow> string \<Rightarrow> 'd \<Rightarrow> unit res \<times> 'd" where
  "migrate_one c fs name d =
     (case mg_exists c name d of
        (Inl e, d1) \<Rightarrow> (Inl (ErrWrap (''check migration '' @ name) e), d1)
      | (Inr exists, d1) \<Rightarrow>
          if exists then (Inr (), d1)
          else case fs_ReadFile fs (''migrations/'' @ name) of
            Inl e \<Rightarrow> (Inl (ErrWrap (''read migration '' @ name) e), d1)
          | Inr sql \<Rightarrow>
              (case mg_begin c d1 of
                 (Inl e, d2) \<Rightarrow> (Inl (ErrWrap (''begin migration '' @ name) e), d2)
               | (Inr _, d2) \<Rightarrow>
                   (case mg_exec c sql d2 of
                      (Inl e, d3) \<Rightarrow> (Inl (ErrWrap (''apply migration '' @ name) e), mg_rollback c d3)
                    | (Inr _, d3) \<Rightarrow>
                        (case mg_insert c name d3 of
                           (Inl e, d4) \<Rightarrow> (Inl (ErrWrap (''record migration '' @ name) e), mg_rollback c d4)
                         | (Inr _, d4) \<Rightarrow>
                             (case mg_commit c d4 of
                                (Inl e, d5) \<Rightarrow> (Inl (ErrWrap (''commit migration '' @ name) e), d5)
                              | (Inr _, d5) \<Rightarrow> (Inr (), d5))))))"

fun migrate_loop :: "'d mig_client \<Rightarrow> embed_FS \<Rightarrow> string list \<Rightarrow> 'd \<Rightarrow> unit res \<times> 'd" where
  "migrate_loop c fs [] d = (Inr (), d)"
| "migrate_loop c fs (name # names) d =
     (case migrate_one c fs name d of
        (Inl e, d1) \<Rightarrow> (Inl e, d1)
      | (Inr _, d1) \<Rightarrow> migrate_loop c fs names d1)"

definition Migrate :: "'d mig_client \<Rightarrow> embed_FS \<Rightarrow> 'd \<Rightarrow> unit res \<times> 'd" where
  "Migrate c fs d =
     (case mg_ensure c d of
        (Inl e, d1) \<Rightarrow> (Inl (ErrWrap ''ensure migrations table'' e), d1)
      | (Inr _, d1) \<Rightarrow>
          (case fs_ReadDir fs ''migrations'' of
             Inl e \<Rightarrow> (Inl (ErrWrap ''read migrations'' e), d1)
           | Inr entries \<Rightarrow> migrate_loop c fs (migration_names entries) d1))"

section \<open>The server\<close>

record 's mdb =
  md_schema :: 's
  md_table :: bool
  md_versions :: "string list"
  md_tx :: "('s \<times> string list) option"

locale migration_db =
  fixes c :: "'d mig_client"
    and view :: "'d \<Rightarrow> 's mdb"
    and run_sql :: "string \<Rightarrow> 's \<Rightarrow> 's option"
  assumes ensure: "mg_ensure c d = (x, d') \<Longrightarrow> view d' = view d \<or> view d' = (view d)\<lparr>md_table := True\<rparr>"
    and exists_same: "mg_exists c n d = (found, d') \<Longrightarrow> view d' = view d"
    and exists_ok: "mg_exists c n d = (Inr b, d') \<Longrightarrow> b \<longleftrightarrow> n \<in> set (md_versions (view d))"
    and begin_ok: "mg_begin c d = (Inr u, d') \<Longrightarrow>
      view d' = (view d)\<lparr>md_tx := Some (md_schema (view d), md_versions (view d))\<rparr>"
    and begin_err: "mg_begin c d = (Inl e, d') \<Longrightarrow> view d' = view d"
    and exec_ok: "mg_exec c q d = (Inr u, d') \<Longrightarrow> md_tx (view d) = Some (s, vs) \<Longrightarrow>
      \<exists>s'. run_sql q s = Some s' \<and> view d' = (view d)\<lparr>md_tx := Some (s', vs)\<rparr>"
    and exec_err: "mg_exec c q d = (Inl e, d') \<Longrightarrow> \<exists>tx. view d' = (view d)\<lparr>md_tx := tx\<rparr>"
    and insert_ok: "mg_insert c n d = (Inr u, d') \<Longrightarrow> md_tx (view d) = Some (s, vs) \<Longrightarrow>
      n \<notin> set vs \<and> view d' = (view d)\<lparr>md_tx := Some (s, vs @ [n])\<rparr>"
    and insert_err: "mg_insert c n d = (Inl e, d') \<Longrightarrow> \<exists>tx. view d' = (view d)\<lparr>md_tx := tx\<rparr>"
    and rollback: "view (mg_rollback c d) = (view d)\<lparr>md_tx := None\<rparr>"
    and commit_ok: "mg_commit c d = (Inr u, d') \<Longrightarrow> md_tx (view d) = Some (s, vs) \<Longrightarrow>
      view d' = (view d)\<lparr>md_schema := s, md_versions := vs, md_tx := None\<rparr>"
    and commit_err: "mg_commit c d = (Inl e, d') \<Longrightarrow> md_tx (view d) = Some (s, vs) \<Longrightarrow>
      view d' = (view d)\<lparr>md_tx := None\<rparr> \<or> view d' = (view d)\<lparr>md_schema := s, md_versions := vs, md_tx := None\<rparr>"

section \<open>What holds of the schema\<close>

text \<open>Applying the recorded migrations, in the order of their records, to the empty schema.\<close>

fun apply_all :: "(string \<Rightarrow> 's \<Rightarrow> 's option) \<Rightarrow> embed_FS \<Rightarrow> string list \<Rightarrow> 's \<Rightarrow> 's option" where
  "apply_all run fs [] s = Some s"
| "apply_all run fs (n # ns) s =
     (case fs_ReadFile fs (''migrations/'' @ n) of
        Inl e \<Rightarrow> None
      | Inr sql \<Rightarrow> (case run sql s of None \<Rightarrow> None | Some s' \<Rightarrow> apply_all run fs ns s'))"

definition mig_ok :: "(string \<Rightarrow> 's \<Rightarrow> 's option) \<Rightarrow> embed_FS \<Rightarrow> 's \<Rightarrow> 's mdb \<Rightarrow> bool" where
  "mig_ok run fs s0 m \<longleftrightarrow> md_tx m = None \<and> distinct (md_versions m) \<and>
     apply_all run fs (md_versions m) s0 = Some (md_schema m)"

text \<open>The files without a record.\<close>

definition pending :: "string list \<Rightarrow> string list \<Rightarrow> string list" where
  "pending vs names = filter (\<lambda>n. n \<notin> set vs) names"

lemma apply_all_snoc:
  "apply_all run fs ns s = Some s' \<Longrightarrow> fs_ReadFile fs (''migrations/'' @ n) = Inr sql \<Longrightarrow>
     apply_all run fs (ns @ [n]) s = run sql s'"
  by (induction ns arbitrary: s) (auto split: sum.splits option.splits)

context migration_db
begin

lemma migrate_one_effect:
  assumes ok: "mig_ok run_sql fs s0 (view d)" and m: "migrate_one c fs n d = (x, d')"
  shows "mig_ok run_sql fs s0 (view d') \<and>
    (md_versions (view d') = md_versions (view d) \<and> md_schema (view d') = md_schema (view d) \<or>
     n \<notin> set (md_versions (view d)) \<and> md_versions (view d') = md_versions (view d) @ [n]) \<and>
    (x = Inr () \<longrightarrow> n \<in> set (md_versions (view d')))"
proof -
  let ?V = "view d"
  have tx: "md_tx ?V = None" using ok by (simp add: mig_ok_def)
  obtain b d1 where e: "mg_exists c n d = (b, d1)" by fastforce
  note v1 = exists_same [OF e]
  consider (stop) "view d' = ?V" "x = Inr () \<longrightarrow> n \<in> set (md_versions ?V)"
    | (work) sql u d2 where "n \<notin> set (md_versions ?V)" "fs_ReadFile fs (''migrations/'' @ n) = Inr sql"
        "mg_begin c d1 = (Inr u, d2)" "b = Inr False"
  proof (cases b)
    case (Inr bb)
    then show thesis
      using that exists_ok [OF e [unfolded Inr]] m e v1 begin_err
      by (auto simp: migrate_one_def split: if_splits sum.splits prod.splits)
  qed (use that m e v1 in \<open>auto simp: migrate_one_def\<close>)
  then show ?thesis
  proof cases
    case work
    let ?S = "md_schema ?V" and ?vs = "md_versions ?V"
    have v2: "view d2 = ?V\<lparr>md_tx := Some (?S, ?vs)\<rparr>" using begin_ok [OF work(3)] v1 by simp
    have same: "?V\<lparr>md_tx := None\<rparr> = ?V" using tx by simp
    obtain y d3 where x3: "mg_exec c sql d2 = (y, d3)" by fastforce
    show ?thesis
    proof (cases y)
      case (Inl err)
      then have "view d' = ?V" "x \<noteq> Inr ()"
        using m e work x3 exec_err [OF x3 [unfolded Inl]] v2 same by (auto simp: migrate_one_def rollback)
      then show ?thesis using ok by simp
    next
      case (Inr u3)
      from exec_ok [OF x3 [unfolded Inr], of ?S ?vs] v2 obtain s' where
        s': "run_sql sql ?S = Some s'" and v3: "view d3 = ?V\<lparr>md_tx := Some (s', ?vs)\<rparr>" by auto
      obtain z d4 where x4: "mg_insert c n d3 = (z, d4)" by fastforce
      show ?thesis
      proof (cases z)
        case (Inl err)
        then have "view d' = ?V" "x \<noteq> Inr ()"
          using m e work x3 Inr x4 insert_err [OF x4 [unfolded Inl]] v3 same by (auto simp: migrate_one_def rollback)
        then show ?thesis using ok by simp
      next
        case I4: (Inr u4)
        have v4: "view d4 = ?V\<lparr>md_tx := Some (s', ?vs @ [n])\<rparr>"
          using insert_ok [OF x4 [unfolded I4], of s' ?vs] v3 by simp
        let ?W = "?V\<lparr>md_schema := s', md_versions := ?vs @ [n]\<rparr>"
        obtain w d5 where x5: "mg_commit c d4 = (w, d5)" by fastforce
        have "view d5 = ?V \<and> (\<exists>err. w = Inl err) \<or> view d5 = ?W"
          using commit_ok [of d4 _ d5 s' "?vs @ [n]"] commit_err [of d4 _ d5 s' "?vs @ [n]"] x5 v4 tx same by (cases w) auto
        moreover have "d' = d5" "x = Inr () \<longrightarrow> (\<exists>u. w = Inr u)"
          using m e work x3 Inr x4 I4 x5 by (auto simp: migrate_one_def split: sum.splits)
        moreover have "mig_ok run_sql fs s0 ?W"
          using ok apply_all_snoc [OF _ work(2), of run_sql ?vs s0 ?S] work(1) s' tx by (simp add: mig_ok_def)
        ultimately show ?thesis using ok work(1) by auto
      qed
    qed
  qed (use ok in simp)
qed

lemma migrate_loop_effect:
  assumes "mig_ok run_sql fs s0 (view d)" and "migrate_loop c fs names d = (x, d')" and "distinct names"
  shows "mig_ok run_sql fs s0 (view d') \<and>
    (\<exists>k. md_versions (view d') = md_versions (view d) @ take k (pending (md_versions (view d)) names) \<and>
      (x = Inr () \<longrightarrow> length (pending (md_versions (view d)) names) \<le> k))"
  using assms
proof (induction names arbitrary: d)
  case Nil
  then show ?case by (auto simp: pending_def)
next
  case (Cons n names)
  obtain y d1 where m: "migrate_one c fs n d = (y, d1)" by fastforce
  note E = migrate_one_effect [OF Cons.prems(1) m]
  let ?vs = "md_versions (view d)" and ?vs1 = "md_versions (view d1)"
  show ?case
  proof (cases y)
    case (Inl err)
    then have [simp]: "x = Inl err" "d' = d1" using Cons.prems(2) m by auto
    have "\<exists>k. ?vs1 = ?vs @ take k (pending ?vs (n # names))"
      using E by (auto simp: pending_def intro: exI [of _ 0] exI [of _ 1])
    then show ?thesis using E by auto
  next
    case (Inr u)
    then have l: "migrate_loop c fs names d1 = (x, d')" using Cons.prems(2) m by simp
    have n1: "n \<in> set ?vs1" using E Inr by simp
    obtain k where k: "md_versions (view d') = ?vs1 @ take k (pending ?vs1 names)" "x = Inr () \<longrightarrow> length (pending ?vs1 names) \<le> k"
      "mig_ok run_sql fs s0 (view d')"
      using Cons.IH [OF conjunct1 [OF E] l] Cons.prems(3) by auto
    show ?thesis
    proof (cases "n \<in> set ?vs")
      case True
      then have "?vs1 = ?vs" using E by auto
      then show ?thesis using k True by (auto simp: pending_def)
    next
      case False
      then have vs1: "?vs1 = ?vs @ [n]" using E n1 by auto
      have "pending ?vs1 names = pending ?vs names" "pending ?vs (n # names) = n # pending ?vs names"
        using Cons.prems(3) False by (auto simp: pending_def vs1 intro: filter_cong)
      then have "md_versions (view d') = ?vs @ take (Suc k) (pending ?vs (n # names))"
        "x = Inr () \<longrightarrow> length (pending ?vs (n # names)) \<le> Suc k"
        using k(1,2) vs1 by simp_all
      then show ?thesis using k(3) by blast
    qed
  qed
qed

lemma Migrate_effect:
  assumes "mig_ok run_sql fs s0 (view d)" and "Migrate c fs d = (x, d')"
    and "fs_ReadDir fs ''migrations'' = Inr entries" and "distinct (map fst entries)"
  shows "mig_ok run_sql fs s0 (view d') \<and>
    (\<exists>k. md_versions (view d') = md_versions (view d) @ take k (pending (md_versions (view d)) (migration_names entries)) \<and>
      (x = Inr () \<longrightarrow> length (pending (md_versions (view d)) (migration_names entries)) \<le> k))"
proof -
  obtain y d1 where e: "mg_ensure c d = (y, d1)" by fastforce
  have v: "md_versions (view d1) = md_versions (view d)" "mig_ok run_sql fs s0 (view d1)"
    using ensure [OF e] assms(1) by (auto simp: mig_ok_def)
  have "distinct (migration_names entries)"
    using assms(4) by (simp add: migration_names_def distinct_map_filter)
  from migrate_loop_effect [OF v(2) _ this, of x d'] v show ?thesis
    using assms(2,3) e by (cases y) (auto simp: Migrate_def intro: exI [of _ 0])
qed

end

text \<open>
  C40: migrations are applied once each, in order. Whatever calls fail during \<open>Migrate\<close>, and
  wherever it stops, the schema is the result of running exactly the recorded migrations once, in
  the order of their records; the new records are an initial segment of the missing files in
  lexical order, all of them when \<open>Migrate\<close> returns nil; and a second run after a successful one
  changes neither the records nor the schema.
\<close>

theorem migrate_each_once:
  assumes "migration_db c view run_sql" and "mig_ok run_sql fs s0 (view d)"
    and "fs_ReadDir fs ''migrations'' = Inr entries" and "distinct (map fst entries)"
    and "Migrate c fs d = (x, d')"
  shows "mig_ok run_sql fs s0 (view d') \<and>
    (\<exists>k. md_versions (view d') = md_versions (view d) @ take k (pending (md_versions (view d)) (migration_names entries))) \<and>
    (x = Inr () \<longrightarrow>
      md_versions (view d') = md_versions (view d) @ pending (md_versions (view d)) (migration_names entries) \<and>
      md_versions (view (snd (Migrate c fs d'))) = md_versions (view d') \<and>
      md_schema (view (snd (Migrate c fs d'))) = md_schema (view d'))"
proof -
  let ?p = "pending (md_versions (view d)) (migration_names entries)"
  note E = migration_db.Migrate_effect [OF assms(1) _ _ assms(3,4)]
  from E [OF assms(2,5)] obtain k where ok: "mig_ok run_sql fs s0 (view d')"
    and k: "md_versions (view d') = md_versions (view d) @ take k ?p" "x = Inr () \<longrightarrow> length ?p \<le> k" by blast
  from E [OF ok prod.collapse [symmetric]] obtain k' where
    k': "mig_ok run_sql fs s0 (view (snd (Migrate c fs d')))"
      "md_versions (view (snd (Migrate c fs d'))) = md_versions (view d') @
        take k' (pending (md_versions (view d')) (migration_names entries))" by blast
  have "md_versions (view (snd (Migrate c fs d'))) = md_versions (view d') \<and>
      md_schema (view (snd (Migrate c fs d'))) = md_schema (view d')" if "x = Inr ()"
  proof -
    have "pending (md_versions (view d')) (migration_names entries) = []"
      using k that by (auto simp: pending_def filter_empty_conv)
    then show ?thesis using k' ok by (simp add: mig_ok_def)
  qed
  then show ?thesis using ok k by auto
qed

section \<open>A server that fails by plan\<close>

text \<open>One entry of the plan is used per call; a planned failure of a commit loses the reply.\<close>

record 's migsim =
  ms_db :: "'s mdb"
  ms_plan :: "bool list"

definition ms_next :: "'s migsim \<Rightarrow> bool \<times> 's migsim" where
  "ms_next m = (case ms_plan m of [] \<Rightarrow> (False, m) | b # bs \<Rightarrow> (b, m\<lparr>ms_plan := bs\<rparr>))"

definition ms_call :: "('s migsim \<Rightarrow> 'a res \<times> 's migsim) \<Rightarrow> 's migsim \<Rightarrow> 'a res \<times> 's migsim" where
  "ms_call f m = (case ms_next m of (fails, m1) \<Rightarrow> if fails then (Inl (ErrExt ''conn closed''), m1) else f m1)"

definition sim_mig :: "(string \<Rightarrow> 's \<Rightarrow> 's option) \<Rightarrow> 's migsim mig_client" where
  "sim_mig run = \<lparr>
     mg_ensure = ms_call (\<lambda>m. (Inr (), m\<lparr>ms_db := (ms_db m)\<lparr>md_table := True\<rparr>\<rparr>)),
     mg_exists = (\<lambda>n. ms_call (\<lambda>m. (Inr (n \<in> set (md_versions (ms_db m))), m))),
     mg_begin = ms_call (\<lambda>m. (Inr (), m\<lparr>ms_db := (ms_db m)\<lparr>md_tx := Some (md_schema (ms_db m), md_versions (ms_db m))\<rparr>\<rparr>)),
     mg_exec = (\<lambda>q. ms_call (\<lambda>m. case md_tx (ms_db m) of
         None \<Rightarrow> (Inl (ErrExt ''tx is closed''), m)
       | Some (s, vs) \<Rightarrow> (case run q s of
           None \<Rightarrow> (Inl (ErrExt ''syntax error''), m)
         | Some s' \<Rightarrow> (Inr (), m\<lparr>ms_db := (ms_db m)\<lparr>md_tx := Some (s', vs)\<rparr>\<rparr>)))),
     mg_insert = (\<lambda>n. ms_call (\<lambda>m. case md_tx (ms_db m) of
         None \<Rightarrow> (Inl (ErrExt ''tx is closed''), m)
       | Some (s, vs) \<Rightarrow> if n \<in> set vs then (Inl (ErrExt ''duplicate key''), m)
         else (Inr (), m\<lparr>ms_db := (ms_db m)\<lparr>md_tx := Some (s, vs @ [n])\<rparr>\<rparr>))),
     mg_rollback = (\<lambda>m. m\<lparr>ms_db := (ms_db m)\<lparr>md_tx := None\<rparr>\<rparr>),
     mg_commit = (\<lambda>m. case ms_next m of (fails, m1) \<Rightarrow>
       (case md_tx (ms_db m1) of
          None \<Rightarrow> (Inl (ErrExt ''tx is closed''), m1)
        | Some (s, vs) \<Rightarrow> (if fails then Inl (ErrExt ''conn closed'') else Inr (),
            m1\<lparr>ms_db := (ms_db m1)\<lparr>md_schema := s, md_versions := vs, md_tx := None\<rparr>\<rparr>)))\<rparr>"

lemma ms_next_db [simp]: "ms_next m = (b, m') \<Longrightarrow> ms_db m' = ms_db m"
  by (auto simp: ms_next_def split: list.splits)

lemma md_tx_self [simp]: "\<exists>tx. m = m\<lparr>md_tx := tx\<rparr>"
  by (rule exI [of _ "md_tx m"]) simp

interpretation simmig: migration_db "sim_mig run" ms_db run for run :: "string \<Rightarrow> 's \<Rightarrow> 's option"
  by unfold_locales (auto simp: sim_mig_def ms_call_def split: prod.splits if_splits option.splits)

definition demo_fs :: embed_FS where
  "demo_fs = \<lparr>fs_ReadDir = (\<lambda>_. Inr [(''0002_b.sql'', False), (''README'', False), (''old.sql'', True), (''0001_a.sql'', False)]),
     fs_ReadFile = (\<lambda>f. if f = ''migrations/0001_a.sql'' then Inr ''A'' else if f = ''migrations/0002_b.sql'' then Inr ''B'' else Inl (ErrExt f))\<rparr>"

definition demo_mig_run :: "string \<Rightarrow> string list \<Rightarrow> string list option" where
  "demo_mig_run q s = Some (s @ [q])"

definition demo_mig :: "string list migsim" where
  "demo_mig = \<lparr>ms_db = \<lparr>md_schema = [], md_table = False, md_versions = [], md_tx = None\<rparr>,
     ms_plan = [False, False, False, False, False, True]\<rparr>"

text \<open>The commit of the first file loses its reply; the second run applies the other file only.\<close>

theorem migrate_each_once_witness:
  "fst (Migrate (sim_mig demo_mig_run) demo_fs demo_mig) \<noteq> Inr () \<and>
   mig_ok demo_mig_run demo_fs [] (ms_db (snd (Migrate (sim_mig demo_mig_run) demo_fs demo_mig))) \<and>
   md_schema (ms_db (snd (Migrate (sim_mig demo_mig_run) demo_fs (snd (Migrate (sim_mig demo_mig_run) demo_fs demo_mig))))) = [''A'', ''B'']"
proof -
  let ?r = "Migrate (sim_mig demo_mig_run) demo_fs demo_mig"
  have ok: "mig_ok demo_mig_run demo_fs [] (ms_db demo_mig)" by (simp add: mig_ok_def demo_mig_def)
  have dir: "fs_ReadDir demo_fs ''migrations'' = Inr [(''0002_b.sql'', False), (''README'', False), (''old.sql'', True), (''0001_a.sql'', False)]"
    by (simp add: demo_fs_def)
  have dist: "distinct (map fst [(''0002_b.sql'', False), (''README'', False), (''old.sql'', True), (''0001_a.sql'', False)])" by simp
  have run: "?r = (fst ?r, snd ?r)" by simp
  have err: "fst ?r \<noteq> Inr ()" by code_simp
  have second: "md_schema (ms_db (snd (Migrate (sim_mig demo_mig_run) demo_fs (snd ?r)))) = [''A'', ''B'']" by code_simp
  show ?thesis
    using migrate_each_once [OF simmig.migration_db_axioms ok dir dist run] err second by blast
qed

end
