(* ===== verification/Calendar.thy ===== *)
theory Calendar
  imports Go_Strings
begin

text \<open>
  UTC dates and the two layouts that \<open>s3presign.go\<close> formats them with. The date of an instant
  is computed as in Go's \<open>time\<close> package (cycles of 400, 100, 4 and 1 years); it is inverse to
  the day count of the Gregorian calendar.
\<close>

section \<open>Fixed-width numbers\<close>

definition zpad :: "nat \<Rightarrow> nat \<Rightarrow> string" where
  "zpad w n = (let s = nat_dec n in replicate (w - length s) CHR ''0'' @ s)"

lemma length_nat_dec: "n < 10 ^ w \<Longrightarrow> 0 < w \<Longrightarrow> length (nat_dec n) \<le> w"
proof (induction w arbitrary: n)
  case (Suc w)
  show ?case
  proof (cases "n < 10")
    case True
    then show ?thesis by (subst nat_dec.simps) simp
  next
    case False
    with Suc.prems have "n div 10 < 10 ^ w" "0 < w" by (auto intro: Suc_lessI gr0I)
    from Suc.IH [OF this] False show ?thesis by (subst nat_dec.simps) simp
  qed
qed simp

lemma length_zpad: "n < 10 ^ w \<Longrightarrow> 0 < w \<Longrightarrow> length (zpad w n) = w"
  by (simp add: zpad_def Let_def length_nat_dec)

lemma length_zpad2: "n < 100 \<Longrightarrow> length (zpad 2 n) = 2"
  and length_zpad4: "n < 10000 \<Longrightarrow> length (zpad 4 n) = 4"
  by (simp_all add: length_zpad)

lemma dec_nat_zpad [simp]: "dec_nat (zpad w n) = n"
proof -
  have "char_digit CHR ''0'' = 0" by code_simp
  then have "foldl (\<lambda>a c. a * 10 + char_digit c) 0 (replicate k CHR ''0'') = 0" for k
    by (induction k) simp_all
  then show ?thesis using dec_nat_dec [of n] by (simp add: zpad_def Let_def dec_nat_def)
qed

lemma zpad_digits: "list_all is_digit (zpad w n)"
proof -
  have "is_digit CHR ''0''" by code_simp
  then show ?thesis by (simp add: zpad_def Let_def list_all_iff [of _ "replicate _ _"])
qed

section \<open>Dates\<close>

record date =
  dt_year :: int
  dt_month :: nat
  dt_day :: int

definition is_leap :: "int \<Rightarrow> bool" where
  "is_leap y \<longleftrightarrow> y mod 4 = 0 \<and> (y mod 100 \<noteq> 0 \<or> y mod 400 = 0)"

definition month_lengths :: "int \<Rightarrow> int list" where
  "month_lengths y = [31, if is_leap y then 29 else 28, 31, 30, 31, 30, 31, 31, 30, 31, 30, 31]"

text \<open>Days before 1970-01-01, counted from 0001-01-01.\<close>

definition unix_days :: int where
  "unix_days = 719162"

text \<open>The day count of the calendar: the specification.\<close>

definition days_of :: "date \<Rightarrow> int" where
  "days_of dt = (let y = dt_year dt - 1 in
     365 * y + y div 4 - y div 100 + y div 400 +
     sum_list (take (dt_month dt - 1) (month_lengths (dt_year dt))) + dt_day dt - 1 - unix_days)"

definition year_yday :: "int \<Rightarrow> int \<times> int" where
  "year_yday days =
     (let d = days + unix_days;
          n400 = d div 146097; d = d mod 146097;
          n100 = min 3 (d div 36524); d = d - 36524 * n100;
          n4 = d div 1461; d = d mod 1461;
          n1 = min 3 (d div 365)
      in (400 * n400 + 100 * n100 + 4 * n4 + n1 + 1, d - 365 * n1))"

fun split_month :: "nat \<Rightarrow> int list \<Rightarrow> int \<Rightarrow> nat \<times> int" where
  "split_month m [] r = (m, r)"
| "split_month m (l # ls) r = (if r < l then (m, r) else split_month (Suc m) ls (r - l))"

definition date_of :: "int \<Rightarrow> date" where
  "date_of days = (let (y, yd) = year_yday days; (m, r) = split_month 1 (month_lengths y) yd
     in \<lparr>dt_year = y, dt_month = m, dt_day = r + 1\<rparr>)"

lemma int_div_eq: "x = m * k + r \<Longrightarrow> 0 \<le> r \<Longrightarrow> r < m \<Longrightarrow> x div m = (k :: int)"
  by simp

lemma int_mod_zero: "x = m * k + r \<Longrightarrow> 0 < r \<Longrightarrow> r \<le> m \<Longrightarrow> x mod m = 0 \<longleftrightarrow> r = (m :: int)"
  by (cases "r = m") auto

lemma int_div_less: "0 < b \<Longrightarrow> x < a * b \<Longrightarrow> x div b < (a :: int)"
proof (rule ccontr)
  assume b: "0 < b" "x < a * b" and "\<not> x div b < a"
  then have "a * b \<le> x div b * b" by (intro mult_right_mono) auto
  then show False using b pos_mod_sign [of b x] div_mult_mod_eq [of x b] by linarith
qed

lemma year_yday_count:
  assumes "year_yday days = (y, yd)"
  shows "days = 365 * (y - 1) + (y - 1) div 4 - (y - 1) div 100 + (y - 1) div 400 + yd - unix_days"
    and "0 \<le> yd" and "yd < (if is_leap y then 366 else 365)"
proof -
  define d where "d = days + unix_days"
  define a where "a = d div 146097"
  define r where "r = d mod 146097"
  define b where "b = min 3 (r div 36524)"
  define s where "s = r - 36524 * b"
  define c where "c = s div 1461"
  define q where "q = s mod 1461"
  define e where "e = min 3 (q div 365)"
  have y: "y = 400 * a + 100 * b + 4 * c + e + 1" and yd: "yd = q - 365 * e"
    using assms by (simp_all add: year_yday_def Let_def d_def a_def r_def b_def s_def c_def q_def e_def)
  have r: "0 \<le> r" "r < 146097" "d = 146097 * a + r" by (simp_all add: a_def r_def)
  have b: "0 \<le> b" "b \<le> 3" "0 \<le> s" "b < 3 \<longrightarrow> s < 36524" "s < 36525" "r = 36524 * b + s"
    using r unfolding b_def s_def by (auto simp: min_def)
  have c: "0 \<le> q" "q < 1461" "s = 1461 * c + q" by (simp_all add: c_def q_def)
  from b(3) c have c0: "0 \<le> c" by linarith
  from b(5) c have c24: "c \<le> 24" by linarith
  from b(4) c(3) have qc: "b < 3 \<Longrightarrow> c = 24 \<Longrightarrow> q < 1460" by linarith
  have "0 \<le> q div 365" "q = 365 * (q div 365) + q mod 365" "0 \<le> q mod 365" "q mod 365 < 365"
    using c(1) by (simp_all add: pos_imp_zdiv_nonneg_iff)
  then have e: "0 \<le> e" "e \<le> 3" "0 \<le> yd" "e < 3 \<longrightarrow> yd < 365" "e = 3 \<longrightarrow> yd = q - 1095"
    unfolding e_def yd by (auto simp: min_def)
  have d4: "(y - 1) div 4 = 100 * a + 25 * b + c" "(y - 1) div 100 = 4 * a + b" "(y - 1) div 400 = a"
  proof -
    show "(y - 1) div 4 = 100 * a + 25 * b + c"
      by (rule int_div_eq [where r = e]) (use e(1,2) in \<open>simp_all add: y\<close>)
    show "(y - 1) div 100 = 4 * a + b"
      by (rule int_div_eq [where r = "4 * c + e"]) (use c0 c24 e(1,2) in \<open>simp_all add: y\<close>)
    show "(y - 1) div 400 = a"
      by (rule int_div_eq [where r = "100 * b + 4 * c + e"]) (use b(1,2) c0 c24 e(1,2) in \<open>simp_all add: y\<close>)
  qed
  have "d = 365 * (y - 1) + (100 * a + 25 * b + c) - (4 * a + b) + a + yd"
    using r(3) b(6) c(3) y yd by simp
  then show "days = 365 * (y - 1) + (y - 1) div 4 - (y - 1) div 100 + (y - 1) div 400 + yd - unix_days"
    using d4 by (simp add: d_def)
  show "0 \<le> yd" by (rule e)
  have "y mod 4 = 0 \<longleftrightarrow> e + 1 = 4"
    by (rule int_mod_zero [where k = "100 * a + 25 * b + c"]) (use e(1,2) in \<open>simp_all add: y\<close>)
  moreover have "y mod 100 = 0 \<longleftrightarrow> 4 * c + e + 1 = 100"
    by (rule int_mod_zero [where k = "4 * a + b"]) (use e(1,2) c0 c24 in \<open>simp_all add: y\<close>)
  moreover have "y mod 400 = 0 \<longleftrightarrow> 100 * b + 4 * c + e + 1 = 400"
    by (rule int_mod_zero [where k = a]) (use e(1,2) b(1,2) c0 c24 in \<open>simp_all add: y\<close>)
  ultimately have "is_leap y \<longleftrightarrow> e = 3 \<and> (c < 24 \<or> b = 3)"
    unfolding is_leap_def using b c24 e by auto
  then show "yd < (if is_leap y then 366 else 365)"
    using e c qc b c24 by auto
qed

lemma split_month_count:
  assumes "split_month m ls r = (m', r')" and "0 \<le> r" and "r < sum_list ls"
  shows "m \<le> m' \<and> m' < m + length ls \<and> 0 \<le> r' \<and> r' < ls ! (m' - m) \<and> r = sum_list (take (m' - m) ls) + r'"
  using assms
proof (induction m ls r rule: split_month.induct)
  case (2 m l ls r)
  show ?case
  proof (cases "r < l")
    case False
    with 2 have IH: "Suc m \<le> m' \<and> m' < Suc m + length ls \<and> 0 \<le> r' \<and> r' < ls ! (m' - Suc m) \<and>
        r - l = sum_list (take (m' - Suc m) ls) + r'" by simp
    then obtain k where "m' - m = Suc k" "m' - Suc m = k" by (cases "m' - m") auto
    with IH show ?thesis by auto
  qed (use 2 in auto)
qed simp

lemma date_of_valid:
  "days_of (date_of days) = days"
  "1 \<le> dt_month (date_of days)" "dt_month (date_of days) \<le> 12"
  "1 \<le> dt_day (date_of days)" "dt_day (date_of days) \<le> month_lengths (dt_year (date_of days)) ! (dt_month (date_of days) - 1)"
proof -
  obtain y yd where y: "year_yday days = (y, yd)" by fastforce
  obtain m r where m: "split_month 1 (month_lengths y) yd = (m, r)" by fastforce
  note Y = year_yday_count [OF y]
  have "yd < sum_list (month_lengths y)" using Y(3) by (simp add: month_lengths_def split: if_splits)
  note M = split_month_count [OF m Y(2) this]
  have D: "date_of days = \<lparr>dt_year = y, dt_month = m, dt_day = r + 1\<rparr>" by (simp add: date_of_def y m [unfolded One_nat_def])
  show "days_of (date_of days) = days" unfolding D days_of_def Let_def using M Y(1) by simp
  show "1 \<le> dt_month (date_of days)" "dt_month (date_of days) \<le> 12" "1 \<le> dt_day (date_of days)"
    "dt_day (date_of days) \<le> month_lengths (dt_year (date_of days)) ! (dt_month (date_of days) - 1)"
    using M by (simp_all add: D month_lengths_def)
qed

section \<open>The layouts\<close>

definition days_since_epoch :: "time \<Rightarrow> int" where
  "days_since_epoch t = t div Second div 86400"

definition second_of_day :: "time \<Rightarrow> nat" where
  "second_of_day t = nat (t div Second mod 86400)"

text \<open>\<open>Format("20060102")\<close> and \<open>Format("20060102T150405Z")\<close>.\<close>

definition Format_date :: "time \<Rightarrow> string" where
  "Format_date t = (let dt = date_of (days_since_epoch t) in
     (if dt_year dt < 0 then ''-'' else '''') @ zpad 4 (nat \<bar>dt_year dt\<bar>) @ zpad 2 (dt_month dt) @ zpad 2 (nat (dt_day dt)))"

definition Format_time :: "time \<Rightarrow> string" where
  "Format_time t = (let s = second_of_day t in
     zpad 2 (s div 3600) @ zpad 2 (s mod 3600 div 60) @ zpad 2 (s mod 60))"

definition Format_amz :: "time \<Rightarrow> string" where
  "Format_amz t = Format_date t @ ''T'' @ Format_time t @ ''Z''"

text \<open>Reading such a timestamp: the number of seconds since the epoch.\<close>

definition parse_amz :: "string \<Rightarrow> int option" where
  "parse_amz s =
     (let n = (\<lambda>i w. dec_nat (take w (drop i s)));
          dt = \<lparr>dt_year = int (n 0 4), dt_month = n 4 2, dt_day = int (n 6 2)\<rparr>
      in if length s = 16 \<and> list_all is_digit (take 8 s) \<and> s ! 8 = CHR ''T'' \<and>
            list_all is_digit (take 6 (drop 9 s)) \<and> s ! 15 = CHR ''Z'' \<and>
            1 \<le> dt_month dt \<and> dt_month dt \<le> 12 \<and> 1 \<le> dt_day dt \<and>
            dt_day dt \<le> month_lengths (dt_year dt) ! (dt_month dt - 1) \<and>
            n 9 2 < 24 \<and> n 11 2 < 60 \<and> n 13 2 < 60
         then Some (days_of dt * 86400 + int (n 9 2 * 3600 + n 11 2 * 60 + n 13 2)) else None)"

text \<open>The instants whose year has four digits, from 1970 on.\<close>

definition four_digit_year :: "time \<Rightarrow> bool" where
  "four_digit_year t \<longleftrightarrow> 0 \<le> t \<and> t < 253402300800 * Second"

lemma four_digit_yearD:
  assumes "four_digit_year t"
  shows "1 \<le> dt_year (date_of (days_since_epoch t))" "dt_year (date_of (days_since_epoch t)) \<le> 9999"
proof -
  let ?days = "days_since_epoch t"
  obtain y yd where y: "year_yday ?days = (y, yd)" by fastforce
  have t: "0 \<le> t" "t < (2932897 * 86400) * Second" using assms by (simp_all add: four_digit_year_def Second_def)
  have d0: "0 \<le> ?days"
    using t(1) by (simp add: days_since_epoch_def Second_def pos_imp_zdiv_nonneg_iff)
  have d1: "?days < 2932897"
    unfolding days_since_epoch_def by (intro int_div_less t(2)) (simp_all add: Second_def)
  define z where "z = y - 1"
  have z: "z = 4 * (z div 4) + z mod 4" "z = 100 * (z div 100) + z mod 100" "z = 400 * (z div 400) + z mod 400"
    "0 \<le> z mod 4" "z mod 4 < 4" "0 \<le> z mod 100" "z mod 100 < 100" "0 \<le> z mod 400" "z mod 400 < 400" by simp_all
  note Y = year_yday_count(1,2) [OF y, folded z_def, unfolded unix_days_def]
  have "yd \<le> 365" using year_yday_count(3) [OF y] by (simp split: if_splits)
  with z Y d0 have "0 \<le> z" by linarith
  moreover from z Y d1 have "z \<le> 9998" by linarith
  moreover have "dt_year (date_of ?days) = y" by (simp add: date_of_def y case_prod_beta)
  ultimately show "1 \<le> dt_year (date_of ?days)" "dt_year (date_of ?days) \<le> 9999" by (simp_all add: z_def)
qed

lemma month_length_le: "k < 12 \<Longrightarrow> month_lengths y ! k \<le> 31"
  by (auto simp: month_lengths_def nth_Cons' split: if_splits)

lemma date_of_day: "dt_day (date_of days) \<le> 31"
proof -
  have "dt_month (date_of days) - 1 < 12" using date_of_valid(2,3) [of days] by linarith
  from month_length_le [OF this] date_of_valid(5) [of days] show ?thesis by (rule order_trans [rotated])
qed

lemma second_of_day_parts:
  "second_of_day t div 3600 < 24" "second_of_day t mod 3600 div 60 < 60" "second_of_day t mod 60 < 60"
  "int (second_of_day t div 3600 * 3600 + second_of_day t mod 3600 div 60 * 60 + second_of_day t mod 60) = t div Second mod 86400"
proof -
  define n where "n = second_of_day t"
  have n: "int n = t div Second mod 86400" "n < 86400" by (simp_all add: n_def second_of_day_def)
  show "second_of_day t div 3600 < 24" "second_of_day t mod 3600 div 60 < 60" "second_of_day t mod 60 < 60"
    unfolding n_def [symmetric] by (simp_all add: less_mult_imp_div_less n(2))
  have "n mod 60 = n mod 3600 mod 60" by (simp add: mod_mod_cancel)
  then have "n div 3600 * 3600 + n mod 3600 div 60 * 60 + n mod 60 = n"
    using div_mult_mod_eq [of n 3600] div_mult_mod_eq [of "n mod 3600" 60] by linarith
  then show "int (second_of_day t div 3600 * 3600 + second_of_day t mod 3600 div 60 * 60 + second_of_day t mod 60) = t div Second mod 86400"
    using n(1) unfolding n_def [symmetric] by simp
qed

lemma length_Format_date: "four_digit_year t \<Longrightarrow> length (Format_date t) = 8"
  using four_digit_yearD [of t] date_of_valid(3) [of "days_since_epoch t"] date_of_day [of "days_since_epoch t"]
  by (simp add: Format_date_def Let_def length_zpad2 length_zpad4)

lemma take_Format_amz: "four_digit_year t \<Longrightarrow> take 8 (Format_amz t) = Format_date t"
  by (simp add: Format_amz_def length_Format_date)

lemma parse_Format_amz:
  assumes "four_digit_year t"
  shows "parse_amz (Format_amz t) = Some (t div Second)"
proof -
  let ?dt = "date_of (days_since_epoch t)" and ?s = "second_of_day t"
  note Y = four_digit_yearD [OF assms] and V = date_of_valid [of "days_since_epoch t"]
  note S = second_of_day_parts [of t]
  define a b c e f g where "a = zpad 4 (nat (dt_year ?dt))" and "b = zpad 2 (dt_month ?dt)"
    and "c = zpad 2 (nat (dt_day ?dt))" and "e = zpad 2 (?s div 3600)"
    and "f = zpad 2 (?s mod 3600 div 60)" and "g = zpad 2 (?s mod 60)"
  note D = a_def b_def c_def e_def f_def g_def
  have len: "length a = 4" "length b = 2" "length c = 2" "length e = 2" "length f = 2" "length g = 2"
  proof -
    have "nat (dt_year ?dt) < 10000" "dt_month ?dt < 100" "nat (dt_day ?dt) < 100"
      "?s div 3600 < 100" "?s mod 3600 div 60 < 100" "?s mod 60 < 100"
      using Y V(3) date_of_day [of "days_since_epoch t"] S(1-3) by linarith+
    then show "length a = 4" "length b = 2" "length c = 2" "length e = 2" "length f = 2" "length g = 2"
      unfolding D by (blast intro: length_zpad4 length_zpad2)+
  qed
  have val: "dec_nat a = nat (dt_year ?dt)" "dec_nat b = dt_month ?dt" "dec_nat c = nat (dt_day ?dt)"
    "dec_nat e = ?s div 3600" "dec_nat f = ?s mod 3600 div 60" "dec_nat g = ?s mod 60"
    unfolding D by simp_all
  have dig: "list_all is_digit a" "list_all is_digit b" "list_all is_digit c" "list_all is_digit e"
    "list_all is_digit f" "list_all is_digit g"
    unfolding D by (simp_all add: zpad_digits)
  have F: "Format_amz t = a @ b @ c @ ''T'' @ e @ f @ g @ ''Z''"
    using Y by (simp add: Format_amz_def Format_date_def Format_time_def Let_def D)
  have dt: "\<lparr>dt_year = dt_year ?dt, dt_month = dt_month ?dt, dt_day = dt_day ?dt\<rparr> = ?dt" by simp
  have d1: "Suc 0 \<le> nat (dt_day ?dt)" using V(4) by linarith
  have "t div Second = days_since_epoch t * 86400 + t div Second mod 86400"
    by (simp add: days_since_epoch_def)
  then show ?thesis
    using V S Y by (simp add: parse_amz_def F Let_def len val dig dt d1 nth_append list_all_append)
qed

end
