(* ===== verification/S3_Presign.thy ===== *)
theory S3_Presign
  imports Calendar Recordings Base64 "HOL-Library.List_Lexorder" "HOL-Library.Char_ord"
begin

text \<open>
  Presigned upload URLs (\<open>recordings/s3presign.go\<close>): AWS Signature V4 in the query string. SHA-256
  and HMAC are parameters (the results hold for every pair of functions), the instant
  \<open>p.now()\<close> is an argument. The escaping of Go's \<open>net/url\<close> is modelled byte by byte. The
  specification is a bucket that checks a signed PUT the way Signature V4 prescribes:
  it decodes the URL, rebuilds the canonical request with AWS's own encoding, and recomputes the
  signature.
\<close>

section \<open>Escaping\<close>

definition is_alnum :: "char \<Rightarrow> bool" where
  "is_alnum c \<longleftrightarrow> (let n = of_char c :: nat in 48 \<le> n \<and> n \<le> 57 \<or> 65 \<le> n \<and> n \<le> 90 \<or> 97 \<le> n \<and> n \<le> 122)"

text \<open>The unreserved characters of RFC 3986.\<close>

definition unreserved :: "char \<Rightarrow> bool" where
  "unreserved c \<longleftrightarrow> is_alnum c \<or> c \<in> {CHR ''-'', CHR ''_'', CHR ''.'', CHR ''~''}"

definition hex_digit :: "nat \<Rightarrow> char" where
  "hex_digit n = (if n < 10 then char_of (48 + n) else char_of (55 + n))"

definition pct :: "char \<Rightarrow> string" where
  "pct c = [CHR ''%'', hex_digit (of_char c div 16), hex_digit (of_char c mod 16)]"

definition PathEscape :: "string \<Rightarrow> string" where
  "PathEscape s = concat (map (\<lambda>c. if unreserved c \<or> c \<in> {CHR ''$'', CHR ''&'', CHR ''+'', CHR '':'', CHR ''='', CHR ''@''}
     then [c] else pct c) s)"

definition QueryEscape :: "string \<Rightarrow> string" where
  "QueryEscape s = concat (map (\<lambda>c. if unreserved c then [c] else if c = CHR '' '' then ''+'' else pct c) s)"

text \<open>\<open>url.Values\<close>: every key with its list of values; \<open>Encode\<close> sorts by key.\<close>

type_synonym url_Values = "(string, string list) gomap"

definition Values_Set :: "string \<Rightarrow> string \<Rightarrow> url_Values \<Rightarrow> url_Values" where
  "Values_Set k v m = map_set k [v] m"

definition Values_Encode :: "url_Values \<Rightarrow> string" where
  "Values_Encode m = Join ''&'' (concat (map (\<lambda>k. map (\<lambda>v. QueryEscape k @ ''='' @ QueryEscape v) (map_get [] m k))
     (sort (map fst m))))"

section \<open>The presigner\<close>

record S3Presigner =
  s3_endpoint :: string
  s3_region :: string
  s3_accessKey :: string
  s3_secretKey :: string
  s3_bucket :: string
  s3_secure :: bool

definition NewS3Presigner :: "string \<Rightarrow> string \<Rightarrow> string \<Rightarrow> string \<Rightarrow> string \<Rightarrow> bool \<Rightarrow> S3Presigner res" where
  "NewS3Presigner endpoint accessKey secretKey bucket region secure =
     (if endpoint = '''' \<or> accessKey = '''' \<or> secretKey = '''' \<or> bucket = ''''
      then Inl (ErrNew ''s3 presigner requires endpoint, credentials, and bucket'')
      else let region = (if region = '''' then ''us-east-1'' else region)
           in Inr \<lparr>s3_endpoint = endpoint, s3_region = region, s3_accessKey = accessKey, s3_secretKey = secretKey,
                s3_bucket = bucket, s3_secure = secure\<rparr>)"

definition encodePath :: "string \<Rightarrow> string" where
  "encodePath p = Join ''/'' (map PathEscape (Split CHR ''/'' p))"

definition hexSHA256 :: "(string \<Rightarrow> string) \<Rightarrow> string \<Rightarrow> string" where
  "hexSHA256 sha256 data = hex_EncodeToString (sha256 data)"

definition signingKey :: "(string \<Rightarrow> string \<Rightarrow> string) \<Rightarrow> S3Presigner \<Rightarrow> string \<Rightarrow> string" where
  "signingKey hmacSHA256 p dateStamp =
     (let kDate = hmacSHA256 (''AWS4'' @ s3_secretKey p) dateStamp;
          kRegion = hmacSHA256 kDate (s3_region p);
          kService = hmacSHA256 kRegion ''s3''
      in hmacSHA256 kService ''aws4_request'')"

abbreviation nl :: string where
  "nl \<equiv> [CHR 0x0A]"

definition PresignPut ::
  "(string \<Rightarrow> string) \<Rightarrow> (string \<Rightarrow> string \<Rightarrow> string) \<Rightarrow> S3Presigner \<Rightarrow> time \<Rightarrow> presigner" where
  "PresignPut sha256 hmacSHA256 p now objectKey contentType expiry =
     (let amzDate = Format_amz now;
          dateStamp = Format_date now;
          scope = Join ''/'' [dateStamp, s3_region p, ''s3'', ''aws4_request''];
          scheme = (if \<not> s3_secure p then ''http'' else ''https'');
          canonicalURI = ''/'' @ s3_bucket p @ ''/'' @ encodePath objectKey;
          query = Values_Set ''X-Amz-SignedHeaders'' ''host''
            (Values_Set ''X-Amz-Expires'' (Itoa (whole_seconds expiry))
            (Values_Set ''X-Amz-Date'' amzDate
            (Values_Set ''X-Amz-Credential'' (s3_accessKey p @ ''/'' @ scope)
            (Values_Set ''X-Amz-Algorithm'' ''AWS4-HMAC-SHA256'' []))));
          canonicalQuery = Values_Encode query;
          canonicalHeaders = ''host:'' @ s3_endpoint p @ nl;
          canonicalRequest = Join nl [''PUT'', canonicalURI, canonicalQuery, canonicalHeaders, ''host'', ''UNSIGNED-PAYLOAD''];
          stringToSign = Join nl [''AWS4-HMAC-SHA256'', amzDate, scope, hexSHA256 sha256 canonicalRequest];
          signature = hex_EncodeToString (hmacSHA256 (signingKey hmacSHA256 p dateStamp) stringToSign)
      in Inr (scheme @ ''://'' @ s3_endpoint p @ canonicalURI @ ''?'' @ canonicalQuery @ ''&X-Amz-Signature='' @ signature))"

section \<open>What the bucket checks\<close>

fun hex_value :: "char \<Rightarrow> nat option" where
  "hex_value c = (let n = of_char c :: nat in
     if 48 \<le> n \<and> n \<le> 57 then Some (n - 48)
     else if 65 \<le> n \<and> n \<le> 70 then Some (n - 55)
     else if 97 \<le> n \<and> n \<le> 102 then Some (n - 87) else None)"

declare hex_value.simps [simp del]

text \<open>Percent-decoding; in a query, \<open>+\<close> is a space.\<close>

fun unescape :: "bool \<Rightarrow> string \<Rightarrow> string option" where
  "unescape q [] = Some []"
| "unescape q (c # cs) =
     (if c = CHR ''%'' then
        (case cs of x # y # rest \<Rightarrow>
           (case (hex_value x, hex_value y, unescape q rest) of
              (Some a, Some b, Some r) \<Rightarrow> Some (char_of (16 * a + b) # r)
            | _ \<Rightarrow> None)
         | _ \<Rightarrow> None)
      else map_option (Cons (if q \<and> c = CHR ''+'' then CHR '' '' else c)) (unescape q cs))"

text \<open>AWS's \<open>UriEncode\<close>: everything but unreserved characters, in a path also but slashes.\<close>

definition aws_encode :: "string \<Rightarrow> string" where
  "aws_encode s = concat (map (\<lambda>c. if unreserved c then [c] else pct c) s)"

definition aws_encode_path :: "string \<Rightarrow> string" where
  "aws_encode_path s = concat (map (\<lambda>c. if unreserved c \<or> c = CHR ''/'' then [c] else pct c) s)"

record put_url =
  pu_host :: string
  pu_path :: string
  pu_query :: string

definition split_url :: "string \<Rightarrow> put_url option" where
  "split_url u =
     (case first_strip [''https://'', ''http://''] u of
        None \<Rightarrow> None
      | Some r \<Rightarrow>
          let rest = dropWhile (\<lambda>c. c \<noteq> CHR ''/'') r
          in Some \<lparr>pu_host = takeWhile (\<lambda>c. c \<noteq> CHR ''/'') r, pu_path = takeWhile (\<lambda>c. c \<noteq> CHR ''?'') rest,
               pu_query = tl (dropWhile (\<lambda>c. c \<noteq> CHR ''?'') rest)\<rparr>)"

definition query_param :: "string \<Rightarrow> (string \<times> string) option" where
  "query_param kv = (case Split CHR ''='' kv of
     [k, v] \<Rightarrow> (case (unescape True k, unescape True v) of (Some a, Some b) \<Rightarrow> Some (a, b) | _ \<Rightarrow> None)
   | _ \<Rightarrow> None)"

definition canonical_params :: "(string \<times> string) list \<Rightarrow> string" where
  "canonical_params ps = Join ''&'' (map (\<lambda>(k, v). aws_encode k @ ''='' @ aws_encode v) (sort_key fst ps))"

record bucket_server =
  bs_region :: string
  bs_secret :: "string \<Rightarrow> string option"

definition sigv4 ::
  "(string \<Rightarrow> string) \<Rightarrow> (string \<Rightarrow> string \<Rightarrow> string) \<Rightarrow> string \<Rightarrow> string \<Rightarrow> string \<Rightarrow> string \<Rightarrow> string \<Rightarrow> string" where
  "sigv4 sha256 hmac secret date region amzdate canonical =
     (let k = hmac (hmac (hmac (hmac (''AWS4'' @ secret) date) region) ''s3'') ''aws4_request'';
          scope = date @ ''/'' @ region @ ''/s3/aws4_request''
      in hex_EncodeToString (hmac k (''AWS4-HMAC-SHA256'' @ nl @ amzdate @ nl @ scope @ nl @ hex_EncodeToString (sha256 canonical))))"

text \<open>
  The outcome of \<open>PUT\<close> on a presigned URL at an instant: the object that is written
  (\<open>/bucket/key\<close>), or nothing.
\<close>

definition bucket_put ::
  "(string \<Rightarrow> string) \<Rightarrow> (string \<Rightarrow> string \<Rightarrow> string) \<Rightarrow> bucket_server \<Rightarrow> time \<Rightarrow> string \<Rightarrow> string option" where
  "bucket_put sha256 hmac b now u =
     (case split_url u of None \<Rightarrow> None | Some pu \<Rightarrow>
      (case (unescape False (pu_path pu), all_some (map query_param (Split CHR ''&'' (pu_query pu)))) of
         (Some path, Some ps) \<Rightarrow>
           let get = (\<lambda>k. map_get '''' ps k);
               signed = filter (\<lambda>p. fst p \<noteq> ''X-Amz-Signature'') ps;
               canonical = ''PUT'' @ nl @ aws_encode_path path @ nl @ canonical_params signed @ nl @
                 ''host:'' @ pu_host pu @ nl @ nl @ ''host'' @ nl @ ''UNSIGNED-PAYLOAD''
           in (case (Split CHR ''/'' (get ''X-Amz-Credential''), parse_amz (get ''X-Amz-Date''), Atoi (get ''X-Amz-Expires'')) of
                 ([akid, date, region, service, terminal], Some t, (expires, True)) \<Rightarrow>
                   (case bs_secret b akid of
                      None \<Rightarrow> None
                    | Some secret \<Rightarrow>
                        if get ''X-Amz-Algorithm'' = ''AWS4-HMAC-SHA256'' \<and> get ''X-Amz-SignedHeaders'' = ''host'' \<and>
                           date = take 8 (get ''X-Amz-Date'') \<and> region = bs_region b \<and> service = ''s3'' \<and> terminal = ''aws4_request'' \<and>
                           1 \<le> expires \<and> expires \<le> 604800 \<and> t \<le> now div Second \<and> now div Second \<le> t + expires \<and>
                           get ''X-Amz-Signature'' = sigv4 sha256 hmac secret date region (get ''X-Amz-Date'') canonical
                        then Some path else None)
               | _ \<Rightarrow> None)
       | _ \<Rightarrow> None))"

section \<open>Escaping and decoding\<close>

lemma char_high [simp]: "(of_char c :: nat) div 16 < 16"
  by (simp add: less_mult_imp_div_less)

lemma hex_value_digit: "n < 16 \<Longrightarrow> hex_value (hex_digit n) = Some n"
  by (auto simp: hex_value.simps hex_digit_def Let_def)

lemma unescape_pct: "unescape q (pct c @ r) = map_option (Cons c) (unescape q r)"
  by (simp add: pct_def hex_value_digit split: option.split)

lemma unreserved_not [simp]:
  "\<not> unreserved CHR ''%''" "\<not> unreserved CHR ''+''" "\<not> unreserved CHR ''/''" "\<not> unreserved CHR ''?''"
  "\<not> unreserved CHR ''&''" "\<not> unreserved CHR ''=''" "\<not> unreserved CHR '' ''" "\<not> unreserved CHR '':''"
  by code_simp+

lemma unescape_plain:
  "c \<noteq> CHR ''%'' \<Longrightarrow> \<not> (q \<and> c = CHR ''+'') \<Longrightarrow> unescape q (c # r) = map_option (Cons c) (unescape q r)"
  by auto

lemma unescape_concat:
  assumes "\<And>c r. c \<in> set s \<Longrightarrow> unescape q (f c @ r) = map_option (Cons c) (unescape q r)"
  shows "unescape q (concat (map f s)) = Some s"
  using assms by (induction s) (simp_all del: unescape.simps(2))

lemma unescape_QueryEscape [simp]: "unescape True (QueryEscape s) = Some s"
proof -
  have "unescape True ((if unreserved c then [c] else if c = CHR '' '' then ''+'' else pct c) @ r) =
      map_option (Cons c) (unescape True r)" for c r
    using unescape_plain [of c True r] by (auto simp: unescape_pct simp del: unescape.simps(2)) auto
  then show ?thesis unfolding QueryEscape_def by (rule unescape_concat)
qed

lemma unescape_aws_path [simp]: "unescape False (aws_encode_path s) = Some s"
proof -
  have "unescape False ((if unreserved c \<or> c = CHR ''/'' then [c] else pct c) @ r) =
      map_option (Cons c) (unescape False r)" for c r
    using unescape_plain [of c False r] by (auto simp: unescape_pct simp del: unescape.simps(2)) auto
  then show ?thesis unfolding aws_encode_path_def by (rule unescape_concat)
qed

lemma hex_digit_alnum: "n < 16 \<Longrightarrow> is_alnum (hex_digit n)"
  by (auto simp: is_alnum_def hex_digit_def Let_def)

lemma set_pct: "c' \<in> set (pct c) \<Longrightarrow> c' = CHR ''%'' \<or> unreserved c'"
  using char_high [of c] by (auto simp: pct_def unreserved_def hex_digit_alnum simp del: char_high)

lemma set_QueryEscape: "c \<in> set (QueryEscape s) \<Longrightarrow> c = CHR ''%'' \<or> c = CHR ''+'' \<or> unreserved c"
  by (auto simp: QueryEscape_def dest: set_pct split: if_splits)

lemma set_aws_encode_path: "c \<in> set (aws_encode_path s) \<Longrightarrow> c = CHR ''%'' \<or> c = CHR ''/'' \<or> unreserved c"
  by (auto simp: aws_encode_path_def dest: set_pct split: if_splits)

lemma QueryEscape_seps: "CHR ''&'' \<notin> set (QueryEscape s)" "CHR ''='' \<notin> set (QueryEscape s)"
  by (auto dest: set_QueryEscape)

lemma aws_encode_id: "list_all unreserved s \<Longrightarrow> aws_encode s = s"
  unfolding aws_encode_def by (induction s) auto

lemma QueryEscape_aws: "CHR '' '' \<notin> set s \<Longrightarrow> QueryEscape s = aws_encode s"
  unfolding QueryEscape_def aws_encode_def by (induction s) auto

lemma aws_encode_path_id: "list_all (\<lambda>c. unreserved c \<or> c = CHR ''/'') s \<Longrightarrow> aws_encode_path s = s"
  unfolding aws_encode_path_def by (induction s) auto

lemma aws_encode_path_append: "aws_encode_path (s @ t) = aws_encode_path s @ aws_encode_path t"
  by (simp add: aws_encode_path_def)

lemma list_all_unreserved_set: "list_all unreserved s \<Longrightarrow> \<not> unreserved c \<Longrightarrow> c \<notin> set s"
  by (auto simp: list_all_iff)

text \<open>
  The characters that Go leaves alone in a path segment and AWS does not; elsewhere
  \<open>encodePath\<close> is AWS's encoding.
\<close>

definition path_gap :: "char \<Rightarrow> bool" where
  "path_gap c \<longleftrightarrow> c \<in> {CHR ''$'', CHR ''&'', CHR ''+'', CHR '':'', CHR ''='', CHR ''@''}"

lemma encodePath_chars:
  "encodePath s = concat (map (\<lambda>c. if c = CHR ''/'' then ''/'' else PathEscape [c]) s)"
proof (induction s)
  case Nil
  then show ?case by (simp add: encodePath_def PathEscape_def)
next
  case (Cons c s)
  obtain p ps where sp: "Split CHR ''/'' s = p # ps" by (meson Split_neq_Nil list.exhaust)
  have "PathEscape (c # p) = PathEscape [c] @ PathEscape p" "PathEscape [] = []" by (simp_all add: PathEscape_def)
  with Cons show ?case by (cases ps) (auto simp: encodePath_def sp)
qed

lemma encodePath_aws: "list_all (\<lambda>c. \<not> path_gap c) s \<Longrightarrow> encodePath s = aws_encode_path s"
  unfolding encodePath_chars aws_encode_path_def by (induction s) (auto simp: PathEscape_def path_gap_def)

lemma hex_EncodeToString_unreserved: "list_all unreserved (hex_EncodeToString s)"
proof -
  have "list_all unreserved hex_digits" by code_simp
  moreover have "length hex_digits = 16" by (simp add: hex_digits_def)
  ultimately have "unreserved (hex_digits ! n)" if "n < 16" for n
    using that by (simp add: list_all_length)
  then show ?thesis by (induction s) (simp_all add: hex_EncodeToString_def)
qed

section \<open>The URL as the bucket sees it\<close>

lemma sorted_keys:
  "sort [''X-Amz-Algorithm'', ''X-Amz-Credential'', ''X-Amz-Date'', ''X-Amz-Expires'', ''X-Amz-SignedHeaders''] =
     [''X-Amz-Algorithm'', ''X-Amz-Credential'', ''X-Amz-Date'', ''X-Amz-Expires'', ''X-Amz-SignedHeaders'']"
  by code_simp

lemma sorted_params:
  "sort_key fst [(''X-Amz-Algorithm'', a), (''X-Amz-Credential'', b), (''X-Amz-Date'', c), (''X-Amz-Expires'', d),
     (''X-Amz-SignedHeaders'', e)] =
     [(''X-Amz-Algorithm'', a), (''X-Amz-Credential'', b), (''X-Amz-Date'', c), (''X-Amz-Expires'', d), (''X-Amz-SignedHeaders'', e)]"
proof (rule sort_key_id_if_sorted)
  have "sorted [''X-Amz-Algorithm'', ''X-Amz-Credential'', ''X-Amz-Date'', ''X-Amz-Expires'', ''X-Amz-SignedHeaders'']"
    by code_simp
  then show "sorted (map fst [(''X-Amz-Algorithm'', a), (''X-Amz-Credential'', b), (''X-Amz-Date'', c), (''X-Amz-Expires'', d),
     (''X-Amz-SignedHeaders'', e)])" by simp
qed

definition param :: "string \<times> string \<Rightarrow> string" where
  "param p = QueryEscape (fst p) @ ''='' @ QueryEscape (snd p)"

lemma query_param_param [simp]: "query_param (param p) = Some p"
  by (simp add: query_param_def param_def Split_append Split_no_sep QueryEscape_seps)

lemma param_no_amp: "CHR ''&'' \<notin> set (param p)"
  by (simp add: param_def QueryEscape_seps)

lemma query_roundtrip:
  "ps \<noteq> [] \<Longrightarrow> all_some (map query_param (Split CHR ''&'' (Join ''&'' (map param ps)))) = Some ps"
  by (simp add: Split_Join param_no_amp all_some_map del: map_map)

lemma canonical_params_Join:
  assumes "\<And>k v. (k, v) \<in> set ps \<Longrightarrow> list_all unreserved k \<and> CHR '' '' \<notin> set v" and "sort_key fst ps = ps"
  shows "canonical_params ps = Join ''&'' (map param ps)"
proof -
  have "aws_encode (fst p) @ ''='' @ aws_encode (snd p) = param p" if "p \<in> set ps" for p
    using assms(1) [of "fst p" "snd p"] that QueryEscape_aws [of "fst p"] QueryEscape_aws [of "snd p"]
      list_all_unreserved_set [of "fst p" "CHR '' ''"] by (simp add: param_def)
  then have "map (\<lambda>(k, v). aws_encode k @ ''='' @ aws_encode v) ps = map param ps" by (simp add: case_prod_beta)
  then show ?thesis unfolding canonical_params_def assms(2) by (rule arg_cong)
qed

definition presign_params :: "S3Presigner \<Rightarrow> time \<Rightarrow> duration \<Rightarrow> (string \<times> string) list" where
  "presign_params p now expiry =
     [(''X-Amz-Algorithm'', ''AWS4-HMAC-SHA256''),
      (''X-Amz-Credential'', s3_accessKey p @ ''/'' @ Join ''/'' [Format_date now, s3_region p, ''s3'', ''aws4_request'']),
      (''X-Amz-Date'', Format_amz now), (''X-Amz-Expires'', Itoa (whole_seconds expiry)), (''X-Amz-SignedHeaders'', ''host'')]"

lemma Values_Encode_presign:
  "Values_Encode (Values_Set ''X-Amz-SignedHeaders'' ''host''
     (Values_Set ''X-Amz-Expires'' e (Values_Set ''X-Amz-Date'' d (Values_Set ''X-Amz-Credential'' c
     (Values_Set ''X-Amz-Algorithm'' ''AWS4-HMAC-SHA256'' []))))) =
   Join ''&'' (map param [(''X-Amz-Algorithm'', ''AWS4-HMAC-SHA256''), (''X-Amz-Credential'', c), (''X-Amz-Date'', d),
     (''X-Amz-Expires'', e), (''X-Amz-SignedHeaders'', ''host'')])"
  by (simp add: Values_Encode_def Values_Set_def sorted_keys map_get_def param_def del: sort_key_simps Join.simps)

lemma split_url_parts:
  assumes "scheme = ''https'' \<or> scheme = ''http''" and "CHR ''/'' \<notin> set host" and "CHR ''?'' \<notin> set path"
    and "path = CHR ''/'' # path'"
  shows "split_url (scheme @ ''://'' @ host @ path @ ''?'' @ query) = Some \<lparr>pu_host = host, pu_path = path, pu_query = query\<rparr>"
proof -
  have "first_strip [''https://'', ''http://''] (scheme @ ''://'' @ r) = Some r" for r
    using assms(1) by auto
  moreover have "takeWhile (\<lambda>c. c \<noteq> CHR ''/'') (host @ path @ r) = host" "dropWhile (\<lambda>c. c \<noteq> CHR ''/'') (host @ path @ r) = path @ r" for r
    using assms(2,4) by (auto simp: takeWhile_append dropWhile_append)
  moreover have "takeWhile (\<lambda>c. c \<noteq> CHR ''?'') (path @ ''?'' @ query) = path" "dropWhile (\<lambda>c. c \<noteq> CHR ''?'') (path @ ''?'' @ query) = ''?'' @ query"
    using assms(3) by (auto simp: takeWhile_append dropWhile_append)
  ultimately show ?thesis by (simp add: split_url_def Let_def)
qed

text \<open>The settings under which Go's escaping and AWS's agree.\<close>

definition presigner_plain :: "S3Presigner \<Rightarrow> bool" where
  "presigner_plain p \<longleftrightarrow> list_all unreserved (s3_accessKey p) \<and> list_all unreserved (s3_bucket p) \<and>
     list_all unreserved (s3_region p) \<and> CHR ''/'' \<notin> set (s3_endpoint p)"

definition serves :: "bucket_server \<Rightarrow> S3Presigner \<Rightarrow> bool" where
  "serves b p \<longleftrightarrow> bs_region b = s3_region p \<and> bs_secret b (s3_accessKey p) = Some (s3_secretKey p)"

lemma is_digit_unreserved: "is_digit c \<Longrightarrow> unreserved c"
  by (simp add: is_digit_def unreserved_def is_alnum_def)

lemma Format_date_digits: "four_digit_year t \<Longrightarrow> list_all is_digit (Format_date t)"
  using four_digit_yearD [of t] by (simp add: Format_date_def Let_def zpad_digits)

lemma digits_no: "list_all is_digit s \<Longrightarrow> \<not> unreserved c \<Longrightarrow> c \<notin> set s"
  by (auto simp: list_all_iff dest: is_digit_unreserved)

lemma Format_amz_no_space: "four_digit_year t \<Longrightarrow> CHR '' '' \<notin> set (Format_amz t)"
  using Format_date_digits [of t] by (simp add: Format_amz_def Format_time_def Let_def zpad_digits digits_no)

lemma Itoa_no_space: "CHR '' '' \<notin> set (Itoa n)"
  by (simp add: Itoa_def digits_no)

lemma presign_params_plain:
  assumes "presigner_plain p" and "four_digit_year now"
  shows "canonical_params (presign_params p now expiry) = Join ''&'' (map param (presign_params p now expiry))"
proof (rule canonical_params_Join)
  have u: "list_all unreserved ''X-Amz-Algorithm''" "list_all unreserved ''X-Amz-Credential''" "list_all unreserved ''X-Amz-Date''"
    "list_all unreserved ''X-Amz-Expires''" "list_all unreserved ''X-Amz-SignedHeaders''" by code_simp+
  show "\<And>k v. (k, v) \<in> set (presign_params p now expiry) \<Longrightarrow> list_all unreserved k \<and> CHR '' '' \<notin> set v"
    using assms u unfolding presign_params_def presigner_plain_def
    by (auto simp: Itoa_no_space Format_amz_no_space digits_no Format_date_digits list_all_unreserved_set)
  show "sort_key fst (presign_params p now expiry) = presign_params p now expiry"
    unfolding presign_params_def by (rule sorted_params)
qed

definition presign_signature ::
  "(string \<Rightarrow> string) \<Rightarrow> (string \<Rightarrow> string \<Rightarrow> string) \<Rightarrow> S3Presigner \<Rightarrow> time \<Rightarrow> string \<Rightarrow> duration \<Rightarrow> string" where
  "presign_signature sha256 hmac p now uri expiry =
     sigv4 sha256 hmac (s3_secretKey p) (Format_date now) (s3_region p) (Format_amz now)
       (''PUT'' @ nl @ uri @ nl @ Join ''&'' (map param (presign_params p now expiry)) @ nl @
        ''host:'' @ s3_endpoint p @ nl @ nl @ ''host'' @ nl @ ''UNSIGNED-PAYLOAD'')"

lemma Join_snoc: "ps \<noteq> [] \<Longrightarrow> Join sep (ps @ [x]) = Join sep ps @ sep @ x"
  by (induction sep ps rule: Join.induct) auto

lemma QueryEscape_id: "list_all unreserved s \<Longrightarrow> QueryEscape s = s"
  using QueryEscape_aws [of s] aws_encode_id [of s] list_all_unreserved_set [of s "CHR '' ''"] by simp

lemma param_signature: "param (''X-Amz-Signature'', hex_EncodeToString s) = ''X-Amz-Signature='' @ hex_EncodeToString s"
proof -
  have "list_all unreserved ''X-Amz-Signature''" by code_simp
  then show ?thesis by (simp add: param_def QueryEscape_id hex_EncodeToString_unreserved)
qed

lemma PresignPut_url:
  "PresignPut sha256 hmac p now key ct expiry =
     (let uri = ''/'' @ s3_bucket p @ ''/'' @ encodePath key
      in Inr ((if s3_secure p then ''https'' else ''http'') @ ''://'' @ s3_endpoint p @ uri @ ''?'' @
           Join ''&'' (map param (presign_params p now expiry @ [(''X-Amz-Signature'', presign_signature sha256 hmac p now uri expiry)]))))"
proof -
  have ne: "map param (presign_params p now expiry) \<noteq> []" by (simp add: presign_params_def)
  show ?thesis
    unfolding PresignPut_def Values_Encode_presign presign_params_def [symmetric] map_append list.map(1) list.map(2) Join_snoc [OF ne]
      presign_signature_def sigv4_def Let_def param_signature
    by (simp add: hexSHA256_def signingKey_def Let_def presign_params_def)
qed

lemma credential_split:
  assumes "presigner_plain p" and "four_digit_year now"
  shows "Split CHR ''/'' (s3_accessKey p @ ''/'' @ Join ''/'' [Format_date now, s3_region p, ''s3'', ''aws4_request'']) =
    [s3_accessKey p, Format_date now, s3_region p, ''s3'', ''aws4_request'']"
proof -
  have "CHR ''/'' \<notin> set (s3_accessKey p)" "CHR ''/'' \<notin> set (Format_date now)" "CHR ''/'' \<notin> set (s3_region p)"
    using assms by (simp_all add: presigner_plain_def list_all_unreserved_set digits_no Format_date_digits)
  then show ?thesis by (simp add: Split_append)
qed

lemma PresignPut_accepted:
  assumes "presigner_plain p" and "serves b p" and "list_all (\<lambda>c. \<not> path_gap c) key"
    and "four_digit_year now" and "1 \<le> whole_seconds expiry" and "whole_seconds expiry \<le> 604800"
  shows "\<exists>u. PresignPut sha256 hmac p now key ct expiry = Inr u \<and>
    bucket_put sha256 hmac b t u =
      (if now div Second \<le> t div Second \<and> t div Second \<le> now div Second + whole_seconds expiry
       then Some (''/'' @ s3_bucket p @ ''/'' @ key) else None)"
proof -
  define path where "path = ''/'' @ s3_bucket p @ ''/'' @ key"
  define uri where "uri = ''/'' @ s3_bucket p @ ''/'' @ encodePath key"
  define sig where "sig = presign_signature sha256 hmac p now uri expiry"
  define ps where "ps = presign_params p now expiry @ [(''X-Amz-Signature'', sig)]"
  have "list_all (\<lambda>c. unreserved c \<or> c = CHR ''/'') (s3_bucket p)"
    using assms(1) by (auto simp: presigner_plain_def list_all_iff)
  then have uri: "uri = aws_encode_path path"
    using aws_encode_path_append [of "''/'' @ s3_bucket p @ ''/''" key] aws_encode_path_id [of "''/'' @ s3_bucket p @ ''/''"]
    by (simp add: uri_def path_def encodePath_aws [OF assms(3)] aws_encode_path_append)
  have u: "split_url ((if s3_secure p then ''https'' else ''http'') @ ''://'' @ s3_endpoint p @ uri @ ''?'' @ Join ''&'' (map param ps)) =
      Some \<lparr>pu_host = s3_endpoint p, pu_path = uri, pu_query = Join ''&'' (map param ps)\<rparr>"
    by (rule split_url_parts [where path' = "s3_bucket p @ ''/'' @ encodePath key"])
      (use assms(1) in \<open>auto simp: presigner_plain_def uri dest: set_aws_encode_path\<close>, simp add: uri [symmetric] uri_def)
  have q: "all_some (map query_param (Split CHR ''&'' (Join ''&'' (map param ps)))) = Some ps"
    by (rule query_roundtrip) (simp add: ps_def)
  have get: "map_get '''' ps ''X-Amz-Credential'' = s3_accessKey p @ ''/'' @ Join ''/'' [Format_date now, s3_region p, ''s3'', ''aws4_request'']"
    "map_get '''' ps ''X-Amz-Date'' = Format_amz now" "map_get '''' ps ''X-Amz-Expires'' = Itoa (whole_seconds expiry)"
    "map_get '''' ps ''X-Amz-Algorithm'' = ''AWS4-HMAC-SHA256''" "map_get '''' ps ''X-Amz-SignedHeaders'' = ''host''"
    "map_get '''' ps ''X-Amz-Signature'' = sig"
    unfolding ps_def presign_params_def map_get_def by simp_all
  have f: "filter (\<lambda>p. fst p \<noteq> ''X-Amz-Signature'') ps = presign_params p now expiry"
    by (simp add: ps_def presign_params_def)
  have "in_int64 (whole_seconds expiry)" using assms(5,6) by (simp add: int64_bounds)
  note atoi = Atoi_Itoa [OF this]
  have sig: "sig = sigv4 sha256 hmac (s3_secretKey p) (Format_date now) (s3_region p) (Format_amz now)
      (''PUT'' @ nl @ aws_encode_path path @ nl @ canonical_params (presign_params p now expiry) @ nl @
        ''host:'' @ s3_endpoint p @ nl @ nl @ ''host'' @ nl @ ''UNSIGNED-PAYLOAD'')"
    by (simp add: sig_def presign_signature_def uri presign_params_plain [OF assms(1,4)])
  have "bucket_put sha256 hmac b t ((if s3_secure p then ''https'' else ''http'') @ ''://'' @ s3_endpoint p @ uri @ ''?'' @ Join ''&'' (map param ps)) =
      (if now div Second \<le> t div Second \<and> t div Second \<le> now div Second + whole_seconds expiry then Some path else None)"
    unfolding bucket_put_def u option.case q put_url.simps
    unfolding uri unescape_aws_path prod.case option.case Let_def get atoi credential_split [OF assms(1,4)]
      parse_Format_amz [OF assms(4)] f list.case bool.case
    using assms(2,5,6) sig by (simp add: serves_def take_Format_amz [OF assms(4)])
  then show ?thesis unfolding PresignPut_url Let_def uri_def [symmetric] ps_def sig_def path_def by blast
qed

section \<open>Upload slots\<close>

lemma NewS3Presigner_ok:
  "NewS3Presigner endpoint ak sk bucket region secure = Inr p \<Longrightarrow>
     s3_endpoint p = endpoint \<and> s3_accessKey p = ak \<and> s3_secretKey p = sk \<and> s3_bucket p = bucket \<and>
     s3_region p = (if region = '''' then ''us-east-1'' else region)"
  by (auto simp: NewS3Presigner_def Let_def split: if_splits)

lemma unreserved_no_gap: "unreserved c \<Longrightarrow> \<not> path_gap c"
proof -
  have "\<not> unreserved CHR ''$''" "\<not> unreserved CHR ''@''" by code_simp+
  then show "unreserved c \<Longrightarrow> \<not> path_gap c" by (auto simp: path_gap_def)
qed

lemma object_key_no_gap:
  assumes "\<And>u. list_all unreserved (uuid_String (rc_uuid s) u)"
  shows "list_all (\<lambda>c. \<not> path_gap c) (object_key s sid rid)"
proof -
  have "list_all (\<lambda>c. \<not> path_gap c) ''recordings/''" "list_all (\<lambda>c. \<not> path_gap c) ''/''" "list_all (\<lambda>c. \<not> path_gap c) ''.webm''"
    by code_simp+
  moreover have "list_all (\<lambda>c. \<not> path_gap c) (uuid_String (rc_uuid s) u)" for u
    using assms [of u] by (auto simp: list_all_iff unreserved_no_gap)
  ultimately show ?thesis unfolding object_key_def list_all_append by blast
qed

text \<open>
  C39: an upload slot is usable. When \<open>CreateUpload\<close> succeeds with a presigner configured with
  URL-safe names, the URL it returns is one that a bucket holding the same credentials accepts,
  from the second it was signed until exactly the announced number of seconds later and at no
  other time, and a PUT then writes the object under the key recorded in the new pending row.
\<close>

theorem upload_url_accepted:
  assumes "NewS3Presigner endpoint ak sk bucket region secure = Inr p"
    and "list_all unreserved ak" and "list_all unreserved bucket" and "list_all unreserved region" and "CHR ''/'' \<notin> set endpoint"
    and "serves b p" and "\<And>u. list_all unreserved (uuid_String (rc_uuid s) u)"
    and "four_digit_year now" and "rc_presigner s = PresignPut sha256 hmac p now"
    and "Second \<le> rc_urlTTL s" and "rc_urlTTL s \<le> 7 * 24 * Hour"
    and "pg_service (rc_db s) view" and "CreateUpload s rid org sid ct d = (Inr up, d')"
  shows "bucket_put sha256 hmac b t (up_URL up) =
      (if now div Second \<le> t div Second \<and> t div Second \<le> now div Second + up_ExpiresIn up
       then Some (''/'' @ bucket @ ''/'' @ up_ObjectKey up) else None) \<and>
    list_ex (\<lambda>r. rr_id r = up_RecordingID up \<and> rr_key r = up_ObjectKey up \<and> rr_org r = org \<and> rr_session r = sid \<and>
      rr_status r = RecPending) (db_recordings (view d'))"
proof -
  let ?ct = "if ct = '''' then ''video/webm'' else ct" and ?key = "object_key s sid rid"
  obtain url d1 rep where q: "rc_presigner s ?key ?ct (rc_urlTTL s) = Inr url"
      "rc_db s (InsertRecording rid sid org ?key ?ct) d1 = (Inr rep, d')"
    and up: "up = \<lparr>up_RecordingID = rid, up_ObjectKey = ?key, up_URL = url, up_ExpiresIn = whole_seconds (rc_urlTTL s)\<rparr>"
    using assms(13) by (auto simp: CreateUpload_def Let_def split: sum.splits prod.splits pg_reply.splits if_splits)
  note p = NewS3Presigner_ok [OF assms(1)]
  have "list_all unreserved ''us-east-1''" by code_simp
  then have plain: "presigner_plain p" using p assms(2-5) by (simp add: presigner_plain_def)
  have "1 \<le> rc_urlTTL s div Second" using assms(10) zdiv_mono1 [of Second "rc_urlTTL s" Second] by (simp add: Second_def)
  moreover have "rc_urlTTL s div Second \<le> 604800"
    using zdiv_mono1 [OF assms(11), of Second] by (simp add: Hour_def Minute_def Second_def)
  moreover have "whole_seconds (rc_urlTTL s) = rc_urlTTL s div Second"
    using assms(10) by (simp add: whole_seconds_def Second_def)
  ultimately obtain u where "PresignPut sha256 hmac p now ?key ?ct (rc_urlTTL s) = Inr u"
    "bucket_put sha256 hmac b t u = (if now div Second \<le> t div Second \<and> t div Second \<le> now div Second + whole_seconds (rc_urlTTL s)
       then Some (''/'' @ s3_bucket p @ ''/'' @ ?key) else None)"
    using PresignPut_accepted [OF plain assms(6) object_key_no_gap [OF assms(7), of sid rid] assms(8),
        where expiry = "rc_urlTTL s" and ct = ?ct and t = t and ?sha256.0 = sha256 and hmac = hmac] by auto
  moreover from pg_service.pg_ok [OF assms(12) q(2)]
  have "list_ex (\<lambda>r. rr_id r = rid \<and> rr_key r = ?key \<and> rr_org r = org \<and> rr_session r = sid \<and> rr_status r = RecPending)
      (db_recordings (view d'))"
    by (auto simp: sql_insert_recording_def list_ex_append split: if_splits dest!: sym [of _ "view d'"])
  ultimately show ?thesis using q(1) assms(9) p by (simp add: up)
qed

definition demo_s3 :: S3Presigner where
  "demo_s3 = \<lparr>s3_endpoint = ''minio.example.com:9000'', s3_region = ''us-east-1'', s3_accessKey = ''AKID'',
     s3_secretKey = ''SECRET'', s3_bucket = ''media'', s3_secure = True\<rparr>"

definition demo_s3_recs :: "pgsim Recs" where
  "demo_s3_recs = demo_recs\<lparr>rc_presigner := PresignPut rev (\<lambda>k m. k @ m) demo_s3 (1782820800 * Second)\<rparr>"

definition demo_bucket :: bucket_server where
  "demo_bucket = \<lparr>bs_region = ''us-east-1'', bs_secret = (\<lambda>k. if k = ''AKID'' then Some ''SECRET'' else None)\<rparr>"

theorem upload_url_accepted_witness:
  "\<exists>up d'. CreateUpload demo_s3_recs 7 5 1 '''' demo_rec_db = (Inr up, d') \<and>
     bucket_put rev (\<lambda>k m. k @ m) demo_bucket (1782821700 * Second) (up_URL up) = Some (''/media/'' @ up_ObjectKey up) \<and>
     bucket_put rev (\<lambda>k m. k @ m) demo_bucket (1782821701 * Second) (up_URL up) = None"
proof -
  have new: "NewS3Presigner ''minio.example.com:9000'' ''AKID'' ''SECRET'' ''media'' '''' True = Inr demo_s3"
    by (simp add: NewS3Presigner_def demo_s3_def)
  have safe: "list_all unreserved ''AKID''" "list_all unreserved ''media''" "list_all unreserved ''''" "list_all unreserved ''x''" by code_simp+
  have host: "CHR ''/'' \<notin> set ''minio.example.com:9000''" by simp
  have srv: "serves demo_bucket demo_s3" by (simp add: serves_def demo_bucket_def demo_s3_def)
  have uuid: "\<And>u. list_all unreserved (uuid_String (rc_uuid demo_s3_recs) u)"
    using safe(4) by (simp add: demo_s3_recs_def demo_recs_def)
  have now: "four_digit_year (1782820800 * Second)" by (simp add: four_digit_year_def Second_def)
  have ps: "rc_presigner demo_s3_recs = PresignPut rev (\<lambda>k m. k @ m) demo_s3 (1782820800 * Second)"
    by (simp add: demo_s3_recs_def)
  have ttl: "Second \<le> rc_urlTTL demo_s3_recs" "rc_urlTTL demo_s3_recs \<le> 7 * 24 * Hour"
    by (simp_all add: demo_s3_recs_def demo_recs_def Hour_def Minute_def Second_def)
  have svc: "pg_service (rc_db demo_s3_recs) pg_db"
    using demo_recs_service by (simp add: demo_s3_recs_def)
  obtain u where "PresignPut rev (\<lambda>k m. k @ m) demo_s3 (1782820800 * Second) (object_key demo_s3_recs 1 7) ''video/webm'' (15 * Minute) = Inr u"
    by (simp add: PresignPut_url Let_def)
  then obtain up d' where c: "CreateUpload demo_s3_recs 7 5 1 '''' demo_rec_db = (Inr up, d')" and e: "up_ExpiresIn up = 900"
    by (simp add: CreateUpload_def Let_def ps) (simp add: demo_s3_recs_def demo_recs_def demo_rec_db_def sim_pg_def pg_fail_def
      db_empty_def sql_session_in_org_def sql_insert_recording_def whole_seconds_def Minute_def Second_def Let_def)
  note A = upload_url_accepted [OF new safe(1-3) host srv uuid now ps ttl svc c]
  show ?thesis using A [of "1782821700 * Second"] A [of "1782821701 * Second"] c e by (simp add: Second_def)
qed

text \<open>The gap is real: a plus sign in a key is sent as it is but signed otherwise by the bucket.\<close>

lemma encodePath_gap: "encodePath ''a+b'' = ''a+b'' \<and> aws_encode_path ''a+b'' = ''a%2Bb''"
  by code_simp

end
