(* ===== verification/Redis_Presence.thy ===== *)
theory Redis_Presence
  imports Presence
begin

text \<open>
  The shared implementation of presence (\<open>signaling/redis.go\<close>: \<open>RedisPresence\<close>): a
  Redis hash of connection counts per room. The operations run over any Redis client;
  the contract \<open>presence\<close> is interpreted on the server that answers every call. Two
  facts go beyond the contract: on any client that keeps \<open>redis_service\<close>, \<open>Leave\<close>
  reports an empty room only when no count in the hash is positive; and once the hash has
  expired under two live connections, the first departure is reported as the last one.
\<close>

definition presenceKey :: "room \<Rightarrow> string" where
  "presenceKey m = ''signaling:presence:'' @ m"

definition positive_val :: "string \<Rightarrow> bool" where
  "positive_val v \<longleftrightarrow> 0 < fst (Atoi v)"

definition RedisPresence_Join ::
  "'r redis_client \<Rightarrow> duration \<Rightarrow> room \<Rightarrow> role \<Rightarrow> 'r \<Rightarrow> role list \<times> 'r" where
  "RedisPresence_Join exec ttl m r s =
     (let key = presenceKey m in
      case exec [HINCRBY key r 1, EXPIRE key ttl, HGETALL key] s of
        (Inl _, s') \<Rightarrow> ([], s')
      | (Inr reps, s') \<Rightarrow>
          (let vals = (case reps of [_, _, RMap h] \<Rightarrow> h | _ \<Rightarrow> [])
           in (map fst (filter (\<lambda>(field, val). field \<noteq> r \<and> positive_val val) vals), s')))"

definition RedisPresence_Leave ::
  "'r redis_client \<Rightarrow> room \<Rightarrow> role \<Rightarrow> 'r \<Rightarrow> bool \<times> 'r" where
  "RedisPresence_Leave exec m r s =
     (let key = presenceKey m in
      case exec [HINCRBY key r (- 1), HGETALL key] s of
        (Inl _, s') \<Rightarrow> (False, s')
      | (Inr reps, s') \<Rightarrow>
          (let vals = (case reps of [_, RMap h] \<Rightarrow> h | _ \<Rightarrow> [])
           in (list_all (\<lambda>(field, val). \<not> positive_val val) vals, s')))"

text \<open>The default lifetime of a signaling token, which the server passes as the TTL.\<close>

definition defaultSignalingTTL :: duration where
  "defaultSignalingTTL = 4 * Hour"

section \<open>Counts in the hash\<close>

definition rp_hash :: "keyspace \<Rightarrow> room \<Rightarrow> (string, string) gomap" where
  "rp_hash ks m = (case live ks (presenceKey m) of Some (RvHash h, _) \<Rightarrow> h | _ \<Rightarrow> [])"

definition hash_count :: "(string, string) gomap \<Rightarrow> role \<Rightarrow> int" where
  "hash_count h r = (case map_of h r of None \<Rightarrow> 0 | Some v \<Rightarrow> fst (Atoi v))"

definition rp_count :: "keyspace \<Rightarrow> room \<Rightarrow> role \<Rightarrow> int" where
  "rp_count ks m r = hash_count (rp_hash ks m) r"

definition rp_present :: "keyspace \<Rightarrow> room \<Rightarrow> role \<Rightarrow> nat" where
  "rp_present ks m r = nat (rp_count ks m r)"

definition hash_ok :: "(string, string) gomap \<Rightarrow> bool" where
  "hash_ok h \<longleftrightarrow> wf_map h \<and>
     (\<forall>r v. map_of h r = Some v \<longrightarrow> (\<exists>n. v = Itoa n \<and> 0 \<le> n \<and> n \<le> max_int64))"

definition rp_wf :: "keyspace \<Rightarrow> bool" where
  "rp_wf ks \<longleftrightarrow> (\<forall>m. case live ks (presenceKey m) of
     None \<Rightarrow> True | Some (RvHash h, _) \<Rightarrow> hash_ok h | Some (RvStr _, _) \<Rightarrow> False)"

lemma presenceKey_inj [simp]: "presenceKey m = presenceKey m' \<longleftrightarrow> m = m'"
  by (simp add: presenceKey_def)

lemma hash_ok_Nil [simp]: "hash_ok []"
  by (simp add: hash_ok_def)

lemma hash_okE:
  assumes "hash_ok h" and "map_of h r = Some v"
  obtains n where "v = Itoa n" "0 \<le> n" "n \<le> max_int64" "Atoi v = (n, True)" "hash_count h r = n"
proof -
  have "\<exists>n. v = Itoa n \<and> 0 \<le> n \<and> n \<le> max_int64"
    using assms by (simp add: hash_ok_def)
  then obtain n where n: "v = Itoa n" "0 \<le> n" "n \<le> max_int64" by (elim exE conjE)
  then have "Atoi v = (n, True)" by (simp add: Atoi_Itoa int64_bounds)
  with n assms(2) show thesis by (intro that) (simp_all add: hash_count_def)
qed

lemma hash_okD: "hash_ok h \<Longrightarrow> map_of h r = Some v \<Longrightarrow> Atoi v = (hash_count h r, True)"
  by (erule (1) hash_okE) simp

lemma hash_count_bounds:
  assumes "hash_ok h"
  shows "0 \<le> hash_count h r \<and> hash_count h r \<le> max_int64"
proof (cases "map_of h r")
  case None
  then show ?thesis by (simp add: hash_count_def max_int64_def)
next
  case (Some v)
  with assms obtain n where "0 \<le> n" "n \<le> max_int64" "hash_count h r = n" by (rule hash_okE)
  then show ?thesis by simp
qed

lemma hash_count_set [simp]:
  "in_int64 n \<Longrightarrow> hash_count (map_set r (Itoa n) h) r' = (if r' = r then n else hash_count h r')"
  by (simp add: hash_count_def Atoi_Itoa)

lemma hash_ok_set:
  "hash_ok h \<Longrightarrow> 0 \<le> n \<Longrightarrow> n \<le> max_int64 \<Longrightarrow> hash_ok (map_set r (Itoa n) h)"
  by (auto simp: hash_ok_def)

lemma rp_wfD:
  "rp_wf ks \<Longrightarrow> live ks (presenceKey m) = None \<or>
     (\<exists>h e. live ks (presenceKey m) = Some (RvHash h, e) \<and> hash_ok h)"
  unfolding rp_wf_def
  by (drule spec [of _ m]) (simp split: option.split_asm prod.split_asm rval.split_asm)

lemma rp_wf_hash: "rp_wf ks \<Longrightarrow> hash_ok (rp_hash ks m)"
  by (drule rp_wfD [where m = m]) (auto simp: rp_hash_def)

lemma rp_wf_live:
  "rp_wf ks \<Longrightarrow> live ks (presenceKey m) = Some (v, e) \<Longrightarrow> v = RvHash (rp_hash ks m)"
  by (drule rp_wfD [where m = m]) (auto simp: rp_hash_def)

lemma set_positive:
  assumes "wf_map h"
  shows "(\<exists>v. (r, v) \<in> set h \<and> positive_val v) \<longleftrightarrow> 0 < hash_count h r"
  using assms by (auto simp: in_set_wf_map positive_val_def hash_count_def split: option.splits)

section \<open>The transactions on the server\<close>

text \<open>One rule for \<open>HINCRBY\<close> on a well-formed room, whether or not its hash exists.\<close>

lemma hincrby_run:
  assumes "rp_wf ks" and "in_int64 (rp_count ks m r + n)"
  obtains e where
    "redis_cmd_run (HINCRBY (presenceKey m) r n) ks = (RInt (rp_count ks m r + n),
       ks_put (presenceKey m) (RvHash (map_set r (Itoa (rp_count ks m r + n)) (rp_hash ks m))) e ks)"
    "\<forall>t. e = Some t \<longrightarrow> ks_clock ks < t"
    "live ks (presenceKey m) = None \<longrightarrow> e = None"
proof (cases "live ks (presenceKey m)")
  case None
  then have "rp_hash ks m = []" "rp_count ks m r = 0"
    by (simp_all add: rp_hash_def rp_count_def hash_count_def)
  with None that [of None] show thesis by simp
next
  case (Some p)
  obtain v e where p: "p = (v, e)" by (cases p)
  with Some assms(1) have v: "v = RvHash (rp_hash ks m)" by (simp add: rp_wf_live)
  have e: "\<forall>t. e = Some t \<longrightarrow> ks_clock ks < t"
    using Some p by (simp add: live_Some_iff)
  have "(case map_of (rp_hash ks m) r of None \<Rightarrow> (0, True) | Some s \<Rightarrow> Atoi s) = (rp_count ks m r, True)"
    using hash_okD [OF rp_wf_hash [OF assms(1)]]
    by (auto simp: rp_count_def hash_count_def split: option.splits)
  with Some p v assms(2) have "redis_cmd_run (HINCRBY (presenceKey m) r n) ks =
      (RInt (rp_count ks m r + n), ks_put (presenceKey m)
        (RvHash (map_set r (Itoa (rp_count ks m r + n)) (rp_hash ks m))) e ks)"
    by simp
  with e Some show thesis by (intro that) simp_all
qed

lemma join_run:
  assumes "rp_wf ks" and "rp_count ks m r < max_int64" and "0 < expire_secs ttl"
  defines "h \<equiv> map_set r (Itoa (rp_count ks m r + 1)) (rp_hash ks m)"
  shows "\<exists>ks' x y. redis_run [HINCRBY (presenceKey m) r 1, EXPIRE (presenceKey m) ttl,
        HGETALL (presenceKey m)] ks = ([RInt x, RBool y, RMap h], ks') \<and> ks_clock ks' = ks_clock ks \<and>
      live ks' = (live ks)(presenceKey m \<mapsto> (RvHash h, Some (ks_clock ks + expire_secs ttl)))"
proof -
  have "0 \<le> rp_count ks m r"
    using hash_count_bounds [OF rp_wf_hash [OF assms(1)]] by (simp add: rp_count_def)
  then have "in_int64 (rp_count ks m r + 1)" using assms(2) by (simp add: int64_bounds)
  with assms(1) obtain e where
    inc: "redis_cmd_run (HINCRBY (presenceKey m) r 1) ks =
      (RInt (rp_count ks m r + 1), ks_put (presenceKey m) (RvHash h) e ks)"
    and e: "\<forall>t. e = Some t \<longrightarrow> ks_clock ks < t"
    unfolding h_def by (rule hincrby_run)
  show ?thesis
    using e assms(3) by (cases e) (auto simp: inc Let_def fun_eq_iff simp del: redis_cmd_run.simps(6))
qed

lemma leave_run:
  fixes m :: room and r :: role
  assumes "rp_wf ks"
  defines "h \<equiv> map_set r (Itoa (rp_count ks m r - 1)) (rp_hash ks m)"
  shows "\<exists>ks' x e. redis_run [HINCRBY (presenceKey m) r (- 1), HGETALL (presenceKey m)] ks
        = ([RInt x, RMap h], ks') \<and> ks_clock ks' = ks_clock ks \<and>
      live ks' = (live ks)(presenceKey m \<mapsto> (RvHash h, e)) \<and>
      (live ks (presenceKey m) = None \<longrightarrow> e = None)"
proof -
  have "in_int64 (rp_count ks m r + (- 1))"
    using hash_count_bounds [OF rp_wf_hash [OF assms(1)], of m r]
    by (simp add: rp_count_def int64_bounds)
  with assms(1) obtain e where
    inc: "redis_cmd_run (HINCRBY (presenceKey m) r (- 1)) ks =
      (RInt (rp_count ks m r + - 1), ks_put (presenceKey m) (RvHash h) e ks)"
    and e: "\<forall>t. e = Some t \<longrightarrow> ks_clock ks < t" "live ks (presenceKey m) = None \<longrightarrow> e = None"
    unfolding h_def diff_conv_add_uminus by (rule hincrby_run)
  show ?thesis
    using e by (cases e) (auto simp: inc Let_def fun_eq_iff simp del: redis_cmd_run.simps(6))
qed

section \<open>The contract on the server that answers\<close>

lemma rp_wf_update:
  assumes "rp_wf ks" and "live ks' = (live ks)(presenceKey m \<mapsto> (RvHash h, e))" and "hash_ok h"
  shows "rp_wf ks'"
  unfolding rp_wf_def
proof
  fix m'
  show "case live ks' (presenceKey m') of None \<Rightarrow> True
      | Some (RvHash h, _) \<Rightarrow> hash_ok h | Some (RvStr _, _) \<Rightarrow> False"
    using rp_wfD [OF assms(1), of m'] assms(2,3) by (cases "m' = m") auto
qed

lemma rp_hash_update:
  "live ks' = (live ks)(presenceKey m \<mapsto> (RvHash h, e)) \<Longrightarrow>
     rp_hash ks' m' = (if m' = m then h else rp_hash ks m')"
  by (simp add: rp_hash_def)

lemma int_rp_present: "rp_wf ks \<Longrightarrow> int (rp_present ks m r) = rp_count ks m r"
  using hash_count_bounds [OF rp_wf_hash] by (simp add: rp_present_def rp_count_def)

lemma ref_exec_ok: "redis_run cs ks = (reps, ks') \<Longrightarrow> \<not> list_ex is_RErr reps \<Longrightarrow>
    ref_exec cs ks = (Inr reps, ks')"
  by (simp add: ref_exec_def)

lemma rp_join_ref:
  assumes "rp_wf ks" and "int (rp_present ks m r) < max_int64" and "0 < expire_secs ttl"
  defines "h \<equiv> map_set r (Itoa (rp_count ks m r + 1)) (rp_hash ks m)"
  shows "\<exists>ks'. RedisPresence_Join ref_exec ttl m r ks =
      (map fst (filter (\<lambda>(f, v). f \<noteq> r \<and> positive_val v) h), ks') \<and>
      ks_clock ks' = ks_clock ks \<and>
      live ks' = (live ks)(presenceKey m \<mapsto> (RvHash h, Some (ks_clock ks + expire_secs ttl)))"
proof -
  obtain ks' x y where run: "redis_run [HINCRBY (presenceKey m) r 1, EXPIRE (presenceKey m) ttl,
        HGETALL (presenceKey m)] ks = ([RInt x, RBool y, RMap h], ks')"
    and eff: "ks_clock ks' = ks_clock ks"
      "live ks' = (live ks)(presenceKey m \<mapsto> (RvHash h, Some (ks_clock ks + expire_secs ttl)))"
    using join_run [OF assms(1) _ assms(3)] assms(2) int_rp_present [OF assms(1)]
    unfolding h_def by metis
  have "ref_exec [HINCRBY (presenceKey m) r 1, EXPIRE (presenceKey m) ttl,
        HGETALL (presenceKey m)] ks = (Inr [RInt x, RBool y, RMap h], ks')"
    using run by (rule ref_exec_ok) simp
  with eff show ?thesis
    by (simp add: RedisPresence_Join_def)
qed

lemma rp_leave_ref:
  fixes m :: room and r :: role
  assumes "rp_wf ks"
  defines "h \<equiv> map_set r (Itoa (rp_count ks m r - 1)) (rp_hash ks m)"
  shows "\<exists>ks' e. RedisPresence_Leave ref_exec m r ks =
      (list_all (\<lambda>(f, v). \<not> positive_val v) h, ks') \<and>
      ks_clock ks' = ks_clock ks \<and>
      live ks' = (live ks)(presenceKey m \<mapsto> (RvHash h, e)) \<and>
      (live ks (presenceKey m) = None \<longrightarrow> e = None)"
proof -
  obtain ks' x e where run: "redis_run [HINCRBY (presenceKey m) r (- 1), HGETALL (presenceKey m)] ks
      = ([RInt x, RMap h], ks')"
    and eff: "ks_clock ks' = ks_clock ks" "live ks' = (live ks)(presenceKey m \<mapsto> (RvHash h, e))"
      "live ks (presenceKey m) = None \<longrightarrow> e = None"
    using leave_run [OF assms(1)] unfolding h_def by metis
  have "ref_exec [HINCRBY (presenceKey m) r (- 1), HGETALL (presenceKey m)] ks
      = (Inr [RInt x, RMap h], ks')"
    using run by (rule ref_exec_ok) simp
  with eff show ?thesis
    by (intro exI [of _ ks'] exI [of _ e]) (simp add: RedisPresence_Leave_def)
qed

lemma ttl_pos [simp]: "0 < expire_secs defaultSignalingTTL"
  by (simp add: expire_secs_def defaultSignalingTTL_def Hour_def Minute_def Second_def)

lemma rp_join_laws:
  assumes wf: "rp_wf ks" and room: "int (rp_present ks m r) < max_int64"
    and ttl: "0 < expire_secs ttl"
  defines "j \<equiv> RedisPresence_Join ref_exec ttl m r ks"
  shows "rp_wf (snd j)"
    and "rp_present (snd j) m' r' = rp_present ks m' r' + (if m' = m \<and> r' = r then 1 else 0)"
    and "set (fst j) = {r'. r' \<noteq> r \<and> 0 < rp_present ks m r'}"
proof -
  let ?h = "map_set r (Itoa (rp_count ks m r + 1)) (rp_hash ks m)"
  obtain ks' where join: "j = (map fst (filter (\<lambda>(f, v). f \<noteq> r \<and> positive_val v) ?h), ks')"
    and live: "live ks' = (live ks)(presenceKey m \<mapsto>
      (RvHash ?h, Some (ks_clock ks + expire_secs ttl)))"
    unfolding j_def using rp_join_ref [OF wf room ttl] by blast
  have bounds: "0 \<le> rp_count ks m r" "rp_count ks m r < max_int64"
    using hash_count_bounds [OF rp_wf_hash [OF wf]] room int_rp_present [OF wf, of m r]
    by (simp_all add: rp_count_def)
  then have in64: "in_int64 (rp_count ks m r + 1)" by (simp add: int64_bounds)
  have ok: "hash_ok ?h"
    using wf bounds by (intro hash_ok_set rp_wf_hash) simp_all
  show "rp_wf (snd j)"
    using rp_wf_update [OF wf live ok] join by simp
  show "rp_present (snd j) m' r' = rp_present ks m' r' + (if m' = m \<and> r' = r then 1 else 0)"
    using bounds in64
    by (simp add: join rp_present_def rp_count_def rp_hash_update [OF live] nat_add_distrib)
  have "wf_map ?h" using ok by (simp add: hash_ok_def)
  then have "set (fst j) = {r'. r' \<noteq> r \<and> 0 < hash_count ?h r'}"
    by (force simp: join set_positive [symmetric] simp del: hash_count_set)
  then show "set (fst j) = {r'. r' \<noteq> r \<and> 0 < rp_present ks m r'}"
    using in64 by (auto simp: rp_present_def rp_count_def)
qed

lemma rp_leave_laws:
  assumes wf: "rp_wf ks" and pres: "0 < rp_present ks m r"
  defines "l \<equiv> RedisPresence_Leave ref_exec m r ks"
  shows "rp_wf (snd l)"
    and "rp_present (snd l) m' r' = rp_present ks m' r' - (if m' = m \<and> r' = r then 1 else 0)"
    and "fst l \<longleftrightarrow> (\<forall>r'. rp_present (snd l) m r' = 0)"
proof -
  let ?h = "map_set r (Itoa (rp_count ks m r - 1)) (rp_hash ks m)"
  have pos: "0 < rp_count ks m r" using pres by (simp add: rp_present_def)
  obtain ks' e where leave: "l = (list_all (\<lambda>(f, v). \<not> positive_val v) ?h, ks')"
    and live: "live ks' = (live ks)(presenceKey m \<mapsto> (RvHash ?h, e))"
    unfolding l_def using rp_leave_ref [OF wf] by blast
  have max: "rp_count ks m r \<le> max_int64"
    using hash_count_bounds [OF rp_wf_hash [OF wf]] by (simp add: rp_count_def)
  then have in64: "in_int64 (rp_count ks m r - 1)" using pos by (simp add: int64_bounds)
  have ok: "hash_ok ?h"
    using wf max pos by (intro hash_ok_set rp_wf_hash) simp_all
  show "rp_wf (snd l)"
    using rp_wf_update [OF wf live ok] leave by simp
  show "rp_present (snd l) m' r' = rp_present ks m' r' - (if m' = m \<and> r' = r then 1 else 0)"
    using pos in64
    by (simp add: leave rp_present_def rp_count_def rp_hash_update [OF live] nat_diff_distrib)
  have "wf_map ?h" using ok by (simp add: hash_ok_def)
  then have "list_all (\<lambda>(f, v). \<not> positive_val v) ?h \<longleftrightarrow> (\<forall>r'. \<not> 0 < hash_count ?h r')"
    by (auto simp: list_all_iff set_positive [symmetric] simp del: hash_count_set)
  then show "fst l \<longleftrightarrow> (\<forall>r'. rp_present (snd l) m r' = 0)"
    by (simp add: leave rp_present_def rp_count_def rp_hash_update [OF live] not_less)
qed

interpretation rp: presence "RedisPresence_Join ref_exec defaultSignalingTTL"
  "RedisPresence_Leave ref_exec" rp_present rp_wf
  by unfold_locales (simp_all add: rp_join_laws rp_leave_laws)

section \<open>Any client, any failure\<close>

lemma hgetall_run:
  "redis_cmd_run (HGETALL (presenceKey m)) ks = (rep, ks') \<Longrightarrow> \<not> is_RErr rep \<Longrightarrow>
     rep = RMap (rp_hash ks m) \<and> ks' = ks"
  by (auto simp: rp_hash_def split: option.splits rval.splits)

lemma not_positive_hash_count:
  "list_all (\<lambda>(f, v). \<not> positive_val v) h \<Longrightarrow> hash_count h r \<le> 0"
  by (auto simp: hash_count_def list_all_iff positive_val_def not_less
      dest!: map_of_SomeD split: option.splits)

context redis_service
begin

lemma Leave_empty_counts:
  assumes "RedisPresence_Leave exec m r s = (True, s')"
  shows "rp_count (view s') m r' \<le> 0"
proof -
  obtain reps where ok: "exec [HINCRBY (presenceKey m) r (- 1), HGETALL (presenceKey m)] s = (Inr reps, s')"
    and all: "list_all (\<lambda>(f, v). \<not> positive_val v) (case reps of [_, RMap h] \<Rightarrow> h | _ \<Rightarrow> [])"
    using assms by (auto simp: RedisPresence_Leave_def Let_def split: prod.splits sum.splits)
  obtain t where "redis_run [HINCRBY (presenceKey m) r (- 1), HGETALL (presenceKey m)]
      ((view s)\<lparr>ks_clock := t\<rparr>) = (reps, view s')" "list_all (\<lambda>x. \<not> is_RErr x) reps"
    using exec_ok [OF ok] by blast
  then obtain a b ks1 where "reps = [a, b]" "\<not> is_RErr b"
    "redis_cmd_run (HGETALL (presenceKey m)) ks1 = (b, view s')"
    by (auto simp: Let_def case_prod_beta simp del: redis_cmd_run.simps) (metis prod.collapse)
  with hgetall_run have "reps = [a, RMap (rp_hash (view s') m)]" by blast
  with all show ?thesis by (simp add: rp_count_def not_positive_hash_count)
qed

end

section \<open>When the hash expires under live connections\<close>

lemma rp_wf_later:
  assumes "rp_wf ks" and "0 \<le> d"
  shows "rp_wf (later d ks)"
  unfolding rp_wf_def
proof
  fix m
  let ?k = "presenceKey m"
  have "live (later d ks) ?k = None \<or> live (later d ks) ?k = live ks ?k"
    using assms(2) by (auto simp: live_def later_def split: option.splits)
  then show "case live (later d ks) ?k of None \<Rightarrow> True
      | Some (RvHash h, _) \<Rightarrow> hash_ok h | Some (RvStr _, _) \<Rightarrow> False"
    using rp_wfD [OF assms(1), of m] by auto
qed

lemma leave_after_expiry:
  assumes "rp_wf ks" and "live ks (presenceKey m) = None"
  shows "fst (RedisPresence_Leave ref_exec m r ks)"
    and "rp_count (snd (RedisPresence_Leave ref_exec m r ks)) m r = - 1"
proof -
  have h: "rp_hash ks m = []" "rp_count ks m r = 0"
    using assms(2) by (simp_all add: rp_hash_def rp_count_def hash_count_def)
  obtain ks' e where leave: "RedisPresence_Leave ref_exec m r ks =
      (list_all (\<lambda>(f, v). \<not> positive_val v) [(r, Itoa (- 1))], ks')"
    and live: "live ks' = (live ks)(presenceKey m \<mapsto> (RvHash [(r, Itoa (- 1))], e))"
    using rp_leave_ref [OF assms(1), of m r] h by auto
  have m1: "Atoi (Itoa (- 1)) = (- 1, True)" by (rule Atoi_Itoa) (simp add: int64_bounds)
  show "fst (RedisPresence_Leave ref_exec m r ks)"
    by (simp add: leave positive_val_def m1)
  show "rp_count (snd (RedisPresence_Leave ref_exec m r ks)) m r = - 1"
    by (simp add: leave rp_count_def rp_hash_update [OF live] hash_count_def m1)
qed

lemma join_expiry:
  assumes "rp_wf ks" and "int (rp_present ks m r) < max_int64" and "0 < expire_secs ttl"
  shows "\<exists>h. live (snd (RedisPresence_Join ref_exec ttl m r ks)) (presenceKey m)
      = Some (h, Some (ks_clock ks + expire_secs ttl))"
    and "ks_clock (snd (RedisPresence_Join ref_exec ttl m r ks)) = ks_clock ks"
  using rp_join_ref [OF assms] by auto

section \<open>Theorems\<close>

text \<open>
  Whatever the Redis client does (delays, lost requests, lost replies), a \<open>Leave\<close> that
  reports the room empty is right about the hash it saw: no role of the room has a positive
  count afterwards.
\<close>

theorem redis_leave_empty_sound:
  assumes "redis_service exec view" and "RedisPresence_Leave exec m r s = (True, s')"
  shows "rp_count (view s') m r' \<le> 0"
  using redis_service.Leave_empty_counts [OF assms] .

theorem redis_leave_empty_sound_witness:
  "\<exists>s'. RedisPresence_Leave ref_exec ''m'' RoleAgent (ks_empty 0) = (True, s') \<and>
     rp_count (id s') ''m'' RolePhone \<le> 0"
proof -
  have "rp_wf (ks_empty 0)" by (simp add: rp_wf_def)
  then obtain s' where s': "RedisPresence_Leave ref_exec ''m'' RoleAgent (ks_empty 0) = (True, s')"
    using leave_after_expiry(1) [of "ks_empty 0" "''m''" RoleAgent]
    by (cases "RedisPresence_Leave ref_exec ''m'' RoleAgent (ks_empty 0)") auto
  with redis_leave_empty_sound [OF ref.redis_service_axioms s'] show ?thesis by blast
qed

text \<open>
  A reconnect is not a departure: while a second connection of a role is counted, the late
  \<open>Leave\<close> of the first one does not report the room empty, and a counterpart that joins
  afterwards still sees the role.
\<close>

theorem redis_reconnect_overlap:
  assumes "rp_wf ks" and "2 \<le> rp_present ks m r" and "r' \<noteq> r"
    and "int (rp_present ks m r') < max_int64"
  shows "\<not> fst (RedisPresence_Leave ref_exec m r ks) \<and>
    r \<in> set (fst (RedisPresence_Join ref_exec defaultSignalingTTL m r'
      (snd (RedisPresence_Leave ref_exec m r ks))))"
  using rp.overlap_not_empty [OF assms(1,2)] assms(3,4) by blast

definition joined_twice :: keyspace where
  "joined_twice = snd (RedisPresence_Join ref_exec defaultSignalingTTL ''m'' RoleAgent
     (snd (RedisPresence_Join ref_exec defaultSignalingTTL ''m'' RoleAgent (ks_empty 0))))"

lemma ks_empty_presence [simp]: "rp_wf (ks_empty t)" "rp_present (ks_empty t) m r = 0"
  by (simp_all add: rp_wf_def rp_present_def rp_count_def rp_hash_def hash_count_def)

theorem redis_reconnect_overlap_witness:
  "\<not> fst (RedisPresence_Leave ref_exec ''m'' RoleAgent joined_twice) \<and>
    RoleAgent \<in> set (fst (RedisPresence_Join ref_exec defaultSignalingTTL ''m'' RolePhone
      (snd (RedisPresence_Leave ref_exec ''m'' RoleAgent joined_twice))))"
  by (rule redis_reconnect_overlap)
     (simp_all add: joined_twice_def rp.join_wf rp.join_present max_int64_def)

text \<open>
  The hash of a room expires four hours after the last join although both peers are still
  connected; the first of them to leave is then told that the room is empty, so that the session
  is ended under the peer that is still there.
\<close>

theorem redis_expiry_ends_live_room:
  fixes m :: room and t0 :: time
  assumes "defaultSignalingTTL \<le> d"
  defines "s1 \<equiv> snd (RedisPresence_Join ref_exec defaultSignalingTTL m RoleAgent (ks_empty t0))"
  defines "s2 \<equiv> snd (RedisPresence_Join ref_exec defaultSignalingTTL m RolePhone s1)"
  shows "rp_present s2 m RoleAgent = 1 \<and> rp_present s2 m RolePhone = 1 \<and>
    fst (RedisPresence_Leave ref_exec m RoleAgent (later d s2))"
proof -
  have s1: "rp_wf s1" "rp_present s1 m' r = (if m' = m \<and> r = RoleAgent then 1 else 0)" for m' r
    by (simp_all add: s1_def rp.join_wf rp.join_present max_int64_def)
  have s2: "rp_wf s2" "rp_present s2 m r = (if r = RoleAgent \<or> r = RolePhone then 1 else 0)" for r
    using s1 by (simp_all add: s2_def rp.join_wf rp.join_present max_int64_def)
  have "int (rp_present s1 m RolePhone) < max_int64" using s1(2) by (simp add: max_int64_def)
  from join_expiry [OF s1(1) this ttl_pos]
  obtain h where "live s2 (presenceKey m) = Some (h, Some (ks_clock s2 + expire_secs defaultSignalingTTL))"
    unfolding s2_def by auto
  then have "live (later d s2) (presenceKey m) = None"
    by (rule live_later_None) (use assms(1) in \<open>simp add: expire_secs_def defaultSignalingTTL_def Hour_def Minute_def Second_def\<close>)
  moreover have "rp_wf (later d s2)"
    using s2(1) assms(1) by (intro rp_wf_later) (simp_all add: defaultSignalingTTL_def Hour_def Minute_def Second_def)
  ultimately show ?thesis
    using s2(2) by (simp add: leave_after_expiry(1))
qed

theorem redis_expiry_ends_live_room_witness:
  "fst (RedisPresence_Leave ref_exec ''m'' RoleAgent (later (5 * Hour)
     (snd (RedisPresence_Join ref_exec defaultSignalingTTL ''m'' RolePhone
       (snd (RedisPresence_Join ref_exec defaultSignalingTTL ''m'' RoleAgent (ks_empty 0)))))))"
proof -
  have "defaultSignalingTTL \<le> 5 * Hour"
    by (simp add: defaultSignalingTTL_def Hour_def Minute_def Second_def)
  from redis_expiry_ends_live_room [OF this] show ?thesis by blast
qed

end
