(* ===== verification/Signaling_Invariants.thy ===== *)
theory Signaling_Invariants
  imports Signaling_System Redis_Presence
begin

text \<open>
  The invariants of the connection machine that depend on the presence contract, proved
  once inside the locale \<open>presence\<close>: presence counts agree with the connections, the
  room-ended callback marks the departure of the last member, and no \<open>peer-ready\<close> is
  lost when two joins race.
\<close>

section \<open>Presence counts the connections\<close>

definition count_inv :: "('s \<Rightarrow> room \<Rightarrow> role \<Rightarrow> nat) \<Rightarrow> ('s \<Rightarrow> bool) \<Rightarrow> 's sys \<Rightarrow> bool" where
  "count_inv present ok s \<longleftrightarrow> ok (h_presence (sy_hub s)) \<and> h_onRoomEnded (sy_hub s) \<and>
     (\<forall>m r. present (h_presence (sy_hub s)) m r = card (members s m r)) \<and>
     finite (dom (sy_conn s)) \<and> int (card (dom (sy_conn s))) < max_int64"

lemma finite_members: "count_inv pr ok s \<Longrightarrow> finite (members s m r)"
  by (rule finite_subset [OF members_subset_dom]) (simp add: count_inv_def)

lemma count_inv_same:
  assumes "count_inv pr ok s" and "h_presence (sy_hub t) = h_presence (sy_hub s)"
    and "h_onRoomEnded (sy_hub t) = h_onRoomEnded (sy_hub s)"
    and "\<And>m r. members t m r = members s m r" and "dom (sy_conn t) = dom (sy_conn s)"
  shows "count_inv pr ok t"
  using assms by (simp add: count_inv_def)

lemma members_move:
  assumes "sy_conn s p = Some c" and "present_pc x = present_pc (cn_pc c)"
  shows "members (move p c x h s) m r = members s m r"
    and "members (s\<lparr>sy_conn := (sy_conn s)(p \<mapsto> c\<lparr>cn_pc := x\<rparr>)\<rparr>) m r = members s m r"
  using assms by (auto simp: members_def)

lemma dom_move: "sy_conn s p = Some c \<Longrightarrow> insert p (dom (sy_conn s)) = dom (sy_conn s)"
  by auto

text \<open>Steps other than \<open>accept\<close>, \<open>join\<close> and \<open>leave\<close> leave presence alone.\<close>

lemma quiet_step:
  assumes "sys_step ops cd s t"
  shows "(\<exists>p c b h. sy_conn s p = Some c \<and> cn_pc c = AtJoin \<and>
        hub_presence_join ops (cn_room c) (cn_role c) (sy_hub s) = (b, h) \<and>
        t = move p (c\<lparr>cn_saw := b\<rparr>) (if b then AtNotify else Reading) h s) \<or>
      (\<exists>p c. sy_conn s p = Some c \<and> cn_pc c = AtLeave \<and>
        t = move p c AtCloseSend (hub_presence_leave ops (cn_room c) (cn_role c) (sy_hub s)) s) \<or>
      h_presence (sy_hub t) = h_presence (sy_hub s) \<and> h_ended (sy_hub t) = h_ended (sy_hub s) \<and>
      h_onRoomEnded (sy_hub t) = h_onRoomEnded (sy_hub s) \<and>
      (\<forall>m r. members t m r = members s m r) \<and>
      (dom (sy_conn t) = dom (sy_conn s) \<or> int (card (dom (sy_conn s))) + 1 < max_int64 \<and>
        (\<exists>p. sy_conn s p = None \<and> dom (sy_conn t) = insert p (dom (sy_conn s))))"
  (is "?join \<or> ?leave \<or> ?quiet")
  using assms
proof (cases rule: sys_step.cases)
  case (accept p r m)
  then have "members t m' r' = members s m' r'" for m' r'
    by (auto simp: members_def)
  with accept have ?quiet by auto
  then show ?thesis by blast
next
  case (join p c b h)
  then show ?thesis by blast
next
  case (leave p c)
  then show ?thesis by blast
next
  case (notify p c h)
  then have ?quiet by (simp add: hub_Send_frame [OF notify(4)] members_move dom_move)
  then show ?thesis by blast
next
  case (publish p c f fin)
  then have ?quiet by (simp add: members_move dom_move split: option.splits)
  then show ?thesis by blast
next
  case (deliver p c q f fin h)
  then have ?quiet by (simp add: hub_Send_frame [OF deliver(4)] members_move dom_move)
  then show ?thesis by blast
next
  case (malformed p c data h)
  then have ?quiet by (simp add: hub_Send_frame [OF malformed(5)] members_move dom_move)
  then show ?thesis by blast
next
  case (pump p c peer e b peer')
  then have ?quiet by (simp add: members_def)
  then show ?thesis by blast
qed (simp_all add: members_move dom_move)

context presence
begin

abbreviation ops :: "'s presence_ops" where
  "ops \<equiv> \<lparr>op_Join = join, op_Leave = leave\<rparr>"

abbreviation counted :: "'s sys \<Rightarrow> bool" where
  "counted \<equiv> count_inv present wf"

lemma present_members: "counted s \<Longrightarrow> present (h_presence (sy_hub s)) m r = card (members s m r)"
  by (simp add: count_inv_def)

lemma present_bound: "counted s \<Longrightarrow> int (present (h_presence (sy_hub s)) m r) < max_int64"
  using card_mono [OF _ members_subset_dom, of s m r] by (fastforce simp: count_inv_def)

lemma present_pos:
  "counted s \<Longrightarrow> 0 < present (h_presence (sy_hub s)) m r \<longleftrightarrow> members s m r \<noteq> {}"
  using finite_members [of present wf s m r] by (simp add: present_members card_gt_0_iff)

lemma present_zero:
  "counted s \<Longrightarrow> present (h_presence (sy_hub s)) m r = 0 \<longleftrightarrow> members s m r = {}"
  using present_pos [of s m r] by auto

lemma join_step_members:
  assumes "sy_conn s p = Some c" and "cn_pc c = AtJoin"
  shows "members (move p (c\<lparr>cn_saw := b\<rparr>) (if b then AtNotify else Reading) h s) m r =
      (if m = cn_room c \<and> r = cn_role c then insert p (members s m r) else members s m r)"
    and "p \<notin> members s m r"
  using assms by (auto simp: members_def)

lemma leave_step_members:
  assumes "sy_conn s p = Some c" and "cn_pc c = AtLeave"
  shows "members (move p c AtCloseSend h s) m r =
      (if m = cn_room c \<and> r = cn_role c then members s m r - {p} else members s m r)"
    and "p \<in> members s (cn_room c) (cn_role c)"
  using assms by (auto simp: members_def)

lemma join_saw:
  assumes "counted s" and "hub_presence_join ops m r (sy_hub s) = (b, h)"
  shows "b \<longleftrightarrow> members s m (opposite r) \<noteq> {}"
  using assms(1) present_bound [OF assms(1)] present_pos [OF assms(1)]
  by (simp add: hub_presence_join_frame(2) [OF assms(2)] join_others count_inv_def)

lemma counted_step:
  assumes "sys_step ops cd s t" and inv: "counted s"
  shows "counted t"
  using quiet_step [OF assms(1)]
proof (elim disjE exE conjE)
  fix p c b h
  assume c: "sy_conn s p = Some c" "cn_pc c = AtJoin"
    and h: "hub_presence_join ops (cn_room c) (cn_role c) (sy_hub s) = (b, h)"
    and t: "t = move p (c\<lparr>cn_saw := b\<rparr>) (if b then AtNotify else Reading) h s"
  have "dom (sy_conn t) = dom (sy_conn s)" using c t by auto
  moreover have "present (h_presence h) m r = card (members t m r)" for m r
    using inv c present_bound [OF inv] finite_members [OF inv]
    by (simp add: t hub_presence_join_frame(1) [OF h] join_present join_step_members count_inv_def)
  ultimately show ?thesis
    using inv present_bound [OF inv] t
    by (simp add: count_inv_def hub_presence_join_frame(1) [OF h] join_wf)
next
  fix p c
  assume c: "sy_conn s p = Some c" "cn_pc c = AtLeave"
    and t: "t = move p c AtCloseSend (hub_presence_leave ops (cn_room c) (cn_role c) (sy_hub s)) s"
  have pos: "0 < present (h_presence (sy_hub s)) (cn_room c) (cn_role c)"
    using leave_step_members(2) [OF c] by (auto simp: present_pos [OF inv])
  have "dom (sy_conn t) = dom (sy_conn s)" using c t by auto
  moreover have "present (h_presence (sy_hub t)) m r = card (members t m r)" for m r
    using inv pos leave_step_members(2) [OF c]
    by (simp add: t leave_present leave_step_members(1) [OF c] count_inv_def card_Diff_singleton)
  ultimately show ?thesis
    using inv pos t by (simp add: count_inv_def leave_wf)
next
  assume "dom (sy_conn t) = dom (sy_conn s)"
    "h_presence (sy_hub t) = h_presence (sy_hub s)"
    "h_onRoomEnded (sy_hub t) = h_onRoomEnded (sy_hub s)" "\<forall>m r. members t m r = members s m r"
  with inv show ?thesis by (simp add: count_inv_def)
next
  fix p
  assume "sy_conn s p = None" "dom (sy_conn t) = insert p (dom (sy_conn s))"
    "int (card (dom (sy_conn s))) + 1 < max_int64"
    "h_presence (sy_hub t) = h_presence (sy_hub s)"
    "h_onRoomEnded (sy_hub t) = h_onRoomEnded (sy_hub s)" "\<forall>m r. members t m r = members s m r"
  with inv show ?thesis by (simp add: count_inv_def domIff)
qed

end

text \<open>
  The room-ended callback fires in a step exactly when that step takes the last member out
  of its room.
\<close>

definition ended_now :: "'s sys \<Rightarrow> 's sys \<Rightarrow> bool" where
  "ended_now s t \<longleftrightarrow>
     (\<exists>m. h_ended (sy_hub t) = h_ended (sy_hub s) @ [m] \<and>
        (\<exists>r. members s m r \<noteq> {}) \<and> (\<forall>r. members t m r = {})) \<or>
     h_ended (sy_hub t) = h_ended (sy_hub s) \<and>
        (\<forall>m. (\<exists>r. members s m r \<noteq> {}) \<longrightarrow> (\<exists>r. members t m r \<noteq> {}))"

context presence
begin

lemma ended_step:
  assumes "sys_step ops cd s t" and inv: "counted s"
  shows "ended_now s t"
  using quiet_step [OF assms(1)]
proof (elim disjE exE conjE)
  fix p c b h
  assume c: "sy_conn s p = Some c" "cn_pc c = AtJoin"
    and h: "hub_presence_join ops (cn_room c) (cn_role c) (sy_hub s) = (b, h)"
    and t: "t = move p (c\<lparr>cn_saw := b\<rparr>) (if b then AtNotify else Reading) h s"
  have "members s m r \<subseteq> members t m r" for m r
    unfolding t join_step_members(1) [OF c] by auto
  moreover have "h_ended (sy_hub t) = h_ended (sy_hub s)"
    by (simp add: t hub_presence_join_frame(1) [OF h])
  ultimately show ?thesis unfolding ended_now_def by blast
next
  fix p c
  assume c: "sy_conn s p = Some c" "cn_pc c = AtLeave"
    and t: "t = move p c AtCloseSend (hub_presence_leave ops (cn_room c) (cn_role c) (sy_hub s)) s"
  let ?m = "cn_room c" and ?r = "cn_role c"
  have p: "p \<in> members s ?m ?r" by (rule leave_step_members(2) [OF c])
  then have pos: "0 < present (h_presence (sy_hub s)) ?m ?r" by (auto simp: present_pos [OF inv])
  have t_inv: "counted t" using assms by (rule counted_step)
  have "fst (leave ?m ?r (h_presence (sy_hub s))) \<longleftrightarrow>
      (\<forall>r. present (h_presence (sy_hub t)) ?m r = 0)"
    using leave_empty [OF _ pos] inv by (simp add: t count_inv_def)
  then have "fst (leave ?m ?r (h_presence (sy_hub s))) \<longleftrightarrow> (\<forall>r. members t ?m r = {})"
    by (simp add: present_zero [OF t_inv])
  then have log: "h_ended (sy_hub t) = h_ended (sy_hub s) @ (if \<forall>r. members t ?m r = {} then [?m] else [])"
    using inv by (simp add: t count_inv_def)
  have other: "members t m r = members s m r" if "m \<noteq> ?m" for m r
    using that by (simp add: t leave_step_members(1) [OF c])
  show ?thesis
  proof (cases "\<forall>r. members t ?m r = {}")
    case True
    with log p show ?thesis unfolding ended_now_def by (intro disjI1 exI [of _ ?m]) auto
  next
    case False
    then have "\<exists>r. members t m r \<noteq> {}" if "members s m r \<noteq> {}" for m r
      using that other by (cases "m = ?m") auto
    with False log show ?thesis unfolding ended_now_def by (intro disjI2) auto
  qed
qed (auto simp: ended_now_def)

end

section \<open>No peer-ready is lost\<close>

definition readied :: "codec \<Rightarrow> 's hub \<Rightarrow> string \<Rightarrow> bool" where
  "readied cd h q \<longleftrightarrow> (\<exists>p b. (p, q, marshal cd ready_envelope, b) \<in> set (h_sent h))"

definition waiting :: "codec \<Rightarrow> string \<Rightarrow> pc \<Rightarrow> bool" where
  "waiting cd q x \<longleftrightarrow> x = AtNotify \<or> x = AtPublish (marshal cd ready_envelope) False \<or>
     x = AtDeliver q (marshal cd ready_envelope) False"

definition facing :: "'s sys \<Rightarrow> string \<Rightarrow> conn \<Rightarrow> string \<Rightarrow> conn \<Rightarrow> bool" where
  "facing s p c q d \<longleftrightarrow> sy_conn s p = Some c \<and> sy_conn s q = Some d \<and> cn_room d = cn_room c \<and>
     cn_role d = opposite (cn_role c) \<and> present_pc (cn_pc c) \<and> present_pc (cn_pc d)"

text \<open>
  Whoever saw the other role notifies itself first; of two facing members one saw the other;
  and the one that saw is still on its way to the current occupant of the other role until
  that occupant has been notified.
\<close>

definition ready_inv :: "codec \<Rightarrow> 's sys \<Rightarrow> bool" where
  "ready_inv cd s \<longleftrightarrow>
     (\<forall>p c. sy_conn s p = Some c \<and> cn_saw c \<longrightarrow> cn_pc c = AtNotify \<or> readied cd (sy_hub s) p) \<and>
     (\<forall>p c q d. facing s p c q d \<and> cn_role c \<in> {RoleAgent, RolePhone} \<longrightarrow> cn_saw c \<or> cn_saw d) \<and>
     (\<forall>p c q d. facing s p c q d \<and> cn_saw c \<and> \<not> cn_saw d \<and>
        hub_lookup (cn_room d) (cn_role d) (sy_hub s) = Some q \<longrightarrow>
        waiting cd q (cn_pc c) \<or> readied cd (sy_hub s) q)"

lemma ready_inv_start: "ready_inv cd (sys_start s0)"
  by (simp add: ready_inv_def sys_start_def facing_def)

lemma readied_mono:
  "set (h_sent h) \<subseteq> set (h_sent h') \<Longrightarrow> readied cd h q \<Longrightarrow> readied cd h' q"
  by (auto simp: readied_def)

lemma facing_move:
  assumes "facing (s\<lparr>sy_hub := h, sy_conn := (sy_conn s)(p \<mapsto> c')\<rparr>) a x b y"
    and "sy_conn s p = Some c" and "cn_room c' = cn_room c" and "cn_role c' = cn_role c"
    and "present_pc (cn_pc c') \<Longrightarrow> present_pc (cn_pc c)"
  shows "facing s a (if a = p then c else x) b (if b = p then c else y)"
    and "a = p \<Longrightarrow> x = c'" and "b = p \<Longrightarrow> y = c'"
  using assms by (auto simp: facing_def)

lemma ready_inv_move:
  assumes inv: "ready_inv cd s" and c: "sy_conn s p = Some c"
    and c': "cn_room c' = cn_room c" "cn_role c' = cn_role c" "cn_saw c' = cn_saw c"
    and present: "present_pc (cn_pc c') \<Longrightarrow> present_pc (cn_pc c)"
    and sent: "set (h_sent (sy_hub s)) \<subseteq> set (h_sent h)"
    and table: "\<And>m r q. hub_lookup m r h = Some q \<Longrightarrow>
      hub_lookup m r (sy_hub s) = Some q \<or> q = p \<and> \<not> present_pc (cn_pc c')"
    and self: "cn_pc c = AtNotify \<Longrightarrow> readied cd h p"
    and other: "\<And>q. hub_lookup (cn_room c) (opposite (cn_role c)) (sy_hub s) = Some q \<Longrightarrow>
      waiting cd q (cn_pc c) \<Longrightarrow> waiting cd q (cn_pc c') \<or> readied cd h q"
  shows "ready_inv cd (s\<lparr>sy_hub := h, sy_conn := (sy_conn s)(p \<mapsto> c')\<rparr>)"
  unfolding ready_inv_def
proof (intro conjI allI impI)
  note mono = readied_mono [OF sent]
  let ?t = "s\<lparr>sy_hub := h, sy_conn := (sy_conn s)(p \<mapsto> c')\<rparr>"
  fix a x
  assume "sy_conn ?t a = Some x \<and> cn_saw x"
  with inv c c'(3) self mono show "cn_pc x = AtNotify \<or> readied cd (sy_hub ?t) a"
    unfolding ready_inv_def by (cases "a = p") auto
next
  let ?t = "s\<lparr>sy_hub := h, sy_conn := (sy_conn s)(p \<mapsto> c')\<rparr>"
  fix a x b y
  assume a: "facing ?t a x b y \<and> cn_role x \<in> {RoleAgent, RolePhone}"
  note f = facing_move [OF conjunct1 [OF a] c c'(1,2) present]
  have "cn_role (if a = p then c else x) \<in> {RoleAgent, RolePhone}"
    using a f(2) c'(2) by auto
  with f(1) inv have "cn_saw (if a = p then c else x) \<or> cn_saw (if b = p then c else y)"
    unfolding ready_inv_def by blast
  with f(2,3) c'(3) show "cn_saw x \<or> cn_saw y" by (auto split: if_splits)
next
  note mono = readied_mono [OF sent]
  let ?t = "s\<lparr>sy_hub := h, sy_conn := (sy_conn s)(p \<mapsto> c')\<rparr>"
  fix a x b y
  assume a: "facing ?t a x b y \<and> cn_saw x \<and> \<not> cn_saw y \<and>
    hub_lookup (cn_room y) (cn_role y) (sy_hub ?t) = Some b"
  then have fac: "facing ?t a x b y" by blast
  note f = facing_move [OF fac c c'(1,2) present]
  let ?x = "if a = p then c else x" and ?y = "if b = p then c else y"
  have saw: "cn_saw ?x" "\<not> cn_saw ?y" and same: "cn_room ?y = cn_room y" "cn_role ?y = cn_role y"
    using a f(2,3) c' by auto
  have look: "hub_lookup (cn_room y) (cn_role y) (sy_hub s) = Some b"
    using a table [of "cn_room y" "cn_role y" b] f(3) by (auto simp: facing_def)
  with inv f(1) saw same have old: "waiting cd b (cn_pc ?x) \<or> readied cd (sy_hub s) b"
    unfolding ready_inv_def by metis
  have "cn_room y = cn_room x" "cn_role y = opposite (cn_role x)" using fac by (simp_all add: facing_def)
  with look old other [of b] mono f(2) c'(1,2)
  show "waiting cd b (cn_pc x) \<or> readied cd (sy_hub ?t) b"
    by (cases "a = p") auto
qed

text \<open>A \<open>Send\<close> on behalf of \<open>p\<close>: the table stands and the log grows.\<close>

lemma ready_send:
  assumes "hub_Send p q f h = Return h'"
  shows "set (h_sent h) \<subseteq> set (h_sent h')" and "hub_lookup m r h' = hub_lookup m r h"
    and "f = marshal cd ready_envelope \<Longrightarrow> readied cd h' q"
  using hub_Send_frame(1,5) [OF assms] by (auto simp: hub_lookup_def readied_def, blast)

lemma ready_inv_accept:
  assumes inv: "ready_inv cd s" and "sy_conn s p = None" and "\<not> present_pc (cn_pc c)" and "\<not> cn_saw c"
    and h: "h_sent h = h_sent (sy_hub s)" "\<And>m r. hub_lookup m r h = hub_lookup m r (sy_hub s)"
  shows "ready_inv cd (s\<lparr>sy_hub := h, sy_conn := (sy_conn s)(p \<mapsto> c)\<rparr>)" (is "ready_inv cd ?t")
proof -
  have fac: "facing ?t x cx y cy \<longleftrightarrow> facing s x cx y cy" for x cx y cy
    using assms(2,3) by (auto simp: facing_def)
  have read: "readied cd h = readied cd (sy_hub s)" by (simp add: fun_eq_iff readied_def h)
  from inv assms(4) show ?thesis
    by (simp add: ready_inv_def fac read h(2)) blast
qed

lemma ready_inv_join:
  assumes inv: "ready_inv cd s" and c: "sy_conn s p = Some c" and pc: "cn_pc c = AtJoin"
    and h: "h_sent h = h_sent (sy_hub s)" "\<And>m r. hub_lookup m r h = hub_lookup m r (sy_hub s)"
    and b: "b \<longleftrightarrow> members s (cn_room c) (opposite (cn_role c)) \<noteq> {}"
    and roles: "\<And>p c. sy_conn s p = Some c \<Longrightarrow> cn_role c \<in> {RoleAgent, RolePhone}"
  shows "ready_inv cd (move p (c\<lparr>cn_saw := b\<rparr>) (if b then AtNotify else Reading) h s)"
    (is "ready_inv cd ?t")
proof -
  let ?c = "c\<lparr>cn_saw := b, cn_pc := if b then AtNotify else Reading\<rparr>"
  have fac: "facing s x cx y cy \<or> x = p \<and> cx = ?c \<and> b \<or> y = p \<and> cy = ?c \<and> b"
    if f: "facing ?t x cx y cy" for x cx y cy
  proof -
    have "y \<in> members s (cn_room c) (opposite (cn_role c))" if "x = p"
      using f that by (auto simp: facing_def members_def split: if_splits)
    moreover have "x \<in> members s (cn_room c) (opposite (cn_role c))" if "y = p" "x \<noteq> p"
      using f that roles [of x cx] by (auto simp: facing_def members_def)
    ultimately show ?thesis using f b by (auto simp: facing_def split: if_splits)
  qed
  have read: "readied cd h = readied cd (sy_hub s)" by (simp add: fun_eq_iff readied_def h)
  show ?thesis
    unfolding ready_inv_def
  proof (intro conjI allI impI)
    fix x cx
    assume "sy_conn ?t x = Some cx \<and> cn_saw cx"
    with inv read show "cn_pc cx = AtNotify \<or> readied cd (sy_hub ?t) x"
      by (cases "x = p") (auto simp: ready_inv_def)
  next
    fix x cx y cy
    assume "facing ?t x cx y cy \<and> cn_role cx \<in> {RoleAgent, RolePhone}"
    with fac [of x cx y cy] inv show "cn_saw cx \<or> cn_saw cy"
      unfolding ready_inv_def by fastforce
  next
    fix x cx y cy
    assume "facing ?t x cx y cy \<and> cn_saw cx \<and> \<not> cn_saw cy \<and>
      hub_lookup (cn_room cy) (cn_role cy) (sy_hub ?t) = Some y"
    with fac [of x cx y cy] inv h(2) read show "waiting cd y (cn_pc cx) \<or> readied cd (sy_hub ?t) y"
      unfolding ready_inv_def by (fastforce simp: waiting_def)
  qed
qed

context presence
begin

lemma ready_inv_step:
  assumes "sys_step ops cd s t" and inv: "ready_inv cd s" and "counted s" and "peers_inv s"
  shows "ready_inv cd t"
  using assms(1)
proof (cases rule: sys_step.cases)
  case (accept p r m)
  with inv show ?thesis by (simp add: ready_inv_accept)
next
  case (register p c)
  show ?thesis
    unfolding register(1)
    by (rule ready_inv_move [OF inv register(2)])
       (use register in \<open>auto simp: waiting_def split: if_splits\<close>)
next
  case (join p c b h)
  show ?thesis
    unfolding join(1)
  proof (rule ready_inv_join [OF inv join(2,3)])
    show "b \<longleftrightarrow> members s (cn_room c) (opposite (cn_role c)) \<noteq> {}"
      by (rule join_saw [OF assms(3) join(4)])
  qed (use assms(4) in \<open>auto simp: hub_presence_join_frame(1) [OF join(4)] peers_inv_def\<close>)
next
  case (notify p c h)
  show ?thesis
    unfolding notify(1)
    by (rule ready_inv_move [OF inv notify(2)])
       (use notify ready_send [OF notify(4)] in \<open>auto simp: waiting_def\<close>)
next
  case (publish p c f fin)
  show ?thesis
    unfolding publish(1)
    by (rule ready_inv_move [OF inv publish(2)])
       (use publish in \<open>auto simp: waiting_def after_def split: option.splits if_splits\<close>)
next
  case (deliver p c q f fin h)
  show ?thesis
    unfolding deliver(1)
    by (rule ready_inv_move [OF inv deliver(2)])
       (use deliver ready_send [OF deliver(4)] in \<open>auto simp: waiting_def after_def\<close>)
next
  case (malformed p c data h)
  show ?thesis
    unfolding malformed(1)
    by (rule ready_inv_move [OF inv malformed(2)])
       (use malformed ready_send [OF malformed(5)] in \<open>auto simp: waiting_def\<close>)
next
  case (pump p c peer e b peer')
  have "facing t = facing s" "readied cd (sy_hub t) = readied cd (sy_hub s)"
    by (simp_all add: pump(1) fun_eq_iff facing_def readied_def)
  with inv show ?thesis by (simp add: ready_inv_def pump(1)) blast
next
  case (unregister p c)
  show ?thesis
    unfolding unregister(1)
    by (rule ready_inv_move [OF inv unregister(2)])
       (use unregister in \<open>auto simp: waiting_def split: if_splits\<close>)
next
  case (message p c data env)
  then show ?thesis
    using ready_inv_move [OF inv message(2), where h = "sy_hub s"] by (auto simp: waiting_def)
next
  case (read_error p c)
  then show ?thesis
    using ready_inv_move [OF inv read_error(2), where h = "sy_hub s"] by (auto simp: waiting_def)
next
  case (leave p c)
  show ?thesis
    unfolding leave(1)
    by (rule ready_inv_move [OF inv leave(2)])
       (use leave in \<open>auto simp: waiting_def hub_lookup_def\<close>)
next
  case (close_send p c peer peer')
  show ?thesis
    unfolding close_send(1)
    by (rule ready_inv_move [OF inv close_send(2)])
       (use close_send in \<open>auto simp: waiting_def\<close>)
qed

end

section \<open>Who a frame says it is from\<close>

definition stamped :: "codec \<Rightarrow> role \<Rightarrow> frame \<Rightarrow> bool" where
  "stamped cd r f \<longleftrightarrow> f = marshal cd ready_envelope \<or> f = marshal cd (bye_envelope r) \<or>
     (\<exists>data env. unmarshal cd data = Some env \<and> f = marshal cd (env\<lparr>env_from := r\<rparr>))"

fun pc_frames :: "pc \<Rightarrow> frame set" where
  "pc_frames (AtPublish f _) = {f}"
| "pc_frames (AtDeliver _ f _) = {f}"
| "pc_frames _ = {}"

definition stamp_inv :: "codec \<Rightarrow> 's sys \<Rightarrow> bool" where
  "stamp_inv cd s \<longleftrightarrow>
     (\<forall>p c. sy_conn s p = Some c \<longrightarrow> (\<forall>f \<in> pc_frames (cn_pc c). stamped cd (cn_role c) f)) \<and>
     (\<forall>(p, q, f, b) \<in> set (h_sent (sy_hub s)). q \<noteq> p \<longrightarrow>
        (\<exists>c. sy_conn s p = Some c \<and> stamped cd (cn_role c) f))"

lemma stamp_inv_start: "stamp_inv cd (sys_start s0)"
  by (simp add: stamp_inv_def sys_start_def OnRoomEnded_def NewHubWith_def)

lemma stamp_inv_pc:
  "stamp_inv cd s \<Longrightarrow> sy_conn s p = Some c \<Longrightarrow> f \<in> pc_frames (cn_pc c) \<Longrightarrow> stamped cd (cn_role c) f"
  by (auto simp: stamp_inv_def)

lemma stamp_inv_move:
  assumes inv: "stamp_inv cd s" and "\<And>c. sy_conn s p = Some c \<Longrightarrow> cn_role c' = cn_role c"
    and "\<And>f. f \<in> pc_frames (cn_pc c') \<Longrightarrow> stamped cd (cn_role c') f"
    and "\<And>a q f b. (a, q, f, b) \<in> set (h_sent h) \<Longrightarrow>
      (a, q, f, b) \<in> set (h_sent (sy_hub s)) \<or> a = p \<and> (q = p \<or> stamped cd (cn_role c') f)"
  shows "stamp_inv cd (s\<lparr>sy_hub := h, sy_conn := (sy_conn s)(p \<mapsto> c')\<rparr>)"
proof -
  have log: "q \<noteq> a \<longrightarrow> (\<exists>c. ((sy_conn s)(p \<mapsto> c')) a = Some c \<and> stamped cd (cn_role c) f)"
    if "(a, q, f, b) \<in> set (h_sent h)" for a q f b
    using assms(4) [OF that] inv assms(2) by (cases "a = p") (fastforce simp: stamp_inv_def)+
  have "\<forall>(a, q, f, b) \<in> set (h_sent h). q \<noteq> a \<longrightarrow>
      (\<exists>c. ((sy_conn s)(p \<mapsto> c')) a = Some c \<and> stamped cd (cn_role c) f)"
    using log by blast
  with inv assms(3) show ?thesis by (simp add: stamp_inv_def)
qed

lemma stamp_inv_step:
  assumes "sys_step ops cd s t" and inv: "stamp_inv cd s"
  shows "stamp_inv cd t"
  using assms(1)
proof (cases rule: sys_step.cases)
  case (publish p c f fin)
  show ?thesis
    unfolding publish(1)
    by (rule stamp_inv_move [OF inv])
       (use publish stamp_inv_pc [OF inv publish(2)] in
         \<open>auto simp: after_def split: option.splits if_splits\<close>)
next
  case (deliver p c q f fin h)
  show ?thesis
    unfolding deliver(1)
    by (rule stamp_inv_move [OF inv])
       (use deliver stamp_inv_pc [OF inv deliver(2)] hub_Send_frame(5) [OF deliver(4)] in
         \<open>auto simp: after_def split: if_splits\<close>)
next
  case (notify p c h)
  show ?thesis
    unfolding notify(1)
    by (rule stamp_inv_move [OF inv])
       (use notify hub_Send_frame(5) [OF notify(4)] in \<open>auto simp: stamped_def\<close>)
next
  case (malformed p c data h)
  show ?thesis
    unfolding malformed(1)
    by (rule stamp_inv_move [OF inv])
       (use malformed hub_Send_frame(5) [OF malformed(5)] in auto)
next
  case (message p c data env)
  have "stamped cd (cn_role c) (marshal cd (env\<lparr>env_from := cn_role c\<rparr>))"
    unfolding stamped_def using message(4) by blast
  with message show ?thesis
    unfolding message(1) by (intro stamp_inv_move [OF inv]) auto
next
  case (close_send p c peer peer')
  have "stamped cd (cn_role c) (marshal cd (bye_envelope (cn_role c)))"
    unfolding stamped_def by blast
  with close_send show ?thesis
    unfolding close_send(1) by (intro stamp_inv_move [OF inv]) auto
next
  case (join p c b h)
  show ?thesis
    unfolding join(1)
    by (rule stamp_inv_move [OF inv])
       (use join hub_presence_join_frame(1) [OF join(4)] in \<open>auto split: if_splits\<close>)
next
  case (pump p c peer e b peer')
  with inv show ?thesis by (simp add: stamp_inv_def)
next
  case (accept p r m)
  show ?thesis
    unfolding accept(1) by (rule stamp_inv_move [OF inv]) (use accept in auto)
next
  case (register p c)
  show ?thesis
    unfolding register(1) by (rule stamp_inv_move [OF inv]) (use register in auto)
next
  case (read_error p c)
  show ?thesis
    unfolding read_error(1) by (rule stamp_inv_move [OF inv]) (use read_error in auto)
next
  case (unregister p c)
  show ?thesis
    unfolding unregister(1) by (rule stamp_inv_move [OF inv]) (use unregister in auto)
next
  case (leave p c)
  show ?thesis
    unfolding leave(1) by (rule stamp_inv_move [OF inv]) (use leave in auto)
qed

section \<open>Reachable states\<close>

definition sys_inv :: "('s \<Rightarrow> room \<Rightarrow> role \<Rightarrow> nat) \<Rightarrow> ('s \<Rightarrow> bool) \<Rightarrow> codec \<Rightarrow> 's sys \<Rightarrow> bool" where
  "sys_inv present ok cd s \<longleftrightarrow>
     peers_inv s \<and> table_inv s \<and> count_inv present ok s \<and> ready_inv cd s \<and> stamp_inv cd s"

lemma count_inv_start:
  assumes "ok s0" and "\<And>m r. present s0 m r = 0"
  shows "count_inv present ok (sys_start s0)"
  using assms by (simp add: count_inv_def sys_start_def OnRoomEnded_def NewHubWith_def members_def max_int64_def)

text \<open>
  Progress: a connection whose goroutine has not ended and is not blocked in \<open>ReadMessage\<close>
  has a step, whatever the others have done; in particular no section panics.
\<close>

lemma conn_progress:
  assumes "peers_inv s" and "table_inv s" and "sy_conn s p = Some c"
    and "cn_pc c \<noteq> Finished"
  shows "\<exists>t. sys_step ops cd s t \<and> (\<forall>q. q \<noteq> p \<longrightarrow> sy_conn t q = sy_conn s q) \<and>
    (\<exists>c'. sy_conn t p = Some c' \<and> cn_pc c' \<noteq> cn_pc c)"
proof -
  have send: "\<exists>h. hub_Send p q f (sy_hub s) = Return h" if "h_peers (sy_hub s) q \<noteq> None" for q f
    using that assms(1) hub_Send_total [of "sy_hub s" q _ p f] by (force simp: peers_inv_def)
  obtain peer where peer: "h_peers (sy_hub s) p = Some peer" "wsPeer_ok peer"
    using assms(1,3) unfolding peers_inv_def by blast
  note step = sys_step.intros(2-) [where ops = ops and cd = cd, OF assms(3)]
  show ?thesis
  proof (cases "cn_pc c")
    case AtRegister
    show ?thesis by (rule exI, rule conjI [OF step(1)]) (use AtRegister in auto)
  next
    case AtJoin
    show ?thesis
      by (rule exI, rule conjI [OF step(2) [OF AtJoin surjective_pairing]]) (use AtJoin in auto)
  next
    case AtNotify
    obtain h where h: "hub_Send p p (marshal cd ready_envelope) (sy_hub s) = Return h"
      using send [of p] peer by auto
    show ?thesis by (rule exI, rule conjI [OF step(3) [OF AtNotify h]]) (use AtNotify in auto)
  next
    case (AtPublish f fin)
    show ?thesis
      by (rule exI, rule conjI [OF step(4) [OF AtPublish]])
         (use AtPublish in \<open>auto simp: after_def split: option.splits\<close>)
  next
    case (AtDeliver q f fin)
    have "h_peers (sy_hub s) q \<noteq> None"
      using table_inv_deliver [OF assms(2,3) AtDeliver] assms(1)
      by (auto simp: same_room_def peers_inv_def)
    with send obtain h where h: "hub_Send p q f (sy_hub s) = Return h" by blast
    show ?thesis
      by (rule exI, rule conjI [OF step(5) [OF AtDeliver h]]) (use AtDeliver in \<open>auto simp: after_def\<close>)
  next
    case Reading
    show ?thesis by (rule exI, rule conjI [OF step(8) [OF Reading]]) (use Reading in auto)
  next
    case AtUnregister
    show ?thesis by (rule exI, rule conjI [OF step(9) [OF AtUnregister]]) (use AtUnregister in auto)
  next
    case AtLeave
    show ?thesis by (rule exI, rule conjI [OF step(10) [OF AtLeave]]) (use AtLeave in auto)
  next
    case AtCloseSend
    obtain peer' where cl: "closeSend peer = Return peer'"
      using peer(2) by (rule closeSend_ok)
    show ?thesis
      by (rule exI, rule conjI [OF step(11) [OF AtCloseSend peer(1) cl]]) (use AtCloseSend in auto)
  qed (use assms(4) in simp)
qed

lemma ready_both:
  assumes "ready_inv cd s" and "facing s p c q d" and "cn_role c \<in> {RoleAgent, RolePhone}"
    and "cn_pc c = Reading" and "cn_pc d = Reading"
    and "hub_lookup (cn_room c) (cn_role c) (sy_hub s) = Some p"
    and "hub_lookup (cn_room d) (cn_role d) (sy_hub s) = Some q"
  shows "readied cd (sy_hub s) p \<and> readied cd (sy_hub s) q"
proof -
  have sym: "facing s q d p c" using assms(2,3) by (auto simp: facing_def)
  have "cn_saw x \<Longrightarrow> cn_pc x = Reading \<Longrightarrow> sy_conn s a = Some x \<Longrightarrow> readied cd (sy_hub s) a" for a x
    using assms(1) unfolding ready_inv_def by fastforce
  moreover have "cn_saw x \<Longrightarrow> \<not> cn_saw y \<Longrightarrow> cn_pc x = Reading \<Longrightarrow> facing s a x b y \<Longrightarrow>
      hub_lookup (cn_room y) (cn_role y) (sy_hub s) = Some b \<Longrightarrow> readied cd (sy_hub s) b" for a x b y
    using assms(1) unfolding ready_inv_def by (fastforce simp: waiting_def)
  moreover have "cn_saw c \<or> cn_saw d" using assms(1-3) unfolding ready_inv_def by blast
  ultimately show ?thesis using assms(2,4-7) sym by (metis facing_def)
qed

context presence
begin

lemma sys_inv_step:
  "sys_step ops cd s t \<Longrightarrow> sys_inv present wf cd s \<Longrightarrow> sys_inv present wf cd t"
  unfolding sys_inv_def
  using peers_inv_step table_inv_step counted_step ready_inv_step stamp_inv_step by blast

lemma sys_inv_reach:
  assumes "sys_reach ops cd s0 s" and "wf s0" and "\<And>m r. present s0 m r = 0"
  shows "sys_inv present wf cd s"
  using assms(1)
proof (induction rule: sys_reach.induct)
  case start
  show ?case
    using assms(2,3)
    by (simp add: sys_inv_def peers_inv_start table_inv_start ready_inv_start
        count_inv_start stamp_inv_start)
next
  case (step s t)
  then show ?case by (blast intro: sys_inv_step)
qed

end

end
