(* ===== verification/Signaling_Properties.thy ===== *)
theory Signaling_Properties
  imports Signaling_Invariants
begin

text \<open>
  The connection machine as a function, so that runs can be computed, and the theorems
  about its reachable states, for the in-process presence and for the presence kept in
  Redis: both satisfy the contract \<open>presence\<close>, so the invariants of
  \<open>Signaling_Invariants\<close> hold of both.
\<close>

section \<open>Computing runs\<close>

datatype act =
    Accept string role room
  | Go string
  | Message string string
  | ReadError string
  | Pump string pump_event

definition sys_go :: "'s presence_ops \<Rightarrow> codec \<Rightarrow> string \<Rightarrow> conn \<Rightarrow> 's sys \<Rightarrow> 's sys option" where
  "sys_go ops cd p c s =
     (case cn_pc c of
        AtRegister \<Rightarrow> Some (move p c AtJoin (hub_register (cn_room c) (cn_role c) p (sy_hub s)) s)
      | AtJoin \<Rightarrow>
          (case hub_presence_join ops (cn_room c) (cn_role c) (sy_hub s) of
             (b, h) \<Rightarrow> Some (move p (c\<lparr>cn_saw := b\<rparr>) (if b then AtNotify else Reading) h s))
      | AtNotify \<Rightarrow>
          (case hub_Send p p (marshal cd ready_envelope) (sy_hub s) of
             Panic e \<Rightarrow> None
           | Return h \<Rightarrow> Some (move p c (AtPublish (marshal cd ready_envelope) False) h s))
      | AtPublish f fin \<Rightarrow>
          Some (move p c (case hub_lookup (cn_room c) (opposite (cn_role c)) (sy_hub s) of
                   None \<Rightarrow> after fin | Some q \<Rightarrow> AtDeliver q f fin) (sy_hub s) s)
      | AtDeliver q f fin \<Rightarrow>
          (case hub_Send p q f (sy_hub s) of
             Panic e \<Rightarrow> None
           | Return h \<Rightarrow> Some (move p c (after fin) h s))
      | AtUnregister \<Rightarrow>
          Some (move p c AtLeave (hub_unregister (cn_room c) (cn_role c) p (sy_hub s)) s)
      | AtLeave \<Rightarrow>
          Some (move p c AtCloseSend (hub_presence_leave ops (cn_room c) (cn_role c) (sy_hub s)) s)
      | AtCloseSend \<Rightarrow>
          (case h_peers (sy_hub s) p of
             None \<Rightarrow> None
           | Some peer \<Rightarrow>
               (case closeSend peer of
                  Panic e \<Rightarrow> None
                | Return peer' \<Rightarrow>
                    Some (move p c (AtPublish (marshal cd (bye_envelope (cn_role c))) True)
                      ((sy_hub s)\<lparr>h_peers := (h_peers (sy_hub s))(p \<mapsto> peer'\<lparr>wp_conn_closed := True\<rparr>)\<rparr>) s)))
      | _ \<Rightarrow> None)"

fun sys_do :: "'s presence_ops \<Rightarrow> codec \<Rightarrow> act \<Rightarrow> 's sys \<Rightarrow> 's sys option" where
  "sys_do ops cd (Accept p r m) s =
     (if sy_conn s p = None \<and> r \<in> {RoleAgent, RolePhone} \<and> int (card (dom (sy_conn s))) + 1 < max_int64
      then Some (s\<lparr>sy_hub := (sy_hub s)\<lparr>h_peers := (h_peers (sy_hub s))(p \<mapsto> new_wsPeer p r)\<rparr>,
         sy_conn := (sy_conn s)(p \<mapsto> \<lparr>cn_room = m, cn_role = r, cn_pc = AtRegister, cn_saw = False\<rparr>)\<rparr>)
      else None)"
| "sys_do ops cd (Go p) s = (case sy_conn s p of None \<Rightarrow> None | Some c \<Rightarrow> sys_go ops cd p c s)"
| "sys_do ops cd (Message p data) s =
     (case sy_conn s p of
        None \<Rightarrow> None
      | Some c \<Rightarrow>
          if cn_pc c \<noteq> Reading then None
          else (case unmarshal cd data of
             Some env \<Rightarrow>
               Some (move p c (AtPublish (marshal cd (env\<lparr>env_from := cn_role c\<rparr>)) False) (sy_hub s) s)
           | None \<Rightarrow>
               (case hub_Send p p (marshal cd error_envelope) (sy_hub s) of
                  Panic e \<Rightarrow> None
                | Return h \<Rightarrow> Some (move p c Reading h s))))"
| "sys_do ops cd (ReadError p) s =
     (case sy_conn s p of
        None \<Rightarrow> None
      | Some c \<Rightarrow> if cn_pc c \<noteq> Reading then None else Some (move p c AtUnregister (sy_hub s) s))"
| "sys_do ops cd (Pump p e) s =
     (case (sy_conn s p, h_peers (sy_hub s) p) of
        (Some c, Some peer) \<Rightarrow>
          (case writePump_step e peer of
             None \<Rightarrow> None
           | Some (b, peer') \<Rightarrow>
               Some (s\<lparr>sy_hub := (sy_hub s)\<lparr>h_peers := (h_peers (sy_hub s))(p \<mapsto> peer')\<rparr>\<rparr>))
      | _ \<Rightarrow> None)"

fun sys_run :: "'s presence_ops \<Rightarrow> codec \<Rightarrow> act list \<Rightarrow> 's sys \<Rightarrow> 's sys option" where
  "sys_run ops cd [] s = Some s"
| "sys_run ops cd (a # as) s =
     (case sys_do ops cd a s of None \<Rightarrow> None | Some t \<Rightarrow> sys_run ops cd as t)"

lemma conn_steps:
  "sy_conn s p = Some c \<Longrightarrow> cn_pc c = AtPublish f fin \<Longrightarrow>
     hub_lookup (cn_room c) (opposite (cn_role c)) (sy_hub s) = None \<Longrightarrow>
     sys_step ops cd s (s\<lparr>sy_conn := (sy_conn s)(p \<mapsto> c\<lparr>cn_pc := after fin\<rparr>)\<rparr>)"
  "sy_conn s p = Some c \<Longrightarrow> cn_pc c = AtPublish f fin \<Longrightarrow>
     hub_lookup (cn_room c) (opposite (cn_role c)) (sy_hub s) = Some q \<Longrightarrow>
     sys_step ops cd s (s\<lparr>sy_conn := (sy_conn s)(p \<mapsto> c\<lparr>cn_pc := AtDeliver q f fin\<rparr>)\<rparr>)"
  using sys_step.publish [of s p c f fin ops cd] by simp_all

lemmas go_intros = sys_step.intros(2-4,6-) conn_steps sys_step.message [simplified]
  sys_step.read_error [simplified]

lemma sys_do_go:
  "sy_conn s p = Some c \<Longrightarrow> sys_go ops cd p c s = Some t \<Longrightarrow> \<exists>a. sys_do ops cd a s = Some t"
  by (intro exI [of _ "Go p"]) simp

lemma sys_go_step:
  assumes "sys_go ops cd p c s = Some t" and "sy_conn s p = Some c"
  shows "sys_step ops cd s t"
  using assms
  by (auto simp: sys_go_def split: pc.splits go.splits option.splits prod.splits
      intro: go_intros)

lemma sys_do_step: "sys_do ops cd a s = Some t \<Longrightarrow> sys_step ops cd s t"
proof (cases a)
  case (Pump p e)
  moreover assume "sys_do ops cd a s = Some t"
  ultimately show ?thesis by (auto split: option.splits intro: sys_step.pump)
qed (auto split: option.splits if_splits go.splits dest: sys_go_step intro: go_intros sys_step.accept)

lemma sys_run_reach:
  "sys_run ops cd as s = Some t \<Longrightarrow> sys_reach ops cd s0 s \<Longrightarrow> sys_reach ops cd s0 t"
  by (induction "as" arbitrary: s) (auto split: option.splits dest: sys_do_step intro: sys_reach.step)

lemma sys_do_complete:
  assumes "sys_step ops cd s t"
  shows "\<exists>a. sys_do ops cd a s = Some t"
  using assms
proof (cases rule: sys_step.cases)
  case (accept p r m)
  then show ?thesis by (intro exI [of _ "Accept p r m"]) auto
next
  case (message p c data env)
  then show ?thesis by (intro exI [of _ "Message p data"]) simp
next
  case (malformed p c data h)
  then show ?thesis by (intro exI [of _ "Message p data"]) simp
next
  case (read_error p c)
  then show ?thesis by (intro exI [of _ "ReadError p"]) simp
next
  case (pump p c peer e b peer')
  then show ?thesis by (intro exI [of _ "Pump p e"]) simp
qed (rule sys_do_go, assumption, simp add: sys_go_def)+

section \<open>The two deployments\<close>

definition local_ops :: "LocalPresence presence_ops" where
  "local_ops = \<lparr>op_Join = LocalPresence_Join, op_Leave = LocalPresence_Leave\<rparr>"

definition redis_ops :: "keyspace presence_ops" where
  "redis_ops = \<lparr>op_Join = RedisPresence_Join ref_exec defaultSignalingTTL,
     op_Leave = RedisPresence_Leave ref_exec\<rparr>"

lemma local_inv:
  "sys_reach local_ops cd NewLocalPresence s \<Longrightarrow> sys_inv lp_present lp_wf cd s"
  unfolding local_ops_def
  by (rule lp.sys_inv_reach, assumption) simp_all

lemma redis_inv:
  "sys_reach redis_ops cd (ks_empty t0) s \<Longrightarrow> sys_inv rp_present rp_wf cd s"
  unfolding redis_ops_def
  by (rule rp.sys_inv_reach, assumption) (simp_all add: rp_wf_def rp_present_def rp_count_def rp_hash_def hash_count_def)

section \<open>A run to look at\<close>

definition demo_codec :: codec where
  "demo_codec = \<lparr>marshal = (\<lambda>e. env_type e @ ''|'' @ env_from e @ ''|'' @ env_payload e),
     unmarshal = (\<lambda>d. if d = [] then None
        else Some \<lparr>env_type = d, env_from = ''admin'', env_payload = ''x''\<rparr>)\<rparr>"

definition demo_join :: "act list" where
  "demo_join = [Accept ''a'' RoleAgent ''m'', Go ''a'', Go ''a'',
     Accept ''b'' RolePhone ''m'', Go ''b'', Go ''b'', Go ''b'', Go ''b'', Go ''b'']"

definition demo_offer :: "act list" where
  "demo_offer = [Message ''a'' ''offer'', Go ''a'', Go ''a'']"

definition demo_leave :: "act list" where
  "demo_leave = [ReadError ''a'', Go ''a'', Go ''a'', ReadError ''b'', Go ''b'']"

definition demo_accepted :: "LocalPresence sys" where
  "demo_accepted = (case sys_do local_ops demo_codec (Accept ''a'' RoleAgent ''m'') (sys_start NewLocalPresence)
     of Some s \<Rightarrow> s | None \<Rightarrow> sys_start NewLocalPresence)"

lemmas demo_defs = demo_codec_def demo_join_def demo_offer_def demo_leave_def sys_go_def
  hub_register_def hub_unregister_def hub_presence_join_def hub_presence_leave_def hub_Send_def
  hub_lookup_def Send_def chan_try_send_def new_wsPeer_def make_chan_def sendBuffer_def
  sys_start_def OnRoomEnded_def NewHubWith_def NewLocalPresence_def local_ops_def
  LocalPresence_Join_def LocalPresence_Leave_def map_get_def RoleAgent_def RolePhone_def
  opposite_def after_def max_int64_def int64_def ready_envelope_def

lemma demo_joined:
  "map_option (\<lambda>s. (sy_conn s ''a'', sy_conn s ''b'', h_rooms (sy_hub s), h_sent (sy_hub s)))
     (sys_run local_ops demo_codec demo_join (sys_start NewLocalPresence)) =
   Some (Some \<lparr>cn_room = ''m'', cn_role = ''agent'', cn_pc = Reading, cn_saw = False\<rparr>,
         Some \<lparr>cn_room = ''m'', cn_role = ''phone'', cn_pc = Reading, cn_saw = True\<rparr>,
         [(''m'', [(''agent'', ''a''), (''phone'', ''b'')])],
         [(''b'', ''b'', ''peer-ready||'', True), (''b'', ''a'', ''peer-ready||'', True)])"
  by (simp add: demo_defs)

lemma demo_left:
  "\<exists>s t. sys_run local_ops demo_codec (demo_join @ demo_leave) (sys_start NewLocalPresence) = Some s \<and>
     sys_do local_ops demo_codec (Go ''b'') s = Some t \<and>
     h_ended (sy_hub s) = [] \<and> h_ended (sy_hub t) = [''m'']"
  by (simp add: demo_defs)

section \<open>Sections and whole operations\<close>

text \<open>
  Run without interference, the sections of a connection are the operations of the hub:
  five turns from \<open>AtRegister\<close> at most are \<open>Hub.Join\<close>, two turns from
  \<open>AtUnregister\<close> are \<open>Hub.Leave\<close>, two turns at most from \<open>AtPublish\<close> are
  \<open>Hub.Relay\<close>.
\<close>

lemma relay_sections:
  assumes "sy_conn s p = Some c" and "cn_pc c = AtPublish f fin"
    and "deliverLocal p (cn_room c) (opposite (cn_role c)) f (sy_hub s) = Return h"
  shows "\<exists>n \<le> 2. sys_run ops cd (replicate n (Go p)) s = Some (move p c (after fin) h s)"
proof (cases "hub_lookup (cn_room c) (opposite (cn_role c)) (sy_hub s)")
  case None
  with assms show ?thesis
    by (intro exI [of _ 1]) (simp add: sys_go_def deliverLocal_def)
next
  case (Some q)
  with assms show ?thesis
    by (intro exI [of _ 2]) (simp add: numeral_2_eq_2 sys_go_def deliverLocal_def)
qed

lemma sys_run_append:
  "sys_run ops cd (xs @ ys) s = (case sys_run ops cd xs s of None \<Rightarrow> None | Some t \<Rightarrow> sys_run ops cd ys t)"
  by (induction xs arbitrary: s) (simp_all split: option.splits)

lemma join_sections:
  assumes c: "sy_conn s p = Some c" "cn_pc c = AtRegister"
    and run: "Hub_Join ops (marshal cd) (cn_room c) (cn_role c) p (sy_hub s) = Return h"
  shows "\<exists>n \<le> 5. \<exists>b. sys_run ops cd (replicate n (Go p)) s =
    Some (move p (c\<lparr>cn_saw := b\<rparr>) Reading h s)"
proof -
  obtain b h1 where j: "hub_presence_join ops (cn_room c) (cn_role c)
      (hub_register (cn_room c) (cn_role c) p (sy_hub s)) = (b, h1)"
    by (meson surj_pair)
  let ?c = "c\<lparr>cn_saw := b\<rparr>"
  have two: "sys_run ops cd [Go p, Go p] s = Some (move p ?c (if b then AtNotify else Reading) h1 s)"
    using c j by (simp add: sys_go_def)
  show ?thesis
  proof (cases b)
    case False
    with two j run show ?thesis
      by (intro exI [of _ 2] conjI exI [of _ b]) (simp_all add: numeral_2_eq_2 Hub_Join_def Let_def)
  next
    case True
    with j run obtain h2 where h2: "hub_Send p p (marshal cd ready_envelope) h1 = Return h2"
      "deliverLocal p (cn_room c) (opposite (cn_role c)) (marshal cd ready_envelope) h2 = Return h"
      by (auto simp: Hub_Join_def Let_def split: go.splits)
    let ?s = "move p ?c (AtPublish (marshal cd ready_envelope) False) h2 s"
    have three: "sys_run ops cd ([Go p, Go p] @ [Go p]) s = Some ?s"
      using two True h2(1) by (simp only: sys_run_append) (simp add: sys_go_def)
    obtain n where n: "n \<le> 2"
      "sys_run ops cd (replicate n (Go p)) ?s = Some (move p (?c\<lparr>cn_pc := AtPublish (marshal cd ready_envelope) False\<rparr>) (after False) h ?s)"
      using relay_sections [of ?s p "?c\<lparr>cn_pc := AtPublish (marshal cd ready_envelope) False\<rparr>"
          "marshal cd ready_envelope" False h ops cd] h2(2) by auto
    have "sys_run ops cd (([Go p, Go p] @ [Go p]) @ replicate n (Go p)) s = Some (move p ?c Reading h s)"
      unfolding sys_run_append [of ops cd "[Go p, Go p] @ [Go p]"] three using n(2) by (simp add: after_def)
    moreover have eq: "([Go p, Go p] @ [Go p]) @ replicate n (Go p) = replicate (n + 3) (Go p)"
      by (simp add: numeral_3_eq_3)
    ultimately have "sys_run ops cd (replicate (n + 3) (Go p)) s = Some (move p ?c Reading h s)"
      by (simp only: eq)
    moreover have "n + 3 \<le> 5" using n(1) by simp
    ultimately show ?thesis by blast
  qed
qed

section \<open>Theorems\<close>

lemma demo_reach:
  "sys_run local_ops demo_codec demo_join (sys_start NewLocalPresence) = Some s \<Longrightarrow>
     sys_reach local_ops demo_codec NewLocalPresence s"
  by (erule sys_run_reach) (rule sys_reach.start)

lemma demo_state:
  obtains s where "sys_reach local_ops demo_codec NewLocalPresence s"
    "sys_run local_ops demo_codec demo_join (sys_start NewLocalPresence) = Some s"
    "sy_conn s ''a'' = Some \<lparr>cn_room = ''m'', cn_role = ''agent'', cn_pc = Reading, cn_saw = False\<rparr>"
    "sy_conn s ''b'' = Some \<lparr>cn_room = ''m'', cn_role = ''phone'', cn_pc = Reading, cn_saw = True\<rparr>"
    "h_rooms (sy_hub s) = [(''m'', [(''agent'', ''a''), (''phone'', ''b'')])]"
    "h_sent (sy_hub s) =
      [(''b'', ''b'', ''peer-ready||'', True), (''b'', ''a'', ''peer-ready||'', True)]"
  using demo_joined demo_reach by auto

text \<open>
  C8: in every reachable state of the relay, however the connections interleave, when two
  connections of the two roles of a room are both past their join, back in their read loop,
  and registered as the current occupants of their roles, then a \<open>peer-ready\<close> frame has
  been sent to both.
\<close>

theorem peer_ready_not_lost:
  assumes "sys_reach local_ops cd NewLocalPresence s"
    and "sy_conn s p = Some c" and "sy_conn s q = Some d"
    and "cn_room d = cn_room c" and "cn_role d = opposite (cn_role c)"
    and "cn_pc c = Reading" and "cn_pc d = Reading"
    and "hub_lookup (cn_room c) (cn_role c) (sy_hub s) = Some p"
    and "hub_lookup (cn_room d) (cn_role d) (sy_hub s) = Some q"
  shows "readied cd (sy_hub s) p \<and> readied cd (sy_hub s) q"
proof (rule ready_both)
  show "facing s p c q d" using assms(2-7) by (simp add: facing_def)
  show "ready_inv cd s" "cn_role c \<in> {RoleAgent, RolePhone}"
    using local_inv [OF assms(1)] assms(2) by (auto simp: sys_inv_def peers_inv_def)
qed (use assms in auto)

theorem peer_ready_not_lost_witness:
  "\<exists>s. sys_run local_ops demo_codec demo_join (sys_start NewLocalPresence) = Some s \<and>
     readied demo_codec (sy_hub s) ''a'' \<and> readied demo_codec (sy_hub s) ''b''"
proof (rule demo_state)
  fix s
  assume s: "sys_reach local_ops demo_codec NewLocalPresence s"
    "sys_run local_ops demo_codec demo_join (sys_start NewLocalPresence) = Some s"
    "sy_conn s ''a'' = Some \<lparr>cn_room = ''m'', cn_role = ''agent'', cn_pc = Reading, cn_saw = False\<rparr>"
    "sy_conn s ''b'' = Some \<lparr>cn_room = ''m'', cn_role = ''phone'', cn_pc = Reading, cn_saw = True\<rparr>"
    "h_rooms (sy_hub s) = [(''m'', [(''agent'', ''a''), (''phone'', ''b'')])]"
  have "readied demo_codec (sy_hub s) ''a'' \<and> readied demo_codec (sy_hub s) ''b''"
    by (rule peer_ready_not_lost [OF s(1,3,4)])
       (simp_all add: s(5) hub_lookup_def map_get_def opposite_def RoleAgent_def RolePhone_def)
  with s(2) show ?thesis by blast
qed

text \<open>
  C9: the room-ended callback fires in a step of the relay exactly when that step takes the
  last counted connection of a room out of presence, and it names that room.
\<close>

theorem room_ended_exactly_at_last_leave:
  assumes "sys_reach local_ops cd NewLocalPresence s" and "sys_step local_ops cd s t"
  shows "(\<exists>m. h_ended (sy_hub t) = h_ended (sy_hub s) @ [m] \<and>
        (\<exists>r. members s m r \<noteq> {}) \<and> (\<forall>r. members t m r = {})) \<or>
     h_ended (sy_hub t) = h_ended (sy_hub s) \<and>
        (\<forall>m. (\<exists>r. members s m r \<noteq> {}) \<longrightarrow> (\<exists>r. members t m r \<noteq> {}))"
proof -
  have "count_inv lp_present lp_wf s" using local_inv [OF assms(1)] by (simp add: sys_inv_def)
  then have "ended_now s t"
    using assms(2) unfolding local_ops_def by (blast intro: lp.ended_step)
  then show ?thesis by (simp only: ended_now_def)
qed

theorem room_ended_exactly_at_last_leave_witness:
  "\<exists>s t. sys_run local_ops demo_codec (demo_join @ demo_leave) (sys_start NewLocalPresence) = Some s \<and>
     sys_do local_ops demo_codec (Go ''b'') s = Some t \<and>
     ((\<exists>m. h_ended (sy_hub t) = h_ended (sy_hub s) @ [m] \<and>
        (\<exists>r. members s m r \<noteq> {}) \<and> (\<forall>r. members t m r = {})) \<or>
      h_ended (sy_hub t) = h_ended (sy_hub s) \<and>
        (\<forall>m. (\<exists>r. members s m r \<noteq> {}) \<longrightarrow> (\<exists>r. members t m r \<noteq> {}))) \<and>
     h_ended (sy_hub s) = [] \<and> h_ended (sy_hub t) = [''m'']"
proof -
  obtain s t where s: "sys_run local_ops demo_codec (demo_join @ demo_leave) (sys_start NewLocalPresence) = Some s"
    and t: "sys_do local_ops demo_codec (Go ''b'') s = Some t"
    and log: "h_ended (sy_hub s) = []" "h_ended (sy_hub t) = [''m'']"
    using demo_left by auto
  have "sys_reach local_ops demo_codec NewLocalPresence s"
    by (rule sys_run_reach [OF s sys_reach.start])
  from room_ended_exactly_at_last_leave [OF this sys_do_step [OF t]] s t log show ?thesis by blast
qed

text \<open>
  C10: a frame only ever travels inside one room: every recorded call of \<open>Send\<close> was made by
  a connection on itself or on a connection of the same room with the opposite role.
\<close>

theorem frames_stay_in_room:
  assumes "sys_reach local_ops cd NewLocalPresence s" and "(p, q, f, b) \<in> set (h_sent (sy_hub s))"
  shows "\<exists>c d. sy_conn s p = Some c \<and> sy_conn s q = Some d \<and> cn_room d = cn_room c \<and>
    (q = p \<or> cn_role d = opposite (cn_role c))"
proof -
  have "table_inv s" using local_inv [OF assms(1)] by (simp add: sys_inv_def)
  then have "same_room s p q" using assms(2) by (rule table_inv_log)
  then show ?thesis by (auto simp: same_room_def)
qed

theorem frames_stay_in_room_witness:
  "\<exists>s. sys_run local_ops demo_codec demo_join (sys_start NewLocalPresence) = Some s \<and>
     (''b'', ''a'', ''peer-ready||'', True) \<in> set (h_sent (sy_hub s)) \<and>
     (\<exists>c d. sy_conn s ''b'' = Some c \<and> sy_conn s ''a'' = Some d \<and> cn_room d = cn_room c \<and>
        (''a'' = ''b'' \<or> cn_role d = opposite (cn_role c)))"
proof (rule demo_state)
  fix s
  assume s: "sys_reach local_ops demo_codec NewLocalPresence s"
    "sys_run local_ops demo_codec demo_join (sys_start NewLocalPresence) = Some s"
    "h_sent (sy_hub s) =
      [(''b'', ''b'', ''peer-ready||'', True), (''b'', ''a'', ''peer-ready||'', True)]"
  then have log: "(''b'', ''a'', ''peer-ready||'', True) \<in> set (h_sent (sy_hub s))" by simp
  show ?thesis
    by (intro exI [of _ s] conjI s(2) log) (rule frames_stay_in_room [OF s(1) log])
qed

text \<open>
  C11: a peer cannot speak for another role: whatever a connection reads from its socket, every
  frame it causes to be sent to the other side is the relay's own \<open>peer-ready\<close>, its goodbye, or a
  message that was read, passed on with its \<open>from\<close> field set to the role the connection was admitted
  with.
\<close>

theorem sender_role_is_stamped:
  assumes "sys_reach local_ops cd NewLocalPresence s"
    and "(p, q, f, b) \<in> set (h_sent (sy_hub s))" and "q \<noteq> p"
  shows "\<exists>c. sy_conn s p = Some c \<and>
    (f = marshal cd ready_envelope \<or> f = marshal cd (bye_envelope (cn_role c)) \<or>
     (\<exists>data env. unmarshal cd data = Some env \<and> f = marshal cd (env\<lparr>env_from := cn_role c\<rparr>)))"
  using local_inv [OF assms(1)] assms(2,3) by (fastforce simp: sys_inv_def stamp_inv_def stamped_def)

lemma demo_offered:
  "\<exists>s. sys_run local_ops demo_codec (demo_join @ demo_offer) (sys_start NewLocalPresence) = Some s \<and>
     (''a'', ''b'', ''offer|agent|x'', True) \<in> set (h_sent (sy_hub s))"
  by (simp add: demo_defs)

theorem sender_role_is_stamped_witness:
  "\<exists>s. sys_run local_ops demo_codec (demo_join @ demo_offer) (sys_start NewLocalPresence) = Some s \<and>
     (''a'', ''b'', ''offer|agent|x'', True) \<in> set (h_sent (sy_hub s)) \<and>
     (\<exists>c. sy_conn s ''a'' = Some c \<and> (''offer|agent|x'' = marshal demo_codec ready_envelope \<or>
        ''offer|agent|x'' = marshal demo_codec (bye_envelope (cn_role c)) \<or>
        (\<exists>data env. unmarshal demo_codec data = Some env \<and> ''offer|agent|x'' = marshal demo_codec (env\<lparr>env_from := cn_role c\<rparr>))))"
proof -
  obtain s where s: "sys_run local_ops demo_codec (demo_join @ demo_offer) (sys_start NewLocalPresence) = Some s"
    "(''a'', ''b'', ''offer|agent|x'', True) \<in> set (h_sent (sy_hub s))"
    using demo_offered by blast
  have "\<exists>c. sy_conn s ''a'' = Some c \<and> (''offer|agent|x'' = marshal demo_codec ready_envelope \<or>
      ''offer|agent|x'' = marshal demo_codec (bye_envelope (cn_role c)) \<or>
      (\<exists>data env. unmarshal demo_codec data = Some env \<and> ''offer|agent|x'' = marshal demo_codec (env\<lparr>env_from := cn_role c\<rparr>)))"
    by (rule sender_role_is_stamped [OF sys_run_reach [OF s(1) sys_reach.start] s(2)]) simp
  with s show ?thesis by blast
qed



text \<open>
  Presence counts exactly the connections that are between their join and their leave, per
  room and role, in every reachable state of the relay with in-process presence.
\<close>

theorem presence_counts_connections:
  assumes "sys_reach local_ops cd NewLocalPresence s"
  shows "lp_present (h_presence (sy_hub s)) m r = card (members s m r)"
  using local_inv [OF assms] by (simp add: sys_inv_def count_inv_def)

theorem presence_counts_connections_witness:
  "\<exists>s. sys_run local_ops demo_codec demo_join (sys_start NewLocalPresence) = Some s \<and>
     lp_present (h_presence (sy_hub s)) ''m'' RolePhone = card (members s ''m'' RolePhone)"
  by (rule demo_state) (use presence_counts_connections in blast)

text \<open>
  The same for several instances that share presence in Redis, while the server answers and
  the room's hash has not expired: the callback fires exactly when the last connection of the
  room, counted over all instances, leaves.
\<close>

theorem redis_room_ended_exactly:
  assumes "sys_reach redis_ops cd (ks_empty t0) s" and "sys_step redis_ops cd s t"
  shows "(\<exists>m. h_ended (sy_hub t) = h_ended (sy_hub s) @ [m] \<and>
        (\<exists>r. members s m r \<noteq> {}) \<and> (\<forall>r. members t m r = {})) \<or>
     h_ended (sy_hub t) = h_ended (sy_hub s) \<and>
        (\<forall>m. (\<exists>r. members s m r \<noteq> {}) \<longrightarrow> (\<exists>r. members t m r \<noteq> {}))"
proof -
  have "count_inv rp_present rp_wf s" using redis_inv [OF assms(1)] by (simp add: sys_inv_def)
  then have "ended_now s t"
    using assms(2) unfolding redis_ops_def by (blast intro: rp.ended_step)
  then show ?thesis by (simp only: ended_now_def)
qed

theorem redis_room_ended_exactly_witness:
  "\<exists>t. sys_do redis_ops demo_codec (Accept ''a'' RoleAgent ''m'') (sys_start (ks_empty 0)) = Some t \<and>
     ((\<exists>m. h_ended (sy_hub t) = h_ended (sy_hub (sys_start (ks_empty 0))) @ [m] \<and>
        (\<exists>r. members (sys_start (ks_empty 0)) m r \<noteq> {}) \<and> (\<forall>r. members t m r = {})) \<or>
      h_ended (sy_hub t) = h_ended (sy_hub (sys_start (ks_empty 0))) \<and>
        (\<forall>m. (\<exists>r. members (sys_start (ks_empty 0)) m r \<noteq> {}) \<longrightarrow> (\<exists>r. members t m r \<noteq> {})))"
proof -
  obtain t where t: "sys_do redis_ops demo_codec (Accept ''a'' RoleAgent ''m'') (sys_start (ks_empty 0)) = Some t"
    by (simp add: sys_start_def max_int64_def)
  with redis_room_ended_exactly [OF sys_reach.start sys_do_step [OF t]] show ?thesis by blast
qed



end
