(* ===== verification/Redis_Fanout.thy ===== *)
theory Redis_Fanout
  imports Requests Hub
begin

text \<open>
  Frame distribution between backend instances (\<open>signaling/redis.go\<close>: \<open>RedisFanout\<close>). An instance
  publishes a frame as JSON on one Redis channel and runs a goroutine that reads its subscription,
  decodes each payload and hands it to the hub's \<open>deliverLocal\<close>. The pub/sub server is a parameter:
  a function that says which of the current subscribers the n-th \<open>PUBLISH\<close> reaches and whether the
  call returned an error. Redis delivers at most once and to subscribers of the channel only
  (\<open>pubsub_service\<close>); when no connection is lost every subscriber is reached (\<open>reliable_pubsub\<close>).
\<close>

type_synonym inst = nat

section \<open>Messages\<close>

record fanoutMessage =
  fm_Room :: room
  fm_TargetRole :: role
  fm_Frame :: frame

definition fanoutMessage_struct :: "fanoutMessage \<Rightarrow> struct" where
  "fanoutMessage_struct m = [(''room'', VStr (fm_Room m)), (''role'', VStr (fm_TargetRole m)), (''frame'', VBytes (fm_Frame m))]"

definition fanoutMessage_of :: "struct \<Rightarrow> fanoutMessage" where
  "fanoutMessage_of st = \<lparr>fm_Room = fval_str (map_of st ''room''),
     fm_TargetRole = fval_str (map_of st ''role''), fm_Frame = fval_str (map_of st ''frame'')\<rparr>"

definition Marshal_fanout :: "fanoutMessage \<Rightarrow> string" where
  "Marshal_fanout m = Marshal (fanoutMessage_struct m)"

definition Unmarshal_fanout :: "string \<Rightarrow> fanoutMessage res" where
  "Unmarshal_fanout payload =
     (case Unmarshal (fanoutMessage_struct \<lparr>fm_Room = '''', fm_TargetRole = '''', fm_Frame = ''''\<rparr>) payload of
        (st, Some e) \<Rightarrow> Inl e
      | (st, None) \<Rightarrow> Inr (fanoutMessage_of st))"

lemma fanout_roundtrip:
  assumes "is_ascii (fm_Room m)" and "is_ascii (fm_TargetRole m)"
  shows "Unmarshal_fanout (Marshal_fanout m) = Inr m"
proof -
  have "plain_struct (fanoutMessage_struct m)"
    using assms by (simp add: plain_struct_def fanoutMessage_struct_def) (simp add: is_ascii_def)
  moreover have "same_fields (fanoutMessage_struct m') (fanoutMessage_struct m)" for m'
    by (simp add: same_fields_def fanoutMessage_struct_def)
  ultimately show ?thesis
    by (simp add: Unmarshal_fanout_def Marshal_fanout_def Unmarshal_Marshal)
       (simp add: fanoutMessage_of_def fanoutMessage_struct_def)
qed

section \<open>The server\<close>

type_synonym pubsub_server = "nat \<Rightarrow> string \<Rightarrow> string \<Rightarrow> (inst \<times> string) list \<Rightarrow> inst list \<times> go_error option"

locale pubsub_service =
  fixes publish :: pubsub_server
  assumes reached_subscribed: "i \<in> set (fst (publish n ch pl subs)) \<Longrightarrow> (i, ch) \<in> set subs"

locale reliable_pubsub = pubsub_service +
  assumes subscribed_reached: "(i, ch) \<in> set subs \<Longrightarrow> i \<in> set (fst (publish n ch pl subs))"

definition serve_all :: pubsub_server where
  "serve_all n ch pl subs = (map fst (filter (\<lambda>(i, c). c = ch) subs), None)"

text \<open>A server whose connections fail according to a plan: \<open>plan n i\<close> says whether the n-th message reaches \<open>i\<close>.\<close>

definition serve_some :: "(nat \<Rightarrow> inst \<Rightarrow> bool) \<Rightarrow> pubsub_server" where
  "serve_some plan n ch pl subs =
     (filter (plan n) (map fst (filter (\<lambda>(i, c). c = ch) subs)),
      if list_ex (\<lambda>(i, c). c = ch \<and> \<not> plan n i) subs then Some (ErrExt ''connection lost'') else None)"

interpretation all: reliable_pubsub serve_all
  by unfold_locales (force simp: serve_all_def)+

interpretation some: pubsub_service "serve_some plan"
  by unfold_locales (auto simp: serve_some_def)

section \<open>RedisFanout\<close>

text \<open>
  The goroutine of \<open>Start\<close> waits for a message, or is about to call \<open>Send\<close> on the peer it has looked
  up. A waiting payload carries the id of the connection on whose behalf it was published; only the
  log of the model uses it.
\<close>

datatype loop_pc = LoopOff | LoopWait | LoopDeliver string string frame

record RedisFanout =
  rf_channel :: string
  rf_cancelled :: bool
  rf_pubsub :: "(string \<times> string) list option"
  rf_loop :: loop_pc

definition NewRedisFanout :: RedisFanout where
  "NewRedisFanout = \<lparr>rf_channel = ''signaling:fanout'', rf_cancelled = False, rf_pubsub = None, rf_loop = LoopOff\<rparr>"

text \<open>Which instances get which payload; errors are logged and otherwise ignored.\<close>

definition RedisFanout_Publish ::
  "pubsub_server \<Rightarrow> nat \<Rightarrow> (inst \<times> string) list \<Rightarrow> RedisFanout \<Rightarrow> room \<Rightarrow> role \<Rightarrow> frame \<Rightarrow> inst list \<times> string" where
  "RedisFanout_Publish publish n subs f m targetRole frame =
     (let payload = Marshal_fanout \<lparr>fm_Room = m, fm_TargetRole = targetRole, fm_Frame = frame\<rparr>
      in if rf_cancelled f then ([], payload) else (fst (publish n (rf_channel f) payload subs), payload))"

definition RedisFanout_Start :: "RedisFanout \<Rightarrow> RedisFanout" where
  "RedisFanout_Start f = f\<lparr>rf_pubsub := Some [], rf_loop := LoopWait\<rparr>"

definition rf_push :: "string \<times> string \<Rightarrow> RedisFanout \<Rightarrow> RedisFanout" where
  "rf_push x f = f\<lparr>rf_pubsub := map_option (\<lambda>q. q @ [x]) (rf_pubsub f)\<rparr>"

definition rf_subscribed :: "RedisFanout \<Rightarrow> bool" where
  "rf_subscribed f \<longleftrightarrow> rf_pubsub f \<noteq> None \<and> \<not> rf_cancelled f"

text \<open>
  A turn of the goroutine: the branch for a message (a payload that does not decode is skipped; else
  the first half of \<open>deliverLocal\<close>, with \<open>lookup\<close> standing for the room table), and the branch for a
  cancelled context. \<open>None\<close>: the branch is not ready.
\<close>

definition rf_receive :: "(room \<Rightarrow> role \<Rightarrow> string option) \<Rightarrow> RedisFanout \<Rightarrow> RedisFanout option" where
  "rf_receive lookup f =
     (case (rf_loop f, rf_pubsub f) of
        (LoopWait, Some ((payload, p) # q)) \<Rightarrow>
          (let f1 = f\<lparr>rf_pubsub := Some q\<rparr>
           in case Unmarshal_fanout payload of
                Inl e \<Rightarrow> Some f1
              | Inr m \<Rightarrow>
                  (case lookup (fm_Room m) (fm_TargetRole m) of
                     None \<Rightarrow> Some f1
                   | Some peer \<Rightarrow> Some (f1\<lparr>rf_loop := LoopDeliver p peer (fm_Frame m)\<rparr>)))
      | (LoopWait, Some []) \<Rightarrow> if rf_cancelled f then Some (f\<lparr>rf_loop := LoopOff\<rparr>) else None
      | _ \<Rightarrow> None)"

definition rf_done :: "RedisFanout \<Rightarrow> RedisFanout option" where
  "rf_done f = (if rf_loop f = LoopWait \<and> rf_cancelled f then Some (f\<lparr>rf_loop := LoopOff\<rparr>) else None)"

definition RedisFanout_Close :: "RedisFanout \<Rightarrow> RedisFanout" where
  "RedisFanout_Close f = f\<lparr>rf_cancelled := True\<rparr>"

text \<open>After \<open>Close\<close> nothing is published, no message arrives, and the goroutine can end.\<close>

lemma closed_is_silent:
  "fst (RedisFanout_Publish publish n subs (RedisFanout_Close f) m r x) = []"
  "\<not> rf_subscribed (RedisFanout_Close f)"
  "rf_loop f = LoopWait \<Longrightarrow> rf_done (RedisFanout_Close f) = Some ((RedisFanout_Close f)\<lparr>rf_loop := LoopOff\<rparr>)"
  "rf_loop f = LoopOff \<Longrightarrow> rf_receive lookup (RedisFanout_Close f) = None"
  by (simp_all add: RedisFanout_Publish_def RedisFanout_Close_def rf_subscribed_def rf_done_def rf_receive_def
      split: option.split list.split)

lemma rf_receive_Some:
  assumes "rf_receive lookup f = Some f'" and "\<not> rf_cancelled f"
  obtains payload p q where "rf_loop f = LoopWait" "rf_pubsub f = Some ((payload, p) # q)" "rf_pubsub f' = Some q"
    "rf_cancelled f' = rf_cancelled f" "rf_channel f' = rf_channel f"
    "rf_loop f' = (case Unmarshal_fanout payload of Inl e \<Rightarrow> LoopWait | Inr m \<Rightarrow>
       (case lookup (fm_Room m) (fm_TargetRole m) of None \<Rightarrow> LoopWait | Some peer \<Rightarrow> LoopDeliver p peer (fm_Frame m)))"
  using assms by (auto simp: rf_receive_def Let_def split: loop_pc.splits option.splits list.splits sum.splits)

end
