(* ===== verification/Cluster.thy ===== *)
theory Cluster
  imports Signaling_Properties Redis_Fanout
begin

text \<open>
  Several backend instances behind a load balancer, with presence and fanout in Redis
  (\<open>SIGNALING_FANOUT=redis\<close>). Every connection lives on one instance, which holds its socket and its
  entry in the room table; presence is shared. Publishing a frame puts its JSON into the
  subscriptions that the pub/sub server reaches, and the fanout goroutine of each instance looks the
  receiver up in its own table. The steps of a connection other than publishing are those of
  \<open>Signaling_System\<close> on the instance's view of the state, so their invariants carry over.
\<close>

section \<open>The machine\<close>

record cluster_env =
  ce_n :: nat
  ce_home :: "string \<Rightarrow> inst"
  ce_opens :: "room \<Rightarrow> bool"
  ce_publish :: pubsub_server

text \<open>
  \<open>ce_opens\<close> are the room names that admission lets through. The shared part of the state is one
  \<open>sys\<close> whose hub has no table of its own; \<open>cl_pubs\<close> logs the payloads published so far and
  \<open>cl_taken i\<close> those the goroutine of instance \<open>i\<close> has taken from its subscription.
\<close>

record 's cluster =
  cl_sys :: "'s sys"
  cl_rooms :: "inst \<Rightarrow> (room, (role, string) gomap) gomap"
  cl_fan :: "inst \<Rightarrow> RedisFanout"
  cl_pubs :: "string list"
  cl_taken :: "inst \<Rightarrow> string list"

definition cl_start :: "'s \<Rightarrow> 's cluster" where
  "cl_start s0 = \<lparr>cl_sys = sys_start s0, cl_rooms = (\<lambda>_. []), cl_fan = (\<lambda>_. RedisFanout_Start NewRedisFanout),
     cl_pubs = [], cl_taken = (\<lambda>_. [])\<rparr>"

text \<open>What instance \<open>i\<close> sees, and writing that back.\<close>

definition view :: "'s cluster \<Rightarrow> inst \<Rightarrow> 's sys" where
  "view s i = (cl_sys s)\<lparr>sy_hub := (sy_hub (cl_sys s))\<lparr>h_rooms := cl_rooms s i\<rparr>\<rparr>"

definition unview :: "inst \<Rightarrow> 's sys \<Rightarrow> 's cluster \<Rightarrow> 's cluster" where
  "unview i t s = s\<lparr>cl_sys := t\<lparr>sy_hub := (sy_hub t)\<lparr>h_rooms := []\<rparr>\<rparr>,
     cl_rooms := (cl_rooms s)(i := h_rooms (sy_hub t))\<rparr>"

fun act_peer :: "act \<Rightarrow> string" where
  "act_peer (Accept p r m) = p"
| "act_peer (Go p) = p"
| "act_peer (Message p d) = p"
| "act_peer (ReadError p) = p"
| "act_peer (Pump p e) = p"

fun local_pc :: "pc \<Rightarrow> bool" where
  "local_pc (AtPublish _ _) = False"
| "local_pc (AtDeliver _ _ _) = False"
| "local_pc _ = True"

fun local_act :: "cluster_env \<Rightarrow> act \<Rightarrow> 's sys \<Rightarrow> bool" where
  "local_act ce (Accept p r m) s = (ce_home ce p < ce_n ce \<and> ce_opens ce m)"
| "local_act ce (Go p) s = (case sy_conn s p of None \<Rightarrow> False | Some c \<Rightarrow> local_pc (cn_pc c))"
| "local_act ce _ s = True"

definition subscribers :: "cluster_env \<Rightarrow> 's cluster \<Rightarrow> (inst \<times> string) list" where
  "subscribers ce s = map (\<lambda>i. (i, rf_channel (cl_fan s i))) (filter (\<lambda>i. rf_subscribed (cl_fan s i)) [0..<ce_n ce])"

datatype cl_act = Conn act | Publish string | Receive inst | Deliver inst

fun cl_do :: "cluster_env \<Rightarrow> 's presence_ops \<Rightarrow> codec \<Rightarrow> cl_act \<Rightarrow> 's cluster \<Rightarrow> 's cluster option" where
  "cl_do ce ops cd (Conn a) s =
     (let i = ce_home ce (act_peer a)
      in if local_act ce a (cl_sys s) then map_option (\<lambda>t. unview i t s) (sys_do ops cd a (view s i)) else None)"
| "cl_do ce ops cd (Publish p) s =
     (case sy_conn (cl_sys s) p of
        None \<Rightarrow> None
      | Some c \<Rightarrow>
          (case cn_pc c of
             AtPublish f fin \<Rightarrow>
               (case RedisFanout_Publish (ce_publish ce) (length (cl_pubs s)) (subscribers ce s) (cl_fan s (ce_home ce p))
                   (cn_room c) (opposite (cn_role c)) f of
                  (reached, payload) \<Rightarrow>
                    Some (s\<lparr>cl_sys := (cl_sys s)\<lparr>sy_conn := (sy_conn (cl_sys s))(p \<mapsto> c\<lparr>cn_pc := after fin\<rparr>)\<rparr>,
                       cl_fan := (\<lambda>i. if i \<in> set reached then rf_push (payload, p) (cl_fan s i) else cl_fan s i),
                       cl_pubs := cl_pubs s @ [payload]\<rparr>))
           | _ \<Rightarrow> None))"
| "cl_do ce ops cd (Receive i) s =
     (if i < ce_n ce then
        map_option (\<lambda>f. s\<lparr>cl_fan := (cl_fan s)(i := f),
            cl_taken := (cl_taken s)(i := cl_taken s i @ map fst (take 1 (the (rf_pubsub (cl_fan s i)))))\<rparr>)
          (rf_receive (\<lambda>m r. hub_lookup m r (sy_hub (view s i))) (cl_fan s i))
      else None)"
| "cl_do ce ops cd (Deliver i) s =
     (case rf_loop (cl_fan s i) of
        LoopDeliver p q f \<Rightarrow>
          (case hub_Send p q f (sy_hub (view s i)) of
             Panic e \<Rightarrow> None
           | Return h \<Rightarrow>
               Some ((unview i ((view s i)\<lparr>sy_hub := h\<rparr>) s)\<lparr>cl_fan := (cl_fan s)(i := (cl_fan s i)\<lparr>rf_loop := LoopWait\<rparr>)\<rparr>))
      | _ \<Rightarrow> None)"

inductive cl_reach :: "cluster_env \<Rightarrow> 's presence_ops \<Rightarrow> codec \<Rightarrow> 's \<Rightarrow> 's cluster \<Rightarrow> bool"
  for ce :: cluster_env and ops :: "'s presence_ops" and cd :: codec and s0 :: 's where
  cl_start: "cl_reach ce ops cd s0 (cl_start s0)"
| cl_step: "cl_reach ce ops cd s0 t" if "cl_reach ce ops cd s0 s" and "cl_do ce ops cd a s = Some t"

fun cl_run :: "cluster_env \<Rightarrow> 's presence_ops \<Rightarrow> codec \<Rightarrow> cl_act list \<Rightarrow> 's cluster \<Rightarrow> 's cluster option" where
  "cl_run ce ops cd [] s = Some s"
| "cl_run ce ops cd (a # as) s = (case cl_do ce ops cd a s of None \<Rightarrow> None | Some t \<Rightarrow> cl_run ce ops cd as t)"

lemma cl_run_reach: "cl_run ce ops cd as s = Some t \<Longrightarrow> cl_reach ce ops cd s0 s \<Longrightarrow> cl_reach ce ops cd s0 t"
  by (induction "as" arbitrary: s) (auto split: option.splits intro: cl_reach.cl_step)

section \<open>Views\<close>

lemma view_sel [simp]:
  "sy_conn (view s i) = sy_conn (cl_sys s)" "h_presence (sy_hub (view s i)) = h_presence (sy_hub (cl_sys s))"
  "h_onRoomEnded (sy_hub (view s i)) = h_onRoomEnded (sy_hub (cl_sys s))"
  "h_peers (sy_hub (view s i)) = h_peers (sy_hub (cl_sys s))" "h_sent (sy_hub (view s i)) = h_sent (sy_hub (cl_sys s))"
  "h_ended (sy_hub (view s i)) = h_ended (sy_hub (cl_sys s))" "h_rooms (sy_hub (view s i)) = cl_rooms s i"
  by (simp_all add: view_def)

lemma unview_sel [simp]:
  "sy_conn (cl_sys (unview i t s)) = sy_conn t" "h_presence (sy_hub (cl_sys (unview i t s))) = h_presence (sy_hub t)"
  "h_onRoomEnded (sy_hub (cl_sys (unview i t s))) = h_onRoomEnded (sy_hub t)"
  "h_peers (sy_hub (cl_sys (unview i t s))) = h_peers (sy_hub t)" "h_sent (sy_hub (cl_sys (unview i t s))) = h_sent (sy_hub t)"
  "h_ended (sy_hub (cl_sys (unview i t s))) = h_ended (sy_hub t)"
  "cl_rooms (unview i t s) = (cl_rooms s)(i := h_rooms (sy_hub t))" "cl_fan (unview i t s) = cl_fan s"
  "cl_pubs (unview i t s) = cl_pubs s" "cl_taken (unview i t s) = cl_taken s"
  by (simp_all add: unview_def)

lemma view_unview [simp]: "view (unview i t s) i = t"
  by (simp add: view_def unview_def)

abbreviation lookup_at :: "'s cluster \<Rightarrow> inst \<Rightarrow> room \<Rightarrow> role \<Rightarrow> string option" where
  "lookup_at s i m r \<equiv> hub_lookup m r (sy_hub (view s i))"

lemma lookup_at_eq: "lookup_at s i m r = map_of (map_get [] (cl_rooms s i) m) r"
  by (simp add: hub_lookup_def)

lemma lookup_unview: "lookup_at (unview i t s) j m r = (if j = i then hub_lookup m r (sy_hub t) else lookup_at s j m r)"
  by (simp add: hub_lookup_def)

section \<open>What a step of a connection changes\<close>

lemma members_cong: "sy_conn s = sy_conn t \<Longrightarrow> members s = members t"
  by (simp add: fun_eq_iff members_def)

lemma same_room_cong: "sy_conn s = sy_conn t \<Longrightarrow> same_room s = same_room t"
  by (simp add: fun_eq_iff same_room_def)

lemma facing_cong: "sy_conn s = sy_conn t \<Longrightarrow> facing s = facing t"
  by (simp add: fun_eq_iff facing_def)

lemma peers_inv_cong: "sy_conn s = sy_conn t \<Longrightarrow> h_peers (sy_hub s) = h_peers (sy_hub t) \<Longrightarrow> peers_inv s = peers_inv t"
  by (simp add: peers_inv_def)

lemma count_inv_cong:
  "sy_conn s = sy_conn t \<Longrightarrow> h_presence (sy_hub s) = h_presence (sy_hub t) \<Longrightarrow>
     h_onRoomEnded (sy_hub s) = h_onRoomEnded (sy_hub t) \<Longrightarrow> count_inv pr ok s = count_inv pr ok t"
  using members_cong [of s t] by (simp add: count_inv_def)

lemma stamp_inv_cong: "sy_conn s = sy_conn t \<Longrightarrow> h_sent (sy_hub s) = h_sent (sy_hub t) \<Longrightarrow> stamp_inv cd s = stamp_inv cd t"
  by (simp add: stamp_inv_def)

text \<open>
  A local step of the connection \<open>p\<close>: no other connection moves and the log only grows. Either \<open>p\<close> is
  new, or it keeps its room and role; then it becomes present only by joining, it passes a pending
  notification on, and the table gains nothing but \<open>p\<close> before it has joined.
\<close>

definition pc_moves :: "codec \<Rightarrow> conn \<Rightarrow> conn \<Rightarrow> bool" where
  "pc_moves cd c c' \<longleftrightarrow> cn_room c' = cn_room c \<and> cn_role c' = cn_role c \<and>
     (cn_pc c \<noteq> AtJoin \<longrightarrow> cn_saw c' = cn_saw c \<and> (present_pc (cn_pc c') \<longrightarrow> present_pc (cn_pc c))) \<and>
     (cn_pc c = AtNotify \<longrightarrow> cn_pc c' = AtNotify \<or> cn_pc c' = AtPublish (marshal cd ready_envelope) False) \<and>
     (\<forall>f fin. cn_pc c = AtPublish f fin \<longrightarrow> c' = c) \<and>
     (\<forall>q f fin. cn_pc c' = AtDeliver q f fin \<longrightarrow> c' = c)"

definition conn_effect :: "codec \<Rightarrow> 's sys \<Rightarrow> 's sys \<Rightarrow> string \<Rightarrow> bool" where
  "conn_effect cd s t p \<longleftrightarrow> (\<forall>q. q \<noteq> p \<longrightarrow> sy_conn t q = sy_conn s q) \<and>
     set (h_sent (sy_hub s)) \<subseteq> set (h_sent (sy_hub t)) \<and>
     (\<exists>c'. sy_conn t p = Some c' \<and>
        (sy_conn s p = None \<and> cn_pc c' = AtRegister \<and> \<not> cn_saw c' \<and> h_rooms (sy_hub t) = h_rooms (sy_hub s) \<or>
         (\<exists>c. sy_conn s p = Some c \<and> pc_moves cd c c' \<and>
            (\<forall>m r q. hub_lookup m r (sy_hub t) = Some q \<longrightarrow>
               hub_lookup m r (sy_hub s) = Some q \<or> q = p \<and> m = cn_room c \<and> r = cn_role c \<and> cn_pc c' = AtJoin))))"

lemma conn_effectI:
  assumes "sy_conn s p = Some c" and "pc_moves cd c c'" and "set (h_sent (sy_hub s)) \<subseteq> set (h_sent h)"
    and "\<And>m r q. hub_lookup m r h = Some q \<Longrightarrow>
      hub_lookup m r (sy_hub s) = Some q \<or> q = p \<and> m = cn_room c \<and> r = cn_role c \<and> cn_pc c' = AtJoin"
  shows "conn_effect cd s (s\<lparr>sy_hub := h, sy_conn := (sy_conn s)(p \<mapsto> c')\<rparr>) p"
  using assms by (simp add: conn_effect_def)

lemma hub_Send_lookup: "hub_Send p q f h = Return h' \<Longrightarrow> hub_lookup m r h' = hub_lookup m r h"
  by (drule hub_Send_frame(1)) (simp add: hub_lookup_def)

lemma hub_Send_log: "hub_Send p q f h = Return h' \<Longrightarrow> set (h_sent h) \<subseteq> set (h_sent h')"
  by (drule hub_Send_frame(5)) auto

lemma sys_go_effect:
  assumes c: "sy_conn s p = Some c" and "local_pc (cn_pc c)" and go: "sys_go ops cd p c s = Some t"
  shows "conn_effect cd s t p"
proof (cases "cn_pc c")
  case AtJoin
  obtain b h where h: "hub_presence_join ops (cn_room c) (cn_role c) (sy_hub s) = (b, h)" by fastforce
  have t: "t = move p (c\<lparr>cn_saw := b\<rparr>) (if b then AtNotify else Reading) h s"
    using go AtJoin h by (simp add: sys_go_def)
  show ?thesis
    unfolding t by (rule conn_effectI [OF c]) (use AtJoin hub_presence_join_frame(1) [OF h] in \<open>auto simp: pc_moves_def\<close>)
next
  case AtNotify
  then obtain h where h: "hub_Send p p (marshal cd ready_envelope) (sy_hub s) = Return h"
    and t: "t = move p c (AtPublish (marshal cd ready_envelope) False) h s"
    using go by (auto simp: sys_go_def split: go.splits)
  show ?thesis
    unfolding t by (rule conn_effectI [OF c]) (use AtNotify hub_Send_lookup [OF h] hub_Send_log [OF h] in \<open>auto simp: pc_moves_def\<close>)
next
  case AtCloseSend
  then obtain peer where t: "t = move p c (AtPublish (marshal cd (bye_envelope (cn_role c))) True)
      ((sy_hub s)\<lparr>h_peers := (h_peers (sy_hub s))(p \<mapsto> peer\<lparr>wp_conn_closed := True\<rparr>)\<rparr>) s"
    using go by (auto simp: sys_go_def split: go.splits option.splits)
  show ?thesis unfolding t by (rule conn_effectI [OF c]) (use AtCloseSend in \<open>auto simp: pc_moves_def\<close>)
next
  case AtRegister
  then have t: "t = move p c AtJoin (hub_register (cn_room c) (cn_role c) p (sy_hub s)) s"
    using go by (simp add: sys_go_def)
  show ?thesis unfolding t by (rule conn_effectI [OF c]) (use AtRegister in \<open>auto simp: pc_moves_def split: if_splits\<close>)
next
  case AtUnregister
  then have t: "t = move p c AtLeave (hub_unregister (cn_room c) (cn_role c) p (sy_hub s)) s"
    using go by (simp add: sys_go_def)
  show ?thesis unfolding t by (rule conn_effectI [OF c]) (use AtUnregister in \<open>auto simp: pc_moves_def split: if_splits\<close>)
next
  case AtLeave
  then have t: "t = move p c AtCloseSend (hub_presence_leave ops (cn_room c) (cn_role c) (sy_hub s)) s"
    using go by (simp add: sys_go_def)
  show ?thesis unfolding t by (rule conn_effectI [OF c]) (use AtLeave in \<open>auto simp: pc_moves_def hub_lookup_def\<close>)
qed (use assms in \<open>auto simp: sys_go_def\<close>)

lemma sys_do_effect:
  assumes "sys_do ops cd a s = Some t" and "local_act ce a s"
  shows "conn_effect cd s t (act_peer a)"
proof (cases a)
  case (Go p)
  with assms show ?thesis by (auto split: option.splits intro: sys_go_effect)
next
  case (Accept p r m)
  with assms show ?thesis by (auto simp: conn_effect_def split: if_splits)
next
  case (Message p d)
  with assms(1) obtain c where c: "sy_conn s p = Some c" "cn_pc c = Reading" by (auto split: option.splits if_splits)
  show ?thesis
  proof (cases "unmarshal cd d")
    case None
    with Message assms(1) c obtain h where h: "hub_Send p p (marshal cd error_envelope) (sy_hub s) = Return h"
      and t: "t = move p c Reading h s" by (auto split: go.splits)
    show ?thesis
      unfolding t Message act_peer.simps
      by (rule conn_effectI [OF c(1)]) (use c hub_Send_lookup [OF h] hub_Send_log [OF h] in \<open>auto simp: pc_moves_def\<close>)
  next
    case (Some env)
    with Message assms(1) c have t: "t = move p c (AtPublish (marshal cd (env\<lparr>env_from := cn_role c\<rparr>)) False) (sy_hub s) s"
      by auto
    show ?thesis unfolding t Message act_peer.simps by (rule conn_effectI [OF c(1)]) (use c in \<open>auto simp: pc_moves_def\<close>)
  qed
next
  case (ReadError p)
  with assms(1) obtain c where c: "sy_conn s p = Some c" "cn_pc c = Reading" and t: "t = move p c AtUnregister (sy_hub s) s"
    by (auto split: option.splits if_splits)
  show ?thesis unfolding t ReadError act_peer.simps by (rule conn_effectI [OF c(1)]) (use c in \<open>auto simp: pc_moves_def\<close>)
next
  case (Pump p e)
  with assms show ?thesis by (auto simp: conn_effect_def pc_moves_def split: option.splits)
qed

section \<open>Invariants of the cluster\<close>

definition keeps :: "'s sys \<Rightarrow> 's sys \<Rightarrow> bool" where
  "keeps s t \<longleftrightarrow> (\<forall>p c. sy_conn s p = Some c \<longrightarrow>
     (\<exists>c'. sy_conn t p = Some c' \<and> cn_room c' = cn_room c \<and> cn_role c' = cn_role c))"

text \<open>A payload on its way names the room and the other role of the connection that published it.\<close>

definition travels :: "codec \<Rightarrow> 's sys \<Rightarrow> string \<times> string \<Rightarrow> bool" where
  "travels cd s x = (case x of (payload, p) \<Rightarrow> \<exists>c f. sy_conn s p = Some c \<and>
     Unmarshal_fanout payload = Inr \<lparr>fm_Room = cn_room c, fm_TargetRole = opposite (cn_role c), fm_Frame = f\<rparr> \<and>
     stamped cd (cn_role c) f)"

definition arrives :: "codec \<Rightarrow> 's sys \<Rightarrow> string \<Rightarrow> string \<Rightarrow> frame \<Rightarrow> bool" where
  "arrives cd s p q f \<longleftrightarrow> (\<exists>c d. sy_conn s p = Some c \<and> sy_conn s q = Some d \<and> cn_room d = cn_room c \<and>
     cn_role d = opposite (cn_role c) \<and> stamped cd (cn_role c) f)"

definition fan_inv :: "codec \<Rightarrow> 's sys \<Rightarrow> RedisFanout \<Rightarrow> bool" where
  "fan_inv cd s f \<longleftrightarrow> rf_channel f = ''signaling:fanout'' \<and> \<not> rf_cancelled f \<and>
     (\<exists>xs. rf_pubsub f = Some xs \<and> list_all (travels cd s) xs) \<and>
     (case rf_loop f of LoopOff \<Rightarrow> False | LoopWait \<Rightarrow> True | LoopDeliver p q x \<Rightarrow> arrives cd s p q x)"

definition homes_inv :: "cluster_env \<Rightarrow> 's cluster \<Rightarrow> bool" where
  "homes_inv ce s \<longleftrightarrow>
     (\<forall>p c. sy_conn (cl_sys s) p = Some c \<longrightarrow> ce_home ce p < ce_n ce \<and> is_ascii (cn_room c) \<and>
        (\<forall>q f fin. cn_pc c \<noteq> AtDeliver q f fin)) \<and>
     (\<forall>i m r q. lookup_at s i m r = Some q \<longrightarrow> ce_home ce q = i)"

definition cl_inv :: "cluster_env \<Rightarrow> codec \<Rightarrow> ('s \<Rightarrow> room \<Rightarrow> role \<Rightarrow> nat) \<Rightarrow> ('s \<Rightarrow> bool) \<Rightarrow> 's cluster \<Rightarrow> bool" where
  "cl_inv ce cd pr ok s \<longleftrightarrow> peers_inv (cl_sys s) \<and> count_inv pr ok (cl_sys s) \<and> stamp_inv cd (cl_sys s) \<and>
     (\<forall>i. table_inv (view s i)) \<and> homes_inv ce s \<and> (\<forall>i. fan_inv cd (cl_sys s) (cl_fan s i))"

lemma cl_invD:
  assumes "cl_inv ce cd pr ok s"
  shows "peers_inv (cl_sys s)" "count_inv pr ok (cl_sys s)" "stamp_inv cd (cl_sys s)" "table_inv (view s i)"
    "homes_inv ce s" "fan_inv cd (cl_sys s) (cl_fan s i)"
  using assms by (simp_all add: cl_inv_def)

lemma keeps_refl [simp]: "keeps s s"
  by (simp add: keeps_def)

lemma keepsE:
  assumes "keeps s t" and "sy_conn s p = Some c"
  obtains c' where "sy_conn t p = Some c'" "cn_room c' = cn_room c" "cn_role c' = cn_role c"
  using assms unfolding keeps_def by blast

lemma keeps_same_room:
  assumes "keeps s t" and "same_room s p q"
  shows "same_room t p q"
proof -
  obtain c d where c: "sy_conn s p = Some c" "sy_conn s q = Some d" "cn_room c = cn_room d" "q = p \<or> cn_role d = opposite (cn_role c)"
    using assms(2) by (auto simp: same_room_def)
  obtain c' where "sy_conn t p = Some c'" "cn_room c' = cn_room c" "cn_role c' = cn_role c" by (rule keepsE [OF assms(1) c(1)])
  moreover obtain d' where "sy_conn t q = Some d'" "cn_room d' = cn_room d" "cn_role d' = cn_role d" by (rule keepsE [OF assms(1) c(2)])
  ultimately show ?thesis using c(3,4) by (simp add: same_room_def)
qed

lemma keeps_travels:
  assumes "keeps s t" and "travels cd s x"
  shows "travels cd t x"
proof -
  obtain payload p c f where x: "x = (payload, p)" "sy_conn s p = Some c"
    "Unmarshal_fanout payload = Inr \<lparr>fm_Room = cn_room c, fm_TargetRole = opposite (cn_role c), fm_Frame = f\<rparr>" "stamped cd (cn_role c) f"
    using assms(2) by (auto simp: travels_def split: prod.splits)
  obtain c' where "sy_conn t p = Some c'" "cn_room c' = cn_room c" "cn_role c' = cn_role c" by (rule keepsE [OF assms(1) x(2)])
  with x show ?thesis by (simp add: travels_def)
qed

lemma keeps_arrives:
  assumes "keeps s t" and "arrives cd s p q f"
  shows "arrives cd t p q f"
proof -
  obtain c d where c: "sy_conn s p = Some c" "sy_conn s q = Some d" "cn_room d = cn_room c" "cn_role d = opposite (cn_role c)"
    "stamped cd (cn_role c) f" using assms(2) by (auto simp: arrives_def)
  obtain c' where "sy_conn t p = Some c'" "cn_room c' = cn_room c" "cn_role c' = cn_role c" by (rule keepsE [OF assms(1) c(1)])
  moreover obtain d' where "sy_conn t q = Some d'" "cn_room d' = cn_room d" "cn_role d' = cn_role d" by (rule keepsE [OF assms(1) c(2)])
  ultimately show ?thesis using c(3-5) by (simp add: arrives_def)
qed

lemma keeps_fan:
  assumes "keeps s t" and "fan_inv cd s f"
  shows "fan_inv cd t f"
proof -
  obtain xs where xs: "rf_pubsub f = Some xs" "list_all (travels cd s) xs" using assms(2) by (auto simp: fan_inv_def)
  have "list_all (travels cd t) xs" using xs(2) keeps_travels [OF assms(1)] by (auto simp: list_all_iff)
  moreover have "case rf_loop f of LoopOff \<Rightarrow> False | LoopWait \<Rightarrow> True | LoopDeliver p q x \<Rightarrow> arrives cd t p q x"
    using assms(2) keeps_arrives [OF assms(1)] by (auto simp: fan_inv_def split: loop_pc.splits)
  ultimately show ?thesis using assms(2) xs(1) by (simp add: fan_inv_def)
qed

lemma keeps_cong: "sy_conn t = sy_conn t' \<Longrightarrow> keeps s t = keeps s t'" "sy_conn t = sy_conn t' \<Longrightarrow> keeps t s = keeps t' s"
  by (simp_all add: keeps_def)

lemma effect_other: "conn_effect cd s t p \<Longrightarrow> q \<noteq> p \<Longrightarrow> sy_conn t q = sy_conn s q"
  by (simp add: conn_effect_def)

lemma effect_pc: "conn_effect cd s t p \<Longrightarrow> sy_conn s p = Some c \<Longrightarrow> \<exists>c'. sy_conn t p = Some c' \<and> pc_moves cd c c'"
  by (auto simp: conn_effect_def)

lemma effect_log: "conn_effect cd s t p \<Longrightarrow> set (h_sent (sy_hub s)) \<subseteq> set (h_sent (sy_hub t))"
  by (simp add: conn_effect_def)

lemma effect_lookup:
  assumes "conn_effect cd s t p" and "hub_lookup m r (sy_hub t) = Some q"
  shows "hub_lookup m r (sy_hub s) = Some q \<or> q = p \<and> (\<exists>c'. sy_conn t p = Some c' \<and> cn_pc c' = AtJoin)"
  using assms(1) unfolding conn_effect_def
proof (elim conjE exE disjE)
  assume "h_rooms (sy_hub t) = h_rooms (sy_hub s)"
  with assms(2) show ?thesis by (simp add: hub_lookup_def)
next
  fix c' c
  assume "sy_conn t p = Some c'" and l: "\<forall>m r q. hub_lookup m r (sy_hub t) = Some q \<longrightarrow>
      hub_lookup m r (sy_hub s) = Some q \<or> q = p \<and> m = cn_room c \<and> r = cn_role c \<and> cn_pc c' = AtJoin"
  moreover from l assms(2) have "hub_lookup m r (sy_hub s) = Some q \<or> q = p \<and> m = cn_room c \<and> r = cn_role c \<and> cn_pc c' = AtJoin"
    by blast
  ultimately show ?thesis by blast
qed

lemma effect_keeps:
  assumes "conn_effect cd s t p"
  shows "keeps s t"
  unfolding keeps_def
proof (intro allI impI)
  fix q c
  assume q: "sy_conn s q = Some c"
  show "\<exists>c'. sy_conn t q = Some c' \<and> cn_room c' = cn_room c \<and> cn_role c' = cn_role c"
    using q effect_other [OF assms, of q] effect_pc [OF assms, of c]
    by (cases "q = p") (auto simp: pc_moves_def)
qed

lemma view_cong: "sy_conn (cl_sys s) = sy_conn (view s i)" "keeps (cl_sys s) t = keeps (view s i) t" "keeps t (cl_sys s) = keeps t (view s i)"
  by (simp_all add: keeps_def)

lemma cl_inv_start:
  assumes "ok s0" and "\<And>m r. pr s0 m r = 0"
  shows "cl_inv ce cd pr ok (cl_start s0)"
proof -
  have v: "view (cl_start s0) i = sys_start s0" for i
    by (simp add: view_def cl_start_def sys_start_def OnRoomEnded_def NewHubWith_def)
  have "cl_sys (cl_start s0) = sys_start s0" by (simp add: cl_start_def)
  with v assms show ?thesis
    by (simp add: cl_inv_def peers_inv_start table_inv_start count_inv_start stamp_inv_start homes_inv_def fan_inv_def
        cl_start_def RedisFanout_Start_def NewRedisFanout_def)
       (simp add: sys_start_def OnRoomEnded_def NewHubWith_def hub_lookup_def)
qed

text \<open>A local step on instance \<open>i\<close> seen from another instance.\<close>

lemma table_inv_other:
  assumes "table_inv (view s j)" and "table_inv t" and "keeps (view s j) t" and "j \<noteq> i"
    and "\<And>m r q. lookup_at s j m r = Some q \<Longrightarrow> sy_conn t q = sy_conn (cl_sys s) q"
  shows "table_inv (view (unview i t s) j)"
proof -
  have c: "sy_conn (view (unview i t s) j) = sy_conn t" by simp
  have look: "lookup_at (unview i t s) j m r = lookup_at s j m r" for m r using assms(4) by (simp add: lookup_unview)
  show ?thesis
    unfolding table_inv_def
  proof (intro conjI allI impI ballI)
    fix m r q
    assume "lookup_at (unview i t s) j m r = Some q"
    then have "lookup_at s j m r = Some q" by (simp only: look)
    with assms(5) table_inv_lookup [OF assms(1)]
    show "\<exists>c. sy_conn (view (unview i t s) j) q = Some c \<and> cn_room c = m \<and> cn_role c = r \<and> registered_pc (cn_pc c)"
      by (simp add: c)
  next
    fix p c' q f fin
    assume "sy_conn (view (unview i t s) j) p = Some c' \<and> cn_pc c' = AtDeliver q f fin"
    then show "same_room (view (unview i t s) j) p q"
      using table_inv_deliver [OF assms(2)] by (simp add: same_room_cong [OF c])
  next
    fix x
    assume x: "x \<in> set (h_sent (sy_hub (view (unview i t s) j)))"
    obtain p q f b where "x = (p, q, f, b)" by (cases x)
    with x table_inv_log [OF assms(2), of p q f b] show "case x of (p, q, f, b) \<Rightarrow> same_room (view (unview i t s) j) p q"
      by (simp add: same_room_cong [OF c])
  qed
qed

lemma homes_conn:
  assumes inv: "cl_inv ce cd pr ok s" and do: "sys_do ops cd a (view s i) = Some t"
    and la: "local_act ce a (cl_sys s)" and opens: "\<And>m. ce_opens ce m \<Longrightarrow> is_ascii m"
    and eff: "conn_effect cd (view s i) t (act_peer a)" and q: "sy_conn t q = Some c'"
  shows "ce_home ce q < ce_n ce \<and> is_ascii (cn_room c') \<and> (\<forall>q' f fin. cn_pc c' \<noteq> AtDeliver q' f fin)"
proof -
  have old: "ce_home ce q < ce_n ce \<and> is_ascii (cn_room c) \<and> (\<forall>q' f fin. cn_pc c \<noteq> AtDeliver q' f fin)"
    if "sy_conn (cl_sys s) q = Some c" for c
    using inv that by (simp add: cl_inv_def homes_inv_def)
  show ?thesis
  proof (cases "sy_conn (cl_sys s) q")
    case (Some c)
    show ?thesis
    proof (cases "q = act_peer a")
      case True
      with Some effect_pc [OF eff, of c] q have m: "pc_moves cd c c'" by simp
      then have "cn_room c' = cn_room c" "cn_pc c' = AtDeliver x f fin \<Longrightarrow> c' = c" for x f fin
        unfolding pc_moves_def by blast+
      with old [OF Some] show ?thesis by metis
    next
      case False
      with Some effect_other [OF eff False] q old [OF Some] show ?thesis by simp
    qed
  next
    case None
    then have q': "q = act_peer a" using effect_other [OF eff, of q] q by (cases "q = act_peer a") simp_all
    obtain r m where a: "a = Accept q r m"
      using None do q' by (cases a) simp_all
    have "sy_conn t q = Some \<lparr>cn_room = m, cn_role = r, cn_pc = AtRegister, cn_saw = False\<rparr>"
      using do unfolding a by (auto split: if_splits)
    with q have "c' = \<lparr>cn_room = m, cn_role = r, cn_pc = AtRegister, cn_saw = False\<rparr>" by simp
    moreover have "ce_home ce q < ce_n ce" "ce_opens ce m" using la unfolding a by simp_all
    ultimately show ?thesis using opens by simp
  qed
qed

lemma cl_inv_conn:
  assumes inv: "cl_inv ce cd pr ok s" and do: "sys_do ops cd a (view s i) = Some t"
    and la: "local_act ce a (cl_sys s)" and i: "i = ce_home ce (act_peer a)"
    and count: "count_inv pr ok (view s i) \<Longrightarrow> count_inv pr ok t"
    and opens: "\<And>m. ce_opens ce m \<Longrightarrow> is_ascii m"
  shows "cl_inv ce cd pr ok (unview i t s)"
proof -
  let ?p = "act_peer a"
  have la': "local_act ce a (view s i)" using la by (cases a) (simp_all split: option.splits)
  note step = sys_do_step [OF do] and eff = sys_do_effect [OF do la']
  have k: "keeps (view s i) t" by (rule effect_keeps [OF eff])
  have old: "peers_inv (view s i)" "count_inv pr ok (view s i)" "stamp_inv cd (view s i)" "table_inv (view s i)"
    using inv peers_inv_cong [of "view s i" "cl_sys s"] count_inv_cong [of "view s i" "cl_sys s"]
      stamp_inv_cong [of "view s i" "cl_sys s"] by (auto simp: cl_inv_def)
  have new: "peers_inv (cl_sys (unview i t s))" "count_inv pr ok (cl_sys (unview i t s))" "stamp_inv cd (cl_sys (unview i t s))"
    using peers_inv_step [OF step old(1)] count [OF old(2)] stamp_inv_step [OF step old(3)]
      peers_inv_cong [of "cl_sys (unview i t s)" t] count_inv_cong [of "cl_sys (unview i t s)" t]
      stamp_inv_cong [of "cl_sys (unview i t s)" t] by auto
  have home: "lookup_at s j m r = Some q \<Longrightarrow> ce_home ce q = j" for j m r q
    using inv by (simp add: cl_inv_def homes_inv_def)
  have tab: "table_inv (view (unview i t s) j)" for j
  proof (cases "j = i")
    case True
    with table_inv_step [OF step old(4)] show ?thesis by simp
  next
    case False
    have "sy_conn t q = sy_conn (cl_sys s) q" if "lookup_at s j m r = Some q" for m r q
      using home [OF that] False i effect_other [OF eff, of q] by auto
    with inv table_inv_step [OF step old(4)] False k show ?thesis
      by (intro table_inv_other) (auto simp: cl_inv_def keeps_def)
  qed
  have "homes_inv ce (unview i t s)"
    unfolding homes_inv_def
  proof (intro conjI allI impI)
    fix q c' 
    assume "sy_conn (cl_sys (unview i t s)) q = Some c'"
    then have q: "sy_conn t q = Some c'" by simp
    show "ce_home ce q < ce_n ce" "is_ascii (cn_room c')" "cn_pc c' \<noteq> AtDeliver q' f fin" for q' f fin
      using homes_conn [OF inv do la opens eff q] by blast+
  next
    fix j m r q
    assume "lookup_at (unview i t s) j m r = Some q"
    then have l: "j \<noteq> i \<and> lookup_at s j m r = Some q \<or> j = i \<and> hub_lookup m r (sy_hub t) = Some q"
      by (simp add: lookup_unview split: if_splits)
    moreover have "q = ?p \<or> lookup_at s i m r = Some q" if "hub_lookup m r (sy_hub t) = Some q"
      using effect_lookup [OF eff that] by blast
    ultimately show "ce_home ce q = j" using home i by blast
  qed
  moreover have "fan_inv cd (cl_sys (unview i t s)) (cl_fan (unview i t s) j)" for j
  proof -
    have "keeps (cl_sys s) (cl_sys (unview i t s))" using k by (simp add: keeps_def)
    with inv show ?thesis by (auto simp: cl_inv_def intro: keeps_fan)
  qed
  ultimately show ?thesis using new tab by (simp add: cl_inv_def)
qed

subsection \<open>Publishing, receiving, delivering\<close>

lemma ascii_roles: "r \<in> {RoleAgent, RolePhone} \<Longrightarrow> is_ascii (opposite r)"
  by (auto simp: RoleAgent_def RolePhone_def opposite_def is_ascii_def)

lemma fan_inv_push: "fan_inv cd s f \<Longrightarrow> travels cd s x \<Longrightarrow> fan_inv cd s (rf_push x f)"
  by (auto simp: fan_inv_def rf_push_def)

text \<open>The effect of \<open>Publish\<close> on the state.\<close>

lemma cl_publish:
  assumes "cl_do ce ops cd (Publish p) s = Some t"
  obtains c f fin reached payload where "sy_conn (cl_sys s) p = Some c" "cn_pc c = AtPublish f fin"
    "RedisFanout_Publish (ce_publish ce) (length (cl_pubs s)) (subscribers ce s) (cl_fan s (ce_home ce p))
       (cn_room c) (opposite (cn_role c)) f = (reached, payload)"
    "t = s\<lparr>cl_sys := (cl_sys s)\<lparr>sy_conn := (sy_conn (cl_sys s))(p \<mapsto> c\<lparr>cn_pc := after fin\<rparr>)\<rparr>,
       cl_fan := (\<lambda>i. if i \<in> set reached then rf_push (payload, p) (cl_fan s i) else cl_fan s i),
       cl_pubs := cl_pubs s @ [payload]\<rparr>"
  using assms by (auto split: option.splits pc.splits prod.splits)

lemma fanout_payload:
  "RedisFanout_Publish publish n subs f m r x = (reached, payload) \<Longrightarrow>
     payload = Marshal_fanout \<lparr>fm_Room = m, fm_TargetRole = r, fm_Frame = x\<rparr>"
  by (auto simp: RedisFanout_Publish_def Let_def split: if_splits)

lemma cl_inv_publish:
  assumes inv: "cl_inv ce cd pr ok s" and do: "cl_do ce ops cd (Publish p) s = Some t"
  shows "cl_inv ce cd pr ok t"
proof -
  obtain c f fin reached payload where c: "sy_conn (cl_sys s) p = Some c" "cn_pc c = AtPublish f fin"
    and pub: "RedisFanout_Publish (ce_publish ce) (length (cl_pubs s)) (subscribers ce s) (cl_fan s (ce_home ce p))
       (cn_room c) (opposite (cn_role c)) f = (reached, payload)"
    and t: "t = s\<lparr>cl_sys := (cl_sys s)\<lparr>sy_conn := (sy_conn (cl_sys s))(p \<mapsto> c\<lparr>cn_pc := after fin\<rparr>)\<rparr>,
       cl_fan := (\<lambda>i. if i \<in> set reached then rf_push (payload, p) (cl_fan s i) else cl_fan s i),
       cl_pubs := cl_pubs s @ [payload]\<rparr>"
    using do by (rule cl_publish)
  let ?c = "c\<lparr>cn_pc := after fin\<rparr>" and ?s = "(cl_sys s)\<lparr>sy_conn := (sy_conn (cl_sys s))(p \<mapsto> c\<lparr>cn_pc := after fin\<rparr>)\<rparr>"
  have sys: "cl_sys t = ?s" by (simp add: t)
  have k: "keeps (cl_sys s) ?s" using c(1) by (auto simp: keeps_def)
  have v: "view t i = (view s i)\<lparr>sy_conn := (sy_conn (view s i))(p \<mapsto> ?c)\<rparr>" for i by (simp add: view_def t)
  have frame: "stamped cd (cn_role c) f"
    using inv stamp_inv_pc [of cd "cl_sys s" p c f] c by (simp add: cl_inv_def)
  have "cn_role c \<in> {RoleAgent, RolePhone}" "is_ascii (cn_room c)"
    using inv c by (auto simp: cl_inv_def homes_inv_def peers_inv_def)
  then have "Unmarshal_fanout payload = Inr \<lparr>fm_Room = cn_room c, fm_TargetRole = opposite (cn_role c), fm_Frame = f\<rparr>"
    using pub ascii_roles [of "cn_role c"] fanout_payload [OF pub] by (simp add: fanout_roundtrip)
  with frame have trav: "travels cd ?s (payload, p)" by (simp add: travels_def)
  have "peers_inv (cl_sys t)"
    unfolding sys by (rule peers_inv_conn [OF cl_invD(1) [OF inv] c(1)]) simp
  moreover have "count_inv pr ok (cl_sys t)"
    unfolding sys
  proof (rule count_inv_same [OF cl_invD(2) [OF inv]])
    show "members ?s m r = members (cl_sys s) m r" for m r
      by (rule members_move(2) [OF c(1)]) (simp add: c(2))
    show "dom (sy_conn ?s) = dom (sy_conn (cl_sys s))" using c(1) by auto
  qed simp_all
  moreover have "stamp_inv cd (cl_sys t)"
    using stamp_inv_move [OF cl_invD(3) [OF inv], of p ?c "sy_hub (cl_sys s)"] c
    by (auto simp: sys after_def split: if_splits)
  moreover have "table_inv (view t i)" for i
    unfolding v by (rule table_inv_conn [OF cl_invD(4) [OF inv]]) (use c in \<open>auto simp: after_def split: if_splits\<close>)
  moreover have "homes_inv ce t"
    using cl_invD(5) [OF inv] c by (auto simp: homes_inv_def sys v after_def)
  moreover have "fan_inv cd (cl_sys t) (cl_fan t i)" for i
    unfolding sys using keeps_fan [OF k cl_invD(6) [OF inv, of i]] trav by (simp add: t fan_inv_push)
  ultimately show ?thesis by (simp add: cl_inv_def)
qed

lemma cl_receive:
  assumes "cl_do ce ops cd (Receive i) s = Some t"
  obtains f where "i < ce_n ce" "rf_receive (lookup_at s i) (cl_fan s i) = Some f"
    "t = s\<lparr>cl_fan := (cl_fan s)(i := f),
       cl_taken := (cl_taken s)(i := cl_taken s i @ map fst (take 1 (the (rf_pubsub (cl_fan s i)))))\<rparr>"
  using assms by (auto split: if_splits)

lemma cl_inv_receive:
  assumes inv: "cl_inv ce cd pr ok s" and do: "cl_do ce ops cd (Receive i) s = Some t"
  shows "cl_inv ce cd pr ok t"
proof -
  obtain f where f: "rf_receive (lookup_at s i) (cl_fan s i) = Some f"
    and t: "t = s\<lparr>cl_fan := (cl_fan s)(i := f),
       cl_taken := (cl_taken s)(i := cl_taken s i @ map fst (take 1 (the (rf_pubsub (cl_fan s i)))))\<rparr>"
    using do by (rule cl_receive)
  have sys: "cl_sys t = cl_sys s" and v: "view t j = view s j" for j by (simp_all add: t view_def)
  have old: "fan_inv cd (cl_sys s) (cl_fan s i)" using inv by (simp add: cl_inv_def)
  then have "\<not> rf_cancelled (cl_fan s i)" by (simp add: fan_inv_def)
  with f obtain payload p xs where x: "rf_pubsub (cl_fan s i) = Some ((payload, p) # xs)" "rf_pubsub f = Some xs"
    "rf_cancelled f = rf_cancelled (cl_fan s i)" "rf_channel f = rf_channel (cl_fan s i)"
    "rf_loop f = (case Unmarshal_fanout payload of Inl e \<Rightarrow> LoopWait | Inr m \<Rightarrow>
       (case lookup_at s i (fm_Room m) (fm_TargetRole m) of None \<Rightarrow> LoopWait | Some peer \<Rightarrow> LoopDeliver p peer (fm_Frame m)))"
    by (rule rf_receive_Some)
  from old x(1) have "travels cd (cl_sys s) (payload, p)" by (simp add: fan_inv_def)
  then obtain c g where c: "sy_conn (cl_sys s) p = Some c" "stamped cd (cn_role c) g"
    "Unmarshal_fanout payload = Inr \<lparr>fm_Room = cn_room c, fm_TargetRole = opposite (cn_role c), fm_Frame = g\<rparr>"
    by (auto simp: travels_def)
  have "arrives cd (cl_sys s) p q g" if l: "lookup_at s i (cn_room c) (opposite (cn_role c)) = Some q" for q
  proof -
    have "table_inv (view s i)" using inv by (simp add: cl_inv_def)
    from table_inv_lookup [OF this l] c show ?thesis by (auto simp: arrives_def)
  qed
  with x old c have "fan_inv cd (cl_sys s) f" by (auto simp: fan_inv_def split: option.split)
  with inv show ?thesis by (simp add: cl_inv_def sys v homes_inv_def) (simp add: t)
qed

lemma cl_deliver:
  assumes "cl_do ce ops cd (Deliver i) s = Some t"
  obtains p q f h where "rf_loop (cl_fan s i) = LoopDeliver p q f" "hub_Send p q f (sy_hub (view s i)) = Return h"
    "t = (unview i ((view s i)\<lparr>sy_hub := h\<rparr>) s)\<lparr>cl_fan := (cl_fan s)(i := (cl_fan s i)\<lparr>rf_loop := LoopWait\<rparr>)\<rparr>"
  using assms by (auto split: loop_pc.splits go.splits)

lemma table_inv_grow:
  assumes "table_inv s" and "sy_conn t = sy_conn s" and "h_rooms (sy_hub t) = h_rooms (sy_hub s)"
    and "h_sent (sy_hub t) = h_sent (sy_hub s) @ [(p, q, f, b)]" and "same_room s p q"
  shows "table_inv t"
  using assms same_room_cong [OF assms(2)] unfolding table_inv_def hub_lookup_def by simp metis

lemma stamp_inv_grow:
  assumes "stamp_inv cd s" and "sy_conn t = sy_conn s"
    and "h_sent (sy_hub t) = h_sent (sy_hub s) @ [(p, q, f, b)]" and "sy_conn s p = Some c" and "stamped cd (cn_role c) f"
  shows "stamp_inv cd t"
  using assms unfolding stamp_inv_def by simp

lemma cl_inv_deliver:
  assumes inv: "cl_inv ce cd pr ok s" and do: "cl_do ce ops cd (Deliver i) s = Some t"
  shows "cl_inv ce cd pr ok t"
proof -
  obtain p q f h where l: "rf_loop (cl_fan s i) = LoopDeliver p q f" and h: "hub_Send p q f (sy_hub (view s i)) = Return h"
    and t: "t = (unview i ((view s i)\<lparr>sy_hub := h\<rparr>) s)\<lparr>cl_fan := (cl_fan s)(i := (cl_fan s i)\<lparr>rf_loop := LoopWait\<rparr>)\<rparr>"
    using do by (rule cl_deliver)
  obtain b where sent: "h_sent h = h_sent (sy_hub (cl_sys s)) @ [(p, q, f, b)]"
    using hub_Send_frame(5) [OF h] by auto
  have same: "sy_conn (cl_sys t) = sy_conn (cl_sys s)" "h_sent (sy_hub (cl_sys t)) = h_sent (sy_hub (cl_sys s)) @ [(p, q, f, b)]"
    "h_presence (sy_hub (cl_sys t)) = h_presence (sy_hub (cl_sys s))"
    "h_onRoomEnded (sy_hub (cl_sys t)) = h_onRoomEnded (sy_hub (cl_sys s))" "cl_rooms t = cl_rooms s"
    using hub_Send_frame(1-4) [OF h] sent by (simp_all add: t fun_eq_iff)
  have old: "fan_inv cd (cl_sys s) (cl_fan s i)" using inv by (simp add: cl_inv_def)
  with l obtain c d where c: "sy_conn (cl_sys s) p = Some c" "sy_conn (cl_sys s) q = Some d" "cn_room d = cn_room c"
    "cn_role d = opposite (cn_role c)" "stamped cd (cn_role c) f" by (auto simp: fan_inv_def arrives_def)
  have ok: "\<forall>q peer. h_peers (sy_hub (view s i)) q = Some peer \<longrightarrow> wsPeer_ok peer"
    using inv by (simp add: cl_inv_def peers_inv_def)
  have hp: "h_peers (sy_hub (cl_sys t)) = h_peers h" by (simp add: t)
  have dom: "h_peers h x \<noteq> None \<longleftrightarrow> h_peers (sy_hub (cl_sys s)) x \<noteq> None" for x
    using hub_Send_peers(2) [OF h ok] by (metis domIff view_sel(4))
  have "peers_inv (cl_sys s)" using inv by (simp add: cl_inv_def)
  then have "peers_inv (cl_sys t)"
    using hub_Send_peers(1) [OF h ok] unfolding peers_inv_def same(1) hp dom by blast
  moreover have "count_inv pr ok (cl_sys t)"
    using inv same count_inv_cong [of "cl_sys t" "cl_sys s"] by (simp add: cl_inv_def)
  moreover have "stamp_inv cd (cl_sys t)"
    by (rule stamp_inv_grow [OF cl_invD(3) [OF inv] same(1,2) c(1,5)])
  moreover have "table_inv (view t j)" for j
  proof (rule table_inv_grow)
    show "table_inv (view s j)" using inv by (simp add: cl_inv_def)
    show "same_room (view s j) p q" using c by (simp add: same_room_def)
  qed (use same in simp_all)
  moreover have "homes_inv ce t"
    using cl_invD(5) [OF inv] same(1,5) by (simp add: homes_inv_def lookup_at_eq)
  moreover have "fan_inv cd (cl_sys t) (cl_fan t j)" for j
  proof -
    have "keeps (cl_sys s) (cl_sys t)" using same(1) by (simp add: keeps_def)
    then have k: "fan_inv cd (cl_sys t) (cl_fan s j)" for j
      using keeps_fan cl_invD(6) [OF inv] by blast
    from k [of i] have "fan_inv cd (cl_sys t) ((cl_fan s i)\<lparr>rf_loop := LoopWait\<rparr>)" by (simp add: fan_inv_def)
    with k [of j] show ?thesis by (cases "j = i") (simp_all add: t)
  qed
  ultimately show ?thesis by (simp add: cl_inv_def)
qed

context presence
begin

lemma cl_inv_step:
  assumes inv: "cl_inv ce cd present wf s" and do: "cl_do ce ops cd a s = Some t"
    and opens: "\<And>m. ce_opens ce m \<Longrightarrow> is_ascii m"
  shows "cl_inv ce cd present wf t"
proof (cases a)
  case (Conn b)
  let ?i = "ce_home ce (act_peer b)"
  obtain t' where t': "sys_do ops cd b (view s ?i) = Some t'" "t = unview ?i t' s" "local_act ce b (cl_sys s)"
    using do Conn by (auto simp: Let_def split: if_splits)
  have "counted t'" if "counted (view s ?i)" using counted_step [OF sys_do_step [OF t'(1)] that] .
  then show ?thesis
    unfolding t'(2) by (rule cl_inv_conn [OF inv t'(1,3) refl _ opens])
qed (use cl_inv_publish [OF inv] cl_inv_receive [OF inv] cl_inv_deliver [OF inv] do in \<open>blast+\<close>)

lemma cl_inv_reach:
  assumes "cl_reach ce ops cd s0 s" and "wf s0" and "\<And>m r. present s0 m r = 0" and "\<And>m. ce_opens ce m \<Longrightarrow> is_ascii m"
  shows "cl_inv ce cd present wf s"
  using assms(1)
proof (induction rule: cl_reach.induct)
  case cl_start
  show ?case using assms(2,3) by (rule cl_inv_start)
next
  case (cl_step s a t)
  then show ?case using assms(4) by (blast intro: cl_inv_step)
qed

end

section \<open>Order of delivery\<close>

definition queue :: "'s cluster \<Rightarrow> inst \<Rightarrow> (string \<times> string) list" where
  "queue s i = the (rf_pubsub (cl_fan s i))"

text \<open>What an instance has taken and what waits for it, against what was published.\<close>

definition order_inv :: "cluster_env \<Rightarrow> 's cluster \<Rightarrow> bool" where
  "order_inv ce s \<longleftrightarrow> (\<forall>i. subseq (cl_taken s i @ map fst (queue s i)) (cl_pubs s))"

definition exact_inv :: "cluster_env \<Rightarrow> 's cluster \<Rightarrow> bool" where
  "exact_inv ce s \<longleftrightarrow> (\<forall>i < ce_n ce. cl_taken s i @ map fst (queue s i) = cl_pubs s)"

definition logged :: "'s cluster \<Rightarrow> inst \<Rightarrow> string list" where
  "logged s i = cl_taken s i @ map fst (queue s i)"

lemma fan_queue: "fan_inv cd s f \<Longrightarrow> rf_pubsub f = Some (the (rf_pubsub f))"
  by (auto simp: fan_inv_def)

lemma logged_step:
  assumes inv: "cl_inv ce cd pr ok s" and do: "cl_do ce ops cd a s = Some t"
  shows "(\<forall>p. a \<noteq> Publish p) \<longrightarrow> cl_pubs t = cl_pubs s \<and> logged t i = logged s i"
    and "a = Publish p \<longrightarrow> (\<exists>payload reached. cl_pubs t = cl_pubs s @ [payload] \<and>
      reached = set (fst (ce_publish ce (length (cl_pubs s)) ''signaling:fanout'' payload (subscribers ce s))) \<and>
      logged t i = logged s i @ (if i \<in> reached then [payload] else []))"
proof -
  have "cl_pubs t = cl_pubs s \<and> logged t i = logged s i" if "\<forall>p. a \<noteq> Publish p"
  proof (cases a)
    case (Conn b)
    with do show ?thesis by (auto simp: Let_def logged_def queue_def split: if_splits)
  next
    case (Receive j)
    obtain f where f: "rf_receive (lookup_at s j) (cl_fan s j) = Some f"
      and t: "t = s\<lparr>cl_fan := (cl_fan s)(j := f),
         cl_taken := (cl_taken s)(j := cl_taken s j @ map fst (take 1 (the (rf_pubsub (cl_fan s j)))))\<rparr>"
      using do unfolding Receive by (rule cl_receive)
    have "\<not> rf_cancelled (cl_fan s j)" using cl_invD(6) [OF inv, of j] by (simp add: fan_inv_def)
    with f obtain x y xs where "rf_pubsub (cl_fan s j) = Some ((x, y) # xs)" "rf_pubsub f = Some xs"
      by (rule rf_receive_Some)
    then show ?thesis by (simp add: t logged_def queue_def)
  next
    case (Deliver j)
    with do show ?thesis
      by (auto simp: logged_def queue_def split: loop_pc.splits go.splits)
  qed (use that in simp)
  then show "(\<forall>p. a \<noteq> Publish p) \<longrightarrow> cl_pubs t = cl_pubs s \<and> logged t i = logged s i" by blast
next
  show "a = Publish p \<longrightarrow> (\<exists>payload reached. cl_pubs t = cl_pubs s @ [payload] \<and>
      reached = set (fst (ce_publish ce (length (cl_pubs s)) ''signaling:fanout'' payload (subscribers ce s))) \<and>
      logged t i = logged s i @ (if i \<in> reached then [payload] else []))"
  proof
    assume a: "a = Publish p"
    obtain c f fin reached payload where
      pub: "RedisFanout_Publish (ce_publish ce) (length (cl_pubs s)) (subscribers ce s) (cl_fan s (ce_home ce p))
         (cn_room c) (opposite (cn_role c)) f = (reached, payload)"
      and t: "t = s\<lparr>cl_sys := (cl_sys s)\<lparr>sy_conn := (sy_conn (cl_sys s))(p \<mapsto> c\<lparr>cn_pc := after fin\<rparr>)\<rparr>,
         cl_fan := (\<lambda>i. if i \<in> set reached then rf_push (payload, p) (cl_fan s i) else cl_fan s i),
         cl_pubs := cl_pubs s @ [payload]\<rparr>"
      using do unfolding a by (rule cl_publish)
    have "reached = fst (ce_publish ce (length (cl_pubs s)) ''signaling:fanout'' payload (subscribers ce s))"
      using pub cl_invD(6) [OF inv, of "ce_home ce p"] by (auto simp: RedisFanout_Publish_def Let_def fan_inv_def)
    moreover have "logged t i = logged s i @ (if i \<in> set reached then [payload] else [])"
      using fan_queue [OF cl_invD(6) [OF inv, of i]]
      by (cases "rf_pubsub (cl_fan s i)") (auto simp: t logged_def queue_def rf_push_def)
    ultimately show "\<exists>payload reached. cl_pubs t = cl_pubs s @ [payload] \<and>
      reached = set (fst (ce_publish ce (length (cl_pubs s)) ''signaling:fanout'' payload (subscribers ce s))) \<and>
      logged t i = logged s i @ (if i \<in> reached then [payload] else [])"
      by (auto simp: t)
  qed
qed

lemma order_inv_step:
  assumes inv: "cl_inv ce cd pr ok s" and do: "cl_do ce ops cd a s = Some t" and "order_inv ce s"
  shows "order_inv ce t"
  unfolding order_inv_def
proof
  fix i
  have old: "subseq (logged s i) (cl_pubs s)" using assms(3) by (simp add: order_inv_def logged_def)
  have "subseq (logged t i) (cl_pubs t)"
  proof (cases "\<exists>p. a = Publish p")
    case True
    then obtain p payload reached where "cl_pubs t = cl_pubs s @ [payload]"
      "logged t i = logged s i @ (if i \<in> reached then [payload] else [])"
      using logged_step(2) [OF inv do, where i = i] by blast
    with old show ?thesis by (auto simp: list_emb_append_mono intro: list_emb_append2)
  next
    case False
    with logged_step(1) [OF inv do, of i] old show ?thesis by simp
  qed
  then show "subseq (cl_taken t i @ map fst (queue t i)) (cl_pubs t)" by (simp add: logged_def)
qed

lemma all_subscribed:
  assumes inv: "cl_inv ce cd pr ok s" and "i < ce_n ce"
  shows "(i, ''signaling:fanout'') \<in> set (subscribers ce s)"
proof -
  have "rf_subscribed (cl_fan s i)" "rf_channel (cl_fan s i) = ''signaling:fanout''"
    using cl_invD(6) [OF inv, of i] by (auto simp: fan_inv_def rf_subscribed_def)
  with assms(2) show ?thesis by (force simp: subscribers_def)
qed

lemma exact_inv_step:
  assumes inv: "cl_inv ce cd pr ok s" and do: "cl_do ce ops cd a s = Some t" and "exact_inv ce s"
    and "reliable_pubsub (ce_publish ce)"
  shows "exact_inv ce t"
  unfolding exact_inv_def
proof (intro allI impI)
  fix i
  assume i: "i < ce_n ce"
  have old: "logged s i = cl_pubs s" using assms(3) i by (simp add: exact_inv_def logged_def)
  have "logged t i = cl_pubs t"
  proof (cases "\<exists>p. a = Publish p")
    case True
    then obtain p payload where p: "cl_pubs t = cl_pubs s @ [payload]"
      "logged t i = logged s i @ (if i \<in> set (fst (ce_publish ce (length (cl_pubs s)) ''signaling:fanout'' payload (subscribers ce s)))
         then [payload] else [])"
      using logged_step(2) [OF inv do, where i = i] by blast
    have "i \<in> set (fst (ce_publish ce (length (cl_pubs s)) ''signaling:fanout'' payload (subscribers ce s)))"
      using all_subscribed [OF inv i] by (rule reliable_pubsub.subscribed_reached [OF assms(4)])
    with p old show ?thesis by simp
  next
    case False
    with logged_step(1) [OF inv do, of i] old show ?thesis by simp
  qed
  then show "cl_taken t i @ map fst (queue t i) = cl_pubs t" by (simp add: logged_def)
qed

section \<open>No peer-ready is lost between instances\<close>

definition notifying :: "codec \<Rightarrow> pc \<Rightarrow> bool" where
  "notifying cd x \<longleftrightarrow> x = AtNotify \<or> x = AtPublish (marshal cd ready_envelope) False"

text \<open>A \<open>peer-ready\<close> for the occupant \<open>q\<close> of a role is in the subscription of its instance, or about to be sent.\<close>

definition inflight :: "codec \<Rightarrow> RedisFanout \<Rightarrow> string \<Rightarrow> room \<Rightarrow> role \<Rightarrow> bool" where
  "inflight cd f q m r \<longleftrightarrow>
     (\<exists>x \<in> set (the (rf_pubsub f)). Unmarshal_fanout (fst x) =
        Inr \<lparr>fm_Room = m, fm_TargetRole = r, fm_Frame = marshal cd ready_envelope\<rparr>) \<or>
     (\<exists>p. rf_loop f = LoopDeliver p q (marshal cd ready_envelope))"

definition cl_ready :: "cluster_env \<Rightarrow> codec \<Rightarrow> 's cluster \<Rightarrow> bool" where
  "cl_ready ce cd s \<longleftrightarrow>
     (\<forall>p c. sy_conn (cl_sys s) p = Some c \<and> cn_saw c \<longrightarrow> cn_pc c = AtNotify \<or> readied cd (sy_hub (cl_sys s)) p) \<and>
     (\<forall>p c q d. facing (cl_sys s) p c q d \<and> cn_role c \<in> {RoleAgent, RolePhone} \<longrightarrow> cn_saw c \<or> cn_saw d) \<and>
     (\<forall>p c q d. facing (cl_sys s) p c q d \<and> cn_saw c \<and> \<not> cn_saw d \<and>
        lookup_at s (ce_home ce q) (cn_room d) (cn_role d) = Some q \<longrightarrow>
        notifying cd (cn_pc c) \<or> inflight cd (cl_fan s (ce_home ce q)) q (cn_room d) (cn_role d) \<or>
        readied cd (sy_hub (cl_sys s)) q)"

lemma cl_readyD:
  assumes "cl_ready ce cd s"
  shows "sy_conn (cl_sys s) p = Some c \<Longrightarrow> cn_saw c \<Longrightarrow> cn_pc c = AtNotify \<or> readied cd (sy_hub (cl_sys s)) p"
    and "facing (cl_sys s) p c q d \<Longrightarrow> cn_role c \<in> {RoleAgent, RolePhone} \<Longrightarrow> cn_saw c \<or> cn_saw d"
    and "facing (cl_sys s) p c q d \<Longrightarrow> cn_saw c \<Longrightarrow> \<not> cn_saw d \<Longrightarrow>
      lookup_at s (ce_home ce q) (cn_room d) (cn_role d) = Some q \<Longrightarrow>
      notifying cd (cn_pc c) \<or> inflight cd (cl_fan s (ce_home ce q)) q (cn_room d) (cn_role d) \<or>
      readied cd (sy_hub (cl_sys s)) q"
  using assms unfolding cl_ready_def by blast+

lemma cl_ready_start: "cl_ready ce cd (cl_start s0)"
  by (simp add: cl_ready_def cl_start_def sys_start_def facing_def)

text \<open>
  A step under which facing members faced each other before, keep what they saw, their place in the
  table and their obligations.
\<close>

lemma cl_ready_simulate:
  assumes old: "cl_ready ce cd s"
    and saw: "\<And>p c. sy_conn (cl_sys t) p = Some c \<Longrightarrow> cn_saw c \<Longrightarrow> cn_pc c \<noteq> AtNotify \<Longrightarrow>
      readied cd (sy_hub (cl_sys t)) p \<or> (\<exists>c0. sy_conn (cl_sys s) p = Some c0 \<and> cn_saw c0 \<and> cn_pc c0 \<noteq> AtNotify)"
    and log: "\<And>q. readied cd (sy_hub (cl_sys s)) q \<Longrightarrow> readied cd (sy_hub (cl_sys t)) q"
    and face: "\<And>p c q d. facing (cl_sys t) p c q d \<Longrightarrow> \<exists>c0 d0. facing (cl_sys s) p c0 q d0 \<and>
      cn_saw c0 = cn_saw c \<and> cn_saw d0 = cn_saw d \<and> cn_role c0 = cn_role c \<and> cn_room d0 = cn_room d \<and> cn_role d0 = cn_role d \<and>
      (lookup_at t (ce_home ce q) (cn_room d) (cn_role d) = Some q \<longrightarrow> lookup_at s (ce_home ce q) (cn_room d) (cn_role d) = Some q) \<and>
      (lookup_at s (ce_home ce q) (cn_room d) (cn_role d) = Some q \<and> notifying cd (cn_pc c0) \<longrightarrow> notifying cd (cn_pc c) \<or>
         inflight cd (cl_fan t (ce_home ce q)) q (cn_room d) (cn_role d))"
    and fly: "\<And>q m r. lookup_at s (ce_home ce q) m r = Some q \<Longrightarrow> inflight cd (cl_fan s (ce_home ce q)) q m r \<Longrightarrow>
      inflight cd (cl_fan t (ce_home ce q)) q m r \<or> readied cd (sy_hub (cl_sys t)) q"
  shows "cl_ready ce cd t"
  unfolding cl_ready_def
proof (intro conjI allI impI)
  fix p c
  assume "sy_conn (cl_sys t) p = Some c \<and> cn_saw c"
  then show "cn_pc c = AtNotify \<or> readied cd (sy_hub (cl_sys t)) p"
    using saw [of p c] cl_readyD(1) [OF old] log by blast
next
  fix p c q d
  assume f: "facing (cl_sys t) p c q d \<and> cn_role c \<in> {RoleAgent, RolePhone}"
  then obtain c0 d0 where "facing (cl_sys s) p c0 q d0" "cn_saw c0 = cn_saw c" "cn_saw d0 = cn_saw d" "cn_role c0 = cn_role c"
    using face by blast
  with f cl_readyD(2) [OF old, of p c0 q d0] show "cn_saw c \<or> cn_saw d" by simp
next
  fix p c q d
  assume f: "facing (cl_sys t) p c q d \<and> cn_saw c \<and> \<not> cn_saw d \<and>
    lookup_at t (ce_home ce q) (cn_room d) (cn_role d) = Some q"
  then have "facing (cl_sys t) p c q d" by blast
  from face [OF this] f obtain c0 d0 where o: "facing (cl_sys s) p c0 q d0" "cn_saw c0" "\<not> cn_saw d0"
    "lookup_at s (ce_home ce q) (cn_room d) (cn_role d) = Some q" "cn_room d0 = cn_room d" "cn_role d0 = cn_role d"
    "notifying cd (cn_pc c0) \<longrightarrow> notifying cd (cn_pc c) \<or> inflight cd (cl_fan t (ce_home ce q)) q (cn_room d) (cn_role d)"
    by blast
  with cl_readyD(3) [OF old o(1-3)] log [of q] fly [OF o(4)]
  show "notifying cd (cn_pc c) \<or> inflight cd (cl_fan t (ce_home ce q)) q (cn_room d) (cn_role d) \<or>
      readied cd (sy_hub (cl_sys t)) q"
    by auto
qed

text \<open>After \<open>AtNotify\<close> the connection has been sent its own \<open>peer-ready\<close>.\<close>

lemma notify_readied:
  assumes "sys_do ops cd a s = Some t" and "act_peer a = p" and "sy_conn s p = Some c" and "cn_pc c = AtNotify"
    and "sy_conn t p = Some c'"
  shows "cn_pc c' = AtNotify \<or> readied cd (sy_hub t) p"
proof (cases a)
  case (Go q)
  with assms obtain h where h: "hub_Send p p (marshal cd ready_envelope) (sy_hub s) = Return h" and t: "sy_hub t = h"
    by (auto simp: sys_go_def split: go.splits)
  from ready_send(3) [OF h] show ?thesis by (simp add: t)
qed (use assms in \<open>auto split: option.splits if_splits\<close>)

lemma pc_movesD:
  assumes "pc_moves cd c c'" and "cn_pc c \<noteq> AtJoin"
  shows "cn_saw c = cn_saw c'" "cn_role c = cn_role c'" "cn_room c = cn_room c'"
    "present_pc (cn_pc c') \<Longrightarrow> present_pc (cn_pc c)" "notifying cd (cn_pc c) \<Longrightarrow> notifying cd (cn_pc c')"
  using assms by (simp_all add: pc_moves_def notifying_def) metis

lemma cl_ready_quiet:
  assumes inv: "cl_ready ce cd s" and eff: "conn_effect cd (view s i) t p" and i: "i = ce_home ce p"
    and pc: "\<And>c. sy_conn (cl_sys s) p = Some c \<Longrightarrow> cn_pc c \<noteq> AtJoin"
    and notify: "\<And>c c'. sy_conn (cl_sys s) p = Some c \<Longrightarrow> cn_pc c = AtNotify \<Longrightarrow> sy_conn t p = Some c' \<Longrightarrow>
      cn_pc c' = AtNotify \<or> readied cd (sy_hub t) p"
  shows "cl_ready ce cd (unview i t s)"
proof (rule cl_ready_simulate [OF inv])
  have mono: "readied cd (sy_hub (cl_sys s)) q \<Longrightarrow> readied cd (sy_hub t) q" for q
    using readied_mono effect_log [OF eff] by (metis view_sel(5))
  then show "readied cd (sy_hub (cl_sys s)) q \<Longrightarrow> readied cd (sy_hub (cl_sys (unview i t s))) q" for q
    by (simp add: readied_def)
  have before: "\<exists>c0. sy_conn (cl_sys s) q = Some c0 \<and> cn_saw c0 = cn_saw c \<and> cn_role c0 = cn_role c \<and> cn_room c0 = cn_room c \<and>
      (present_pc (cn_pc c) \<longrightarrow> present_pc (cn_pc c0)) \<and> (notifying cd (cn_pc c0) \<longrightarrow> notifying cd (cn_pc c)) \<and> (q \<noteq> p \<longrightarrow> c = c0)"
    if q: "sy_conn t q = Some c" "cn_saw c \<or> present_pc (cn_pc c)" for q c
  proof (cases "q = p")
    case True
    with eff q have "sy_conn (cl_sys s) p \<noteq> None" by (auto simp: conn_effect_def)
    then obtain c0 where c0: "sy_conn (cl_sys s) p = Some c0" by blast
    with effect_pc [OF eff, of c0] True q have m: "pc_moves cd c0 c" by simp
    note pc_movesD [OF m pc [OF c0]]
    with c0 True show ?thesis by blast
  next
    case False
    with effect_other [OF eff False] q show ?thesis by simp
  qed
  show "readied cd (sy_hub (cl_sys (unview i t s))) q \<or> (\<exists>c0. sy_conn (cl_sys s) q = Some c0 \<and> cn_saw c0 \<and> cn_pc c0 \<noteq> AtNotify)"
    if "sy_conn (cl_sys (unview i t s)) q = Some c" "cn_saw c" "cn_pc c \<noteq> AtNotify" for q c
  proof -
    note th = that
    have q: "sy_conn t q = Some c" using th(1) by simp
    obtain c0 where c0: "sy_conn (cl_sys s) q = Some c0" "cn_saw c0" "q \<noteq> p \<longrightarrow> c = c0"
      using before [OF q] th(2) by blast
    show ?thesis
    proof (cases "q = p")
      case True
      have "readied cd (sy_hub t) p" if "cn_pc c0 = AtNotify"
        using notify [of c0 c] c0(1) True q that \<open>cn_pc c \<noteq> AtNotify\<close> by blast
      then show ?thesis using c0(1,2) True by (cases "cn_pc c0 = AtNotify") (simp_all add: readied_def)
    next
      case False
      with c0 th show ?thesis by blast
    qed
  qed
  show "\<exists>c0 d0. facing (cl_sys s) x c0 y d0 \<and> cn_saw c0 = cn_saw c \<and> cn_saw d0 = cn_saw d \<and> cn_role c0 = cn_role c \<and>
      cn_room d0 = cn_room d \<and> cn_role d0 = cn_role d \<and>
      (lookup_at (unview i t s) (ce_home ce y) (cn_room d) (cn_role d) = Some y \<longrightarrow> lookup_at s (ce_home ce y) (cn_room d) (cn_role d) = Some y) \<and>
      (lookup_at s (ce_home ce y) (cn_room d) (cn_role d) = Some y \<and> notifying cd (cn_pc c0) \<longrightarrow> notifying cd (cn_pc c) \<or>
         inflight cd (cl_fan (unview i t s) (ce_home ce y)) y (cn_room d) (cn_role d))"
    if "facing (cl_sys (unview i t s)) x c y d" for x c y d
  proof -
    have f: "sy_conn t x = Some c" "sy_conn t y = Some d" "cn_room d = cn_room c" "cn_role d = opposite (cn_role c)"
      "present_pc (cn_pc c)" "present_pc (cn_pc d)" using that by (simp_all add: facing_def)
    obtain c0 where c0: "sy_conn (cl_sys s) x = Some c0" and c1: "cn_saw c0 = cn_saw c" "cn_role c0 = cn_role c"
      "cn_room c0 = cn_room c" "present_pc (cn_pc c0)" "notifying cd (cn_pc c0) \<longrightarrow> notifying cd (cn_pc c)"
      using before [OF f(1)] f(5) by blast
    obtain d0 where d0: "sy_conn (cl_sys s) y = Some d0" and d1: "cn_saw d0 = cn_saw d" "cn_role d0 = cn_role d"
      "cn_room d0 = cn_room d" "present_pc (cn_pc d0)"
      using before [OF f(2)] f(6) by blast
    have "facing (cl_sys s) x c0 y d0" using c0 d0 c1 d1 f by (simp add: facing_def)
    moreover have "lookup_at s (ce_home ce y) (cn_room d) (cn_role d) = Some y"
      if "lookup_at (unview i t s) (ce_home ce y) (cn_room d) (cn_role d) = Some y"
    proof (cases "ce_home ce y = i")
      case True
      with that have "hub_lookup (cn_room d) (cn_role d) (sy_hub t) = Some y" by (simp add: lookup_unview)
      from effect_lookup [OF eff this] f(2,6) True show ?thesis by auto
    next
      case False
      with that show ?thesis by (simp add: lookup_unview)
    qed
    ultimately show ?thesis using c1 d1 by blast
  qed
qed simp

lemma cl_ready_join:
  assumes inv: "cl_ready ce cd s" and c: "sy_conn (cl_sys s) p = Some c" "cn_pc c = AtJoin"
    and h: "h_rooms h = cl_rooms s i" "h_sent h = h_sent (sy_hub (cl_sys s))"
    and b: "b \<longleftrightarrow> members (cl_sys s) (cn_room c) (opposite (cn_role c)) \<noteq> {}"
    and roles: "\<And>p c. sy_conn (cl_sys s) p = Some c \<Longrightarrow> cn_role c \<in> {RoleAgent, RolePhone}"
  shows "cl_ready ce cd (unview i (move p (c\<lparr>cn_saw := b\<rparr>) (if b then AtNotify else Reading) h (view s i)) s)"
    (is "cl_ready ce cd ?t")
proof -
  let ?c = "c\<lparr>cn_saw := b, cn_pc := if b then AtNotify else Reading\<rparr>"
  have conn: "sy_conn (cl_sys ?t) = (sy_conn (cl_sys s))(p \<mapsto> ?c)" by simp
  have look: "lookup_at ?t j m r = lookup_at s j m r" for j m r
    by (simp add: lookup_unview) (simp add: hub_lookup_def h(1))
  have read: "readied cd (sy_hub (cl_sys ?t)) q = readied cd (sy_hub (cl_sys s)) q" for q by (simp add: readied_def h(2))
  have fan: "cl_fan ?t = cl_fan s" by simp
  have fac: "facing (cl_sys s) x cx y cy \<or> x = p \<and> cx = ?c \<and> b \<or> y = p \<and> cy = ?c \<and> b"
    if f: "facing (cl_sys ?t) x cx y cy" for x cx y cy
  proof -
    have f': "((sy_conn (cl_sys s))(p \<mapsto> ?c)) x = Some cx" "((sy_conn (cl_sys s))(p \<mapsto> ?c)) y = Some cy"
      "cn_room cy = cn_room cx" "cn_role cy = opposite (cn_role cx)" "present_pc (cn_pc cx)" "present_pc (cn_pc cy)"
      using f unfolding facing_def conn by simp_all
    have "y \<in> members (cl_sys s) (cn_room c) (opposite (cn_role c))" if "x = p"
      using f' that by (auto simp: members_def split: if_splits)
    moreover have "x \<in> members (cl_sys s) (cn_room c) (opposite (cn_role c))" if "y = p" "x \<noteq> p"
      using f' that roles [of x cx] by (auto simp: members_def)
    ultimately show ?thesis using f' b by (auto simp: facing_def split: if_splits)
  qed
  show ?thesis
    unfolding cl_ready_def
  proof (intro conjI allI impI)
    fix x cx
    assume "sy_conn (cl_sys ?t) x = Some cx \<and> cn_saw cx"
    then have x: "((sy_conn (cl_sys s))(p \<mapsto> ?c)) x = Some cx" "cn_saw cx" unfolding conn by blast+
    show "cn_pc cx = AtNotify \<or> readied cd (sy_hub (cl_sys ?t)) x"
      unfolding read using x cl_readyD(1) [OF inv, of x cx] by (cases "x = p") auto
  next
    fix x cx y cy
    assume "facing (cl_sys ?t) x cx y cy \<and> cn_role cx \<in> {RoleAgent, RolePhone}"
    with fac [of x cx y cy] cl_readyD(2) [OF inv, of x cx y cy] show "cn_saw cx \<or> cn_saw cy" by auto
  next
    fix x cx y cy
    assume a: "facing (cl_sys ?t) x cx y cy \<and> cn_saw cx \<and> \<not> cn_saw cy \<and>
      lookup_at ?t (ce_home ce y) (cn_room cy) (cn_role cy) = Some y"
    then have "facing (cl_sys s) x cx y cy \<or> cn_pc cx = AtNotify" using fac [of x cx y cy] by auto
    with a cl_readyD(3) [OF inv, of x cx y cy]
    show "notifying cd (cn_pc cx) \<or> inflight cd (cl_fan ?t (ce_home ce y)) y (cn_room cy) (cn_role cy) \<or>
        readied cd (sy_hub (cl_sys ?t)) y"
      unfolding read look fan by (auto simp: notifying_def)
  qed
qed

lemma inflight_push:
  assumes "rf_pubsub f = Some xs"
  shows "inflight cd f q m r \<Longrightarrow> inflight cd (rf_push x f) q m r"
    and "Unmarshal_fanout (fst x) = Inr \<lparr>fm_Room = m, fm_TargetRole = r, fm_Frame = marshal cd ready_envelope\<rparr> \<Longrightarrow>
      inflight cd (rf_push x f) q m r"
  using assms by (auto simp: inflight_def rf_push_def)

lemma cl_ready_publish:
  assumes inv: "cl_inv ce cd pr ok s" and rdy: "cl_ready ce cd s" and rel: "reliable_pubsub (ce_publish ce)"
    and do: "cl_do ce ops cd (Publish p) s = Some t"
  shows "cl_ready ce cd t"
proof -
  obtain c f fin reached payload where c: "sy_conn (cl_sys s) p = Some c" "cn_pc c = AtPublish f fin"
    and pub: "RedisFanout_Publish (ce_publish ce) (length (cl_pubs s)) (subscribers ce s) (cl_fan s (ce_home ce p))
       (cn_room c) (opposite (cn_role c)) f = (reached, payload)"
    and t: "t = s\<lparr>cl_sys := (cl_sys s)\<lparr>sy_conn := (sy_conn (cl_sys s))(p \<mapsto> c\<lparr>cn_pc := after fin\<rparr>)\<rparr>,
       cl_fan := (\<lambda>i. if i \<in> set reached then rf_push (payload, p) (cl_fan s i) else cl_fan s i),
       cl_pubs := cl_pubs s @ [payload]\<rparr>"
    using do by (rule cl_publish)
  let ?c = "c\<lparr>cn_pc := after fin\<rparr>"
  have role: "cn_role c \<in> {RoleAgent, RolePhone}" "is_ascii (cn_room c)"
    using cl_invD(1,5) [OF inv] c by (auto simp: homes_inv_def peers_inv_def)
  have msg: "Unmarshal_fanout payload = Inr \<lparr>fm_Room = cn_room c, fm_TargetRole = opposite (cn_role c), fm_Frame = f\<rparr>"
    using role ascii_roles [of "cn_role c"] fanout_payload [OF pub] by (simp add: fanout_roundtrip)
  have reach: "i \<in> set reached" if "i < ce_n ce" for i
    using reliable_pubsub.subscribed_reached [OF rel all_subscribed [OF inv that]] pub cl_invD(6) [OF inv, of "ce_home ce p"]
    by (auto simp: RedisFanout_Publish_def Let_def fan_inv_def)
  have conn: "sy_conn (cl_sys t) = (sy_conn (cl_sys s))(p \<mapsto> ?c)" and hub: "sy_hub (cl_sys t) = sy_hub (cl_sys s)"
    and look: "lookup_at t i m r = lookup_at s i m r" for i m r
    by (simp_all add: t view_def)
  have xs: "rf_pubsub (cl_fan s i) = Some (the (rf_pubsub (cl_fan s i)))" for i
    by (rule fan_queue [OF cl_invD(6) [OF inv]])
  have fly: "inflight cd (cl_fan s i) q m r \<Longrightarrow> inflight cd (cl_fan t i) q m r" for i q m r
    using inflight_push(1) [OF xs [of i]] by (simp add: t)
  show ?thesis
  proof (rule cl_ready_simulate [OF rdy])
    show "readied cd (sy_hub (cl_sys t)) q \<or> (\<exists>c0. sy_conn (cl_sys s) q = Some c0 \<and> cn_saw c0 \<and> cn_pc c0 \<noteq> AtNotify)"
      if "sy_conn (cl_sys t) q = Some c'" "cn_saw c'" "cn_pc c' \<noteq> AtNotify" for q c'
      using that c unfolding conn by (cases "q = p") auto
    show "\<exists>c0 d0. facing (cl_sys s) x c0 y d0 \<and> cn_saw c0 = cn_saw c' \<and> cn_saw d0 = cn_saw d \<and> cn_role c0 = cn_role c' \<and>
        cn_room d0 = cn_room d \<and> cn_role d0 = cn_role d \<and>
        (lookup_at t (ce_home ce y) (cn_room d) (cn_role d) = Some y \<longrightarrow> lookup_at s (ce_home ce y) (cn_room d) (cn_role d) = Some y) \<and>
        (lookup_at s (ce_home ce y) (cn_room d) (cn_role d) = Some y \<and> notifying cd (cn_pc c0) \<longrightarrow> notifying cd (cn_pc c') \<or>
           inflight cd (cl_fan t (ce_home ce y)) y (cn_room d) (cn_role d))"
      if fc: "facing (cl_sys t) x c' y d" for x c' y d
    proof -
      let ?cx = "if x = p then c else c'" and ?dy = "if y = p then c else d"
      have f: "((sy_conn (cl_sys s))(p \<mapsto> ?c)) x = Some c'" "((sy_conn (cl_sys s))(p \<mapsto> ?c)) y = Some d"
        "cn_room d = cn_room c'" "cn_role d = opposite (cn_role c')" "present_pc (cn_pc c')" "present_pc (cn_pc d)"
        using fc unfolding facing_def conn by blast+
      have e: "x = p \<Longrightarrow> c' = ?c" "y = p \<Longrightarrow> d = ?c" using f(1,2) by auto
      have "facing (cl_sys s) x ?cx y ?dy" using f e c by (auto simp: facing_def split: if_splits)
      moreover have "notifying cd (cn_pc ?cx) \<longrightarrow> notifying cd (cn_pc c') \<or>
          inflight cd (cl_fan t (ce_home ce y)) y (cn_room d) (cn_role d)"
      proof (intro impI, rule ccontr)
        assume n: "notifying cd (cn_pc ?cx)" and no: "\<not> (notifying cd (cn_pc c') \<or>
          inflight cd (cl_fan t (ce_home ce y)) y (cn_room d) (cn_role d))"
        have x: "x = p" using n no by (auto split: if_splits)
        with n c have fr: "f = marshal cd ready_envelope" by (simp add: notifying_def)
        have m: "Unmarshal_fanout payload = Inr \<lparr>fm_Room = cn_room d, fm_TargetRole = cn_role d, fm_Frame = marshal cd ready_envelope\<rparr>"
          using msg f(3,4) e(1) [OF x] fr by simp
        obtain d0 where "sy_conn (cl_sys s) y = Some d0" using f(2) c(1) by (cases "y = p") auto
        then have "ce_home ce y < ce_n ce" using cl_invD(5) [OF inv] by (auto simp: homes_inv_def)
        then have "inflight cd (cl_fan t (ce_home ce y)) y (cn_room d) (cn_role d)"
          using reach inflight_push(2) [OF xs, of "(payload, p)"] m by (simp add: t)
        with no show False by blast
      qed
      ultimately show ?thesis
        using e by - (rule exI [of _ ?cx], rule exI [of _ ?dy], auto simp: look)
    qed
  qed (use fly in \<open>simp_all add: hub\<close>)
qed

lemma cl_ready_receive:
  assumes inv: "cl_inv ce cd pr ok s" and rdy: "cl_ready ce cd s" and do: "cl_do ce ops cd (Receive i) s = Some t"
  shows "cl_ready ce cd t"
proof -
  obtain f where f: "rf_receive (lookup_at s i) (cl_fan s i) = Some f"
    and t: "t = s\<lparr>cl_fan := (cl_fan s)(i := f),
       cl_taken := (cl_taken s)(i := cl_taken s i @ map fst (take 1 (the (rf_pubsub (cl_fan s i)))))\<rparr>"
    using do by (rule cl_receive)
  have "\<not> rf_cancelled (cl_fan s i)" using cl_invD(6) [OF inv, of i] by (simp add: fan_inv_def)
  with f obtain payload p xs where x: "rf_loop (cl_fan s i) = LoopWait" "rf_pubsub (cl_fan s i) = Some ((payload, p) # xs)" "rf_pubsub f = Some xs"
    "rf_loop f = (case Unmarshal_fanout payload of Inl e \<Rightarrow> LoopWait | Inr m \<Rightarrow>
       (case lookup_at s i (fm_Room m) (fm_TargetRole m) of None \<Rightarrow> LoopWait | Some peer \<Rightarrow> LoopDeliver p peer (fm_Frame m)))"
    by (rule rf_receive_Some)
  have sys: "cl_sys t = cl_sys s" and v: "view t j = view s j" for j by (simp_all add: t view_def)
  have fly: "inflight cd (cl_fan t (ce_home ce q)) q m r"
    if "lookup_at s (ce_home ce q) m r = Some q" "inflight cd (cl_fan s (ce_home ce q)) q m r" for q m r
  proof (cases "ce_home ce q = i")
    case True
    with that x show ?thesis
      by (cases "Unmarshal_fanout payload = Inr \<lparr>fm_Room = m, fm_TargetRole = r, fm_Frame = marshal cd ready_envelope\<rparr>")
         (auto simp: t inflight_def)
  next
    case False
    with that show ?thesis by (simp add: t)
  qed
  show ?thesis
    by (rule cl_ready_simulate [OF rdy]) (use fly in \<open>auto simp: sys v\<close>)
qed

lemma cl_ready_deliver:
  assumes rdy: "cl_ready ce cd s" and do: "cl_do ce ops cd (Deliver i) s = Some t"
  shows "cl_ready ce cd t"
proof -
  obtain p q f h where l: "rf_loop (cl_fan s i) = LoopDeliver p q f" and h: "hub_Send p q f (sy_hub (view s i)) = Return h"
    and t: "t = (unview i ((view s i)\<lparr>sy_hub := h\<rparr>) s)\<lparr>cl_fan := (cl_fan s)(i := (cl_fan s i)\<lparr>rf_loop := LoopWait\<rparr>)\<rparr>"
    using do by (rule cl_deliver)
  have conn: "sy_conn (cl_sys t) = sy_conn (cl_sys s)" by (simp add: t)
  have look: "lookup_at t j m r = lookup_at s j m r" for j m r
    using hub_Send_frame(1) [OF h] by (simp add: hub_lookup_def t)
  have sent: "h_sent (sy_hub (cl_sys t)) = h_sent h" by (simp add: t)
  have log: "readied cd (sy_hub (cl_sys s)) x \<Longrightarrow> readied cd (sy_hub (cl_sys t)) x" for x
    using readied_mono [of "sy_hub (cl_sys s)" "sy_hub (cl_sys t)" cd x] hub_Send_log [OF h] by (simp add: sent)
  have fan: "cl_fan t = (cl_fan s)(i := (cl_fan s i)\<lparr>rf_loop := LoopWait\<rparr>)" by (simp add: t)
  have new: "f = marshal cd ready_envelope \<Longrightarrow> readied cd (sy_hub (cl_sys t)) q"
    using ready_send(3) [OF h] by (simp add: readied_def sent)
  have fly: "inflight cd (cl_fan t j) x m r \<or> readied cd (sy_hub (cl_sys t)) x" if "inflight cd (cl_fan s j) x m r" for j x m r
  proof (cases "j = i")
    case True
    then have "(\<exists>x \<in> set (the (rf_pubsub (cl_fan s i))). Unmarshal_fanout (fst x) =
        Inr \<lparr>fm_Room = m, fm_TargetRole = r, fm_Frame = marshal cd ready_envelope\<rparr>) \<or> x = q \<and> f = marshal cd ready_envelope"
      using that l by (auto simp: inflight_def)
    with new True show ?thesis by (simp add: inflight_def fan) blast
  next
    case False
    with that show ?thesis by (simp add: fan)
  qed
  show ?thesis
  proof (rule cl_ready_simulate [OF rdy])
    show "\<exists>c0 d0. facing (cl_sys s) x c0 y d0 \<and> cn_saw c0 = cn_saw c \<and> cn_saw d0 = cn_saw d \<and> cn_role c0 = cn_role c \<and>
        cn_room d0 = cn_room d \<and> cn_role d0 = cn_role d \<and>
        (lookup_at t (ce_home ce y) (cn_room d) (cn_role d) = Some y \<longrightarrow> lookup_at s (ce_home ce y) (cn_room d) (cn_role d) = Some y) \<and>
        (lookup_at s (ce_home ce y) (cn_room d) (cn_role d) = Some y \<and> notifying cd (cn_pc c0) \<longrightarrow> notifying cd (cn_pc c) \<or>
           inflight cd (cl_fan t (ce_home ce y)) y (cn_room d) (cn_role d))"
      if "facing (cl_sys t) x c y d" for x c y d
      using that facing_cong [OF conn] by - (rule exI [of _ c], rule exI [of _ d], simp add: look)
    show "readied cd (sy_hub (cl_sys t)) x \<or> (\<exists>c0. sy_conn (cl_sys s) x = Some c0 \<and> cn_saw c0 \<and> cn_pc c0 \<noteq> AtNotify)"
      if "sy_conn (cl_sys t) x = Some c" "cn_saw c" "cn_pc c \<noteq> AtNotify" for x c
      using that unfolding conn by blast
  qed (use fly log in blast)+
qed

context presence
begin

lemma cl_ready_step:
  assumes inv: "cl_inv ce cd present wf s" and rdy: "cl_ready ce cd s" and rel: "reliable_pubsub (ce_publish ce)"
    and do: "cl_do ce ops cd a s = Some t"
  shows "cl_ready ce cd t"
proof (cases a)
  case (Conn b)
  let ?i = "ce_home ce (act_peer b)" and ?p = "act_peer b"
  obtain t' where t': "sys_do ops cd b (view s ?i) = Some t'" "t = unview ?i t' s" "local_act ce b (cl_sys s)"
    using do Conn by (auto simp: Let_def split: if_splits)
  have la: "local_act ce b (view s ?i)" using t'(3) by (cases b) (simp_all split: option.splits)
  show ?thesis
  proof (cases "\<exists>c. sy_conn (cl_sys s) ?p = Some c \<and> cn_pc c = AtJoin \<and> b = Go ?p")
    case True
    then obtain c where c: "sy_conn (cl_sys s) ?p = Some c" "cn_pc c = AtJoin" "b = Go ?p" by blast
    obtain present h where h: "hub_presence_join ops (cn_room c) (cn_role c) (sy_hub (view s ?i)) = (present, h)" by fastforce
    have "sys_go ops cd ?p c (view s ?i) = Some t'" using t'(1) c by (metis sys_do.simps(2) option.simps(5) view_sel(1))
    then have e: "t' = move ?p (c\<lparr>cn_saw := present\<rparr>) (if present then AtNotify else Reading) h (view s ?i)"
      using h c(2) by (simp add: sys_go_def)
    have cnt: "counted (view s ?i)"
      using cl_invD(2) [OF inv] count_inv_cong [of "view s ?i" "cl_sys s"] by simp
    have "members (view s ?i) = members (cl_sys s)" by (rule members_cong) simp
    with join_saw [OF cnt h] have "present \<longleftrightarrow> members (cl_sys s) (cn_room c) (opposite (cn_role c)) \<noteq> {}" by simp
    moreover have "h_rooms h = cl_rooms s ?i" "h_sent h = h_sent (sy_hub (cl_sys s))"
      using hub_presence_join_frame(1) [OF h] by simp_all
    moreover have "\<And>p c. sy_conn (cl_sys s) p = Some c \<Longrightarrow> cn_role c \<in> {RoleAgent, RolePhone}"
      using cl_invD(1) [OF inv] unfolding peers_inv_def by blast
    ultimately show ?thesis
      unfolding t'(2) e by (intro cl_ready_join [OF rdy c(1,2)]) simp_all
  next
    case False
    have eff: "conn_effect cd (view s ?i) t' ?p" by (rule sys_do_effect [OF t'(1) la])
    show ?thesis
    proof (cases "\<exists>c. sy_conn (cl_sys s) ?p = Some c \<and> cn_pc c = AtJoin")
      case True
      with False t'(1) obtain q e where "b = Pump q e" by (cases b) auto
      with t' have same: "sy_conn t' = sy_conn (cl_sys s)" "h_sent (sy_hub t') = h_sent (sy_hub (cl_sys s))" "h_rooms (sy_hub t') = cl_rooms s ?i"
        by (auto split: option.splits)
      have "lookup_at t j m r = lookup_at s j m r" for j m r using same(3) by (simp add: t'(2) hub_lookup_def)
      moreover have "readied cd (sy_hub (cl_sys t)) = readied cd (sy_hub (cl_sys s))" using same(2) by (simp add: t'(2) readied_def fun_eq_iff)
      moreover have "sy_conn (cl_sys t) = sy_conn (cl_sys s)" "cl_fan t = cl_fan s" using same(1) by (simp_all add: t'(2))
      ultimately show ?thesis
        using rdy facing_cong [of "cl_sys t" "cl_sys s"] by (simp add: cl_ready_def) blast
    next
      case nj: False
      show ?thesis
        unfolding t'(2)
      proof (rule cl_ready_quiet [OF rdy eff refl])
        show "cn_pc c \<noteq> AtJoin" if "sy_conn (cl_sys s) ?p = Some c" for c using nj that by blast
        show "cn_pc c' = AtNotify \<or> readied cd (sy_hub t') ?p"
          if "sy_conn (cl_sys s) ?p = Some c" "cn_pc c = AtNotify" "sy_conn t' ?p = Some c'" for c c'
          using notify_readied [OF t'(1) refl _ that(2,3)] that(1) by simp
      qed
    qed
  qed
next
  case (Publish p)
  with cl_ready_publish [OF inv rdy rel] do show ?thesis by blast
next
  case (Receive i)
  with cl_ready_receive [OF inv rdy] do show ?thesis by blast
next
  case (Deliver i)
  with cl_ready_deliver [OF rdy] do show ?thesis by blast
qed

lemma cl_reach_all:
  assumes "cl_reach ce ops cd s0 s" and "wf s0" and "\<And>m r. present s0 m r = 0" and opens: "\<And>m. ce_opens ce m \<Longrightarrow> is_ascii m"
  shows "cl_inv ce cd present wf s \<and> order_inv ce s \<and>
    (reliable_pubsub (ce_publish ce) \<longrightarrow> exact_inv ce s \<and> cl_ready ce cd s)"
  using assms(1)
proof (induction rule: cl_reach.induct)
  case cl_start
  have "order_inv ce (cl_start s0)" "exact_inv ce (cl_start s0)"
    by (simp_all add: order_inv_def exact_inv_def cl_start_def queue_def RedisFanout_Start_def)
  with cl_inv_start [of wf s0 present, OF assms(2,3)] show ?case by (simp add: cl_ready_start)
next
  case (cl_step s a t)
  then show ?case
    using cl_inv_step [OF _ cl_step(2) opens] order_inv_step [OF _ cl_step(2)] exact_inv_step [OF _ cl_step(2)]
      cl_ready_step [OF _ _ _ cl_step(2)] by blast
qed

end

section \<open>Two instances\<close>

definition demo_ce :: cluster_env where
  "demo_ce = \<lparr>ce_n = 2, ce_home = (\<lambda>p. if p = ''a'' then 0 else 1), ce_opens = (\<lambda>m. m = ''m''), ce_publish = serve_all\<rparr>"

definition demo_cluster :: "cl_act list" where
  "demo_cluster = [Conn (Accept ''a'' RoleAgent ''m''), Conn (Go ''a''), Conn (Go ''a''),
     Conn (Accept ''b'' RolePhone ''m''), Conn (Go ''b''), Conn (Go ''b''), Conn (Go ''b''), Publish ''b'',
     Receive 1, Receive 0, Deliver 0]"

lemma Atoi_one: "Atoi (Itoa 1) = (1, True)"
  by (rule Atoi_Itoa) (simp add: int64_bounds)

lemma demo_cluster_run:
  "map_option (\<lambda>s. (sy_conn (cl_sys s) ''a'', sy_conn (cl_sys s) ''b'', cl_rooms s 0, cl_rooms s 1, h_sent (sy_hub (cl_sys s)),
      rf_loop (cl_fan s 0), rf_pubsub (cl_fan s 0), rf_loop (cl_fan s 1), rf_pubsub (cl_fan s 1), length (cl_pubs s)))
     (cl_run demo_ce redis_ops demo_codec demo_cluster (cl_start (ks_empty 0))) =
   Some (Some \<lparr>cn_room = ''m'', cn_role = ''agent'', cn_pc = Reading, cn_saw = False\<rparr>,
         Some \<lparr>cn_room = ''m'', cn_role = ''phone'', cn_pc = Reading, cn_saw = True\<rparr>,
         [(''m'', [(''agent'', ''a'')])], [(''m'', [(''phone'', ''b'')])],
         [(''b'', ''b'', ''peer-ready||'', True), (''b'', ''a'', ''peer-ready||'', True)],
         LoopWait, Some [], LoopWait, Some [], 1)"
  by (simp add: demo_cluster_def demo_ce_def cl_start_def view_def unview_def demo_defs redis_ops_def RedisFanout_Start_def
      NewRedisFanout_def RedisPresence_Join_def ref_exec_def presenceKey_def expire_secs_def defaultSignalingTTL_def Hour_def
      Minute_def Second_def Atoi_one positive_val_def subscribers_def rf_subscribed_def RedisFanout_Publish_def serve_all_def
      rf_push_def rf_receive_def fanout_roundtrip is_ascii_def upt_rec numeral_2_eq_2 Let_def in_int64_def min_int64_def)

lemma demo_cluster_state:
  obtains s where "cl_run demo_ce redis_ops demo_codec demo_cluster (cl_start (ks_empty 0)) = Some s"
    "cl_reach demo_ce redis_ops demo_codec (ks_empty 0) s"
    "sy_conn (cl_sys s) ''a'' = Some \<lparr>cn_room = ''m'', cn_role = ''agent'', cn_pc = Reading, cn_saw = False\<rparr>"
    "sy_conn (cl_sys s) ''b'' = Some \<lparr>cn_room = ''m'', cn_role = ''phone'', cn_pc = Reading, cn_saw = True\<rparr>"
    "cl_rooms s 0 = [(''m'', [(''agent'', ''a'')])]" "cl_rooms s 1 = [(''m'', [(''phone'', ''b'')])]"
    "h_sent (sy_hub (cl_sys s)) = [(''b'', ''b'', ''peer-ready||'', True), (''b'', ''a'', ''peer-ready||'', True)]"
    "rf_loop (cl_fan s 0) = LoopWait" "queue s 0 = []" "rf_loop (cl_fan s 1) = LoopWait" "queue s 1 = []"
    "length (cl_pubs s) = 1"
proof -
  obtain s where s: "cl_run demo_ce redis_ops demo_codec demo_cluster (cl_start (ks_empty 0)) = Some s"
    "(sy_conn (cl_sys s) ''a'', sy_conn (cl_sys s) ''b'', cl_rooms s 0, cl_rooms s 1, h_sent (sy_hub (cl_sys s)),
      rf_loop (cl_fan s 0), rf_pubsub (cl_fan s 0), rf_loop (cl_fan s 1), rf_pubsub (cl_fan s 1), length (cl_pubs s)) =
     (Some \<lparr>cn_room = ''m'', cn_role = ''agent'', cn_pc = Reading, cn_saw = False\<rparr>,
         Some \<lparr>cn_room = ''m'', cn_role = ''phone'', cn_pc = Reading, cn_saw = True\<rparr>,
         [(''m'', [(''agent'', ''a'')])], [(''m'', [(''phone'', ''b'')])],
         [(''b'', ''b'', ''peer-ready||'', True), (''b'', ''a'', ''peer-ready||'', True)],
         LoopWait, Some [], LoopWait, Some [], 1)"
    using demo_cluster_run by (auto simp only: map_option_eq_Some)
  have "cl_reach demo_ce redis_ops demo_codec (ks_empty 0) s" by (rule cl_run_reach [OF s(1) cl_reach.cl_start])
  from s(1) this show thesis
    by (rule that) (use s(2) in \<open>simp_all only: prod.inject queue_def option.sel\<close>)
qed

section \<open>Theorems\<close>

lemma cluster_all:
  assumes "cl_reach ce redis_ops cd (ks_empty t0) s" and "\<forall>m. ce_opens ce m \<longrightarrow> is_ascii m"
  shows "cl_inv ce cd rp_present rp_wf s \<and> order_inv ce s \<and>
    (reliable_pubsub (ce_publish ce) \<longrightarrow> exact_inv ce s \<and> cl_ready ce cd s)"
  using assms unfolding redis_ops_def by (intro rp.cl_reach_all) auto

lemma cl_ready_both:
  assumes "cl_ready ce cd s" and "facing (cl_sys s) p c q d" and "cn_role c \<in> {RoleAgent, RolePhone}"
    and "cn_pc c = Reading" and "cn_pc d = Reading"
    and "lookup_at s (ce_home ce p) (cn_room c) (cn_role c) = Some p"
    and "lookup_at s (ce_home ce q) (cn_room d) (cn_role d) = Some q"
    and "\<And>x m r. \<not> inflight cd (cl_fan s (ce_home ce p)) x m r" and "\<And>x m r. \<not> inflight cd (cl_fan s (ce_home ce q)) x m r"
  shows "readied cd (sy_hub (cl_sys s)) p \<and> readied cd (sy_hub (cl_sys s)) q"
proof -
  have sym: "facing (cl_sys s) q d p c" using assms(2,3) by (auto simp: facing_def)
  have conn: "sy_conn (cl_sys s) p = Some c" "sy_conn (cl_sys s) q = Some d" using assms(2) by (simp_all add: facing_def)
  have n: "\<not> notifying cd Reading" by (simp add: notifying_def)
  have "cn_saw c \<or> cn_saw d" by (rule cl_readyD(2) [OF assms(1-3)])
  moreover have "readied cd (sy_hub (cl_sys s)) p" if "cn_saw c" using cl_readyD(1) [OF assms(1) conn(1) that] assms(4) by simp
  moreover have "readied cd (sy_hub (cl_sys s)) q" if "cn_saw d" using cl_readyD(1) [OF assms(1) conn(2) that] assms(5) by simp
  moreover have "readied cd (sy_hub (cl_sys s)) q" if "cn_saw c" "\<not> cn_saw d"
    using cl_readyD(3) [OF assms(1,2) that assms(7)] n assms(4,9) by simp
  moreover have "readied cd (sy_hub (cl_sys s)) p" if "cn_saw d" "\<not> cn_saw c"
    using cl_readyD(3) [OF assms(1) sym that assms(6)] n assms(5,8) by simp
  ultimately show ?thesis by blast
qed



text \<open>
  C17: frames stay in their room across instances, whatever the pub/sub server loses: every call of
  \<open>Send\<close> was caused by the receiving connection itself or by a connection of the same room and the
  opposite role, and then the frame is the relay's \<open>peer-ready\<close>, that connection's goodbye, or a message
  that was read, passed on with that connection's role in its \<open>from\<close> field.
\<close>

theorem cluster_frames_stay_in_room:
  assumes "cl_reach ce redis_ops cd (ks_empty t0) s" and "\<forall>m. ce_opens ce m \<longrightarrow> is_ascii m"
    and "(p, q, f, b) \<in> set (h_sent (sy_hub (cl_sys s)))"
  shows "\<exists>c d. sy_conn (cl_sys s) p = Some c \<and> sy_conn (cl_sys s) q = Some d \<and> cn_room d = cn_room c \<and>
    (q = p \<or> cn_role d = opposite (cn_role c) \<and>
       (f = marshal cd ready_envelope \<or> f = marshal cd (bye_envelope (cn_role c)) \<or>
        (\<exists>data env. unmarshal cd data = Some env \<and> f = marshal cd (env\<lparr>env_from := cn_role c\<rparr>))))"
proof -
  have inv: "cl_inv ce cd rp_present rp_wf s" using cluster_all [OF assms(1,2)] by blast
  have "same_room (view s 0) p q" using table_inv_log [OF cl_invD(4) [OF inv]] assms(3) by simp
  then obtain c d where c: "sy_conn (cl_sys s) p = Some c" "sy_conn (cl_sys s) q = Some d" "cn_room c = cn_room d"
    "q = p \<or> cn_role d = opposite (cn_role c)" by (auto simp: same_room_def)
  have "q \<noteq> p \<longrightarrow> stamped cd (cn_role c) f"
    using cl_invD(3) [OF inv] assms(3) c(1) by (fastforce simp: stamp_inv_def)
  with c show ?thesis by (auto simp: stamped_def)
qed

theorem cluster_frames_stay_in_room_witness:
  "\<exists>s. cl_run demo_ce redis_ops demo_codec demo_cluster (cl_start (ks_empty 0)) = Some s \<and>
     (''b'', ''a'', ''peer-ready||'', True) \<in> set (h_sent (sy_hub (cl_sys s))) \<and>
     (\<exists>c d. sy_conn (cl_sys s) ''b'' = Some c \<and> sy_conn (cl_sys s) ''a'' = Some d \<and> cn_room d = cn_room c \<and>
        (''a'' = ''b'' \<or> cn_role d = opposite (cn_role c) \<and> (''peer-ready||'' = marshal demo_codec ready_envelope \<or>
          ''peer-ready||'' = marshal demo_codec (bye_envelope (cn_role c)) \<or>
          (\<exists>data env. unmarshal demo_codec data = Some env \<and> ''peer-ready||'' = marshal demo_codec (env\<lparr>env_from := cn_role c\<rparr>)))))"
proof (rule demo_cluster_state)
  fix s
  assume s: "cl_run demo_ce redis_ops demo_codec demo_cluster (cl_start (ks_empty 0)) = Some s"
    "cl_reach demo_ce redis_ops demo_codec (ks_empty 0) s"
    "h_sent (sy_hub (cl_sys s)) = [(''b'', ''b'', ''peer-ready||'', True), (''b'', ''a'', ''peer-ready||'', True)]"
  then have log: "(''b'', ''a'', ''peer-ready||'', True) \<in> set (h_sent (sy_hub (cl_sys s)))" by simp
  have "\<forall>m. ce_opens demo_ce m \<longrightarrow> is_ascii m" by (simp add: demo_ce_def is_ascii_def)
  from cluster_frames_stay_in_room [OF s(2) this log] s(1) log show ?thesis by blast
qed

lemma ended_now_cong:
  "sy_conn s = sy_conn s' \<Longrightarrow> sy_conn t = sy_conn t' \<Longrightarrow> h_ended (sy_hub s) = h_ended (sy_hub s') \<Longrightarrow>
     h_ended (sy_hub t) = h_ended (sy_hub t') \<Longrightarrow> ended_now s t = ended_now s' t'"
  using members_cong [of s s'] members_cong [of t t'] by (simp add: ended_now_def)



text \<open>
  Delivery is ordered and happens at most once: what an instance has taken from its subscription,
  followed by what waits there, is a subsequence of the payloads published so far; when the server
  reaches every subscriber it is exactly that sequence, on every instance.
\<close>

theorem cluster_delivery_order:
  assumes "cl_reach ce redis_ops cd (ks_empty t0) s" and "\<forall>m. ce_opens ce m \<longrightarrow> is_ascii m"
  shows "subseq (cl_taken s i @ map fst (queue s i)) (cl_pubs s) \<and>
    (reliable_pubsub (ce_publish ce) \<and> i < ce_n ce \<longrightarrow> cl_taken s i @ map fst (queue s i) = cl_pubs s)"
  using cluster_all [OF assms] by (simp add: order_inv_def exact_inv_def)

theorem cluster_delivery_order_witness:
  "\<exists>s. cl_run demo_ce redis_ops demo_codec demo_cluster (cl_start (ks_empty 0)) = Some s \<and> length (cl_pubs s) = 1 \<and>
     cl_taken s 0 = cl_pubs s \<and> cl_taken s 1 = cl_pubs s"
proof (rule demo_cluster_state)
  fix s
  assume s: "cl_run demo_ce redis_ops demo_codec demo_cluster (cl_start (ks_empty 0)) = Some s"
    "cl_reach demo_ce redis_ops demo_codec (ks_empty 0) s" "queue s 0 = []" "queue s 1 = []" "length (cl_pubs s) = 1"
  have "\<forall>m. ce_opens demo_ce m \<longrightarrow> is_ascii m" by (simp add: demo_ce_def is_ascii_def)
  note order = cluster_delivery_order [OF s(2) this]
  have "reliable_pubsub (ce_publish demo_ce)" "ce_n demo_ce = 2"
    using all.reliable_pubsub_axioms by (simp_all add: demo_ce_def)
  with order [of 0] order [of 1] s show ?thesis by auto
qed

end
