(* ===== verification/Session_Status.thy ===== *)
theory Session_Status
  imports Session_Redeem
begin

text \<open>
  The life of a session row: pending, then active and ended, or expired. The theorems hold for
  every database client that keeps the contract \<open>pg_service\<close>, so also when statements fail
  or their replies are lost.
\<close>

section \<open>The order of states\<close>

definition status_le :: "session_status \<Rightarrow> session_status \<Rightarrow> bool" where
  "status_le s s' \<longleftrightarrow> s = s' \<or> s = Pending \<or> s = Active \<and> s' = Ended"

definition row_le :: "session_row \<Rightarrow> session_row \<Rightarrow> bool" where
  "row_le r r' \<longleftrightarrow> sr_id r' = sr_id r \<and> sr_org r' = sr_org r \<and> sr_agent r' = sr_agent r \<and>
     sr_connect r' = sr_connect r \<and> sr_created r' = sr_created r \<and> status_le (sr_status r) (sr_status r')"

definition evolves :: "db \<Rightarrow> db \<Rightarrow> bool" where
  "evolves d d' \<longleftrightarrow> (\<forall>r \<in> set (db_sessions d). \<exists>r' \<in> set (db_sessions d'). row_le r r')"

lemma status_le_trans: "status_le a b \<Longrightarrow> status_le b c \<Longrightarrow> status_le a c"
  by (auto simp: status_le_def)

lemma row_le_refl [simp]: "row_le r r"
  by (simp add: row_le_def status_le_def)

lemma row_le_trans: "row_le a b \<Longrightarrow> row_le b c \<Longrightarrow> row_le a c"
  by (auto simp: row_le_def intro: status_le_trans)

lemma evolves_trans [trans]: "evolves a b \<Longrightarrow> evolves b c \<Longrightarrow> evolves a c"
  unfolding evolves_def by (meson row_le_trans)

lemma evolves_same: "db_sessions d' = db_sessions d \<Longrightarrow> evolves d d'"
  unfolding evolves_def using row_le_refl by metis

lemma evolves_append: "db_sessions d' = db_sessions d @ rs \<Longrightarrow> evolves d d'"
  unfolding evolves_def using row_le_refl by (metis Un_iff set_append)

lemma evolves_update:
  assumes "db_sessions d' = snd (sql_update P f (db_sessions d))" and "\<And>r. P r \<Longrightarrow> row_le r (f r)"
  shows "evolves d d'"
  unfolding evolves_def
proof
  fix r assume r: "r \<in> set (db_sessions d)"
  let ?r = "if P r then f r else r"
  have "?r \<in> set (db_sessions d')" using r by (simp only: assms(1) sql_update_def snd_conv set_map) blast
  moreover have "row_le r ?r" using assms(2) by simp
  ultimately show "\<exists>r' \<in> set (db_sessions d'). row_le r r'" by blast
qed

lemma evolves_clock [simp]: "evolves (d\<lparr>db_clock := t\<rparr>) d' = evolves d d'" "evolves d (d'\<lparr>db_clock := t\<rparr>) = evolves d d'"
  by (simp_all add: evolves_def)

section \<open>Statements\<close>

lemma other_sessions:
  "db_sessions (snd (sql_insert_org n g d)) = db_sessions d"
  "db_sessions (snd (sql_insert_user o' e h n r g d)) = db_sessions d"
  "db_sessions (snd (sql_select_user_by_email e d)) = db_sessions d"
  "db_sessions (snd (sql_select_users o' d)) = db_sessions d"
  "db_sessions (snd (sql_select_user u o' d)) = db_sessions d"
  "db_sessions (snd (sql_set_disabled b u o' d)) = db_sessions d"
  "db_sessions (snd (sql_bump_version u o' d)) = db_sessions d"
  "db_sessions (snd (sql_session_in_org u o' d)) = db_sessions d"
  "db_sessions (snd (sql_insert_recording x y z k ct d)) = db_sessions d"
  "db_sessions (snd (sql_complete_recording i x y d)) = db_sessions d"
  "db_sessions (snd (sql_select_recordings x y d)) = db_sessions d"
  by (simp_all add: sql_insert_org_def sql_insert_user_def sql_select_user_by_email_def
      sql_select_users_def sql_select_user_def sql_set_disabled_def sql_bump_version_def
      sql_session_in_org_def sql_insert_recording_def sql_complete_recording_def
      sql_select_recordings_def sql_update_def Let_def split: list.split)

lemma register_sessions: "db_sessions (snd (sql_register_org n e h dn g g' d)) = db_sessions d"
proof -
  have "db_sessions d1 = db_sessions d" if "sql_insert_org n g d = (x, d1)" for x d1
    using other_sessions(1) [of n g d] that by simp
  moreover have "db_sessions d2 = db_sessions d1" if "sql_insert_user o' e h dn r g' d1 = (x, d2)" for o' r x d1 d2
    using other_sessions(2) [of o' e h dn r g' d1] that by simp
  ultimately show ?thesis
    by (auto simp: sql_register_org_def split: prod.split pg_reply.split)
qed

lemma pg_run_evolves:
  assumes "\<And>sid. q \<noteq> DeleteSession sid"
  shows "evolves d (snd (pg_run q g g' d))"
proof (cases q)
  case (InsertSession org agent c)
  then show ?thesis
    by (auto simp: sql_insert_session_def intro: evolves_same evolves_append)
next
  case (ActivateSession sid)
  then show ?thesis
    by (intro evolves_update [where P = "\<lambda>r. sr_id r = sid \<and> sr_status r = Pending"
          and f = "\<lambda>r. r\<lparr>sr_status := Active, sr_connected := Some (db_clock d)\<rparr>"])
       (auto simp: sql_activate_session_def row_le_def status_le_def split: prod.splits)
next
  case (EndSession sid)
  then show ?thesis
    by (intro evolves_update [where P = "\<lambda>r. sr_id r = sid \<and> sr_status r = Active"
          and f = "\<lambda>r. r\<lparr>sr_status := Ended, sr_ended := Some (db_clock d)\<rparr>"])
       (auto simp: sql_end_session_def row_le_def status_le_def split: prod.splits)
next
  case (ExpirePending cutoff)
  then show ?thesis
    by (intro evolves_update [where P = "\<lambda>r. sr_status r = Pending \<and> sr_created r < cutoff"
          and f = "\<lambda>r. r\<lparr>sr_status := Expired\<rparr>"])
       (auto simp: sql_expire_pending_def row_le_def status_le_def split: prod.splits)
qed (use assms in \<open>simp_all add: evolves_same other_sessions register_sessions\<close>)

text \<open>What ending a session at time \<open>t\<close> makes of a row.\<close>

definition end_row :: "uuid \<Rightarrow> time \<Rightarrow> session_row \<Rightarrow> session_row" where
  "end_row sid t r = (if sr_id r = sid \<and> sr_status r = Active
     then r\<lparr>sr_status := Ended, sr_ended := Some t\<rparr> else r)"

lemma end_row_not_active: "sr_id (end_row sid t r) = sid \<Longrightarrow> sr_status (end_row sid t r) \<noteq> Active"
  by (auto simp: end_row_def split: if_splits)

lemma end_row_twice [simp]: "end_row sid t' (end_row sid t r) = end_row sid t r"
  by (simp add: end_row_def)

section \<open>Operations\<close>

context pg_service
begin

abbreviation dbv :: "('r, 'd) world \<Rightarrow> db" where
  "dbv w \<equiv> pg_view (w_db w)"

lemma db_call_evolves:
  assumes "sv_db sv = pg" and "\<And>sid. q \<noteq> DeleteSession sid" and "db_call sv q w = (x, w')"
  shows "evolves (dbv w) (dbv w')"
proof -
  have "pg q (w_db w) = (x, w_db w')" using assms(1,3) by (auto simp: db_call_def split: prod.splits)
  then show ?thesis
  proof (rule pg_cases)
    fix t assume "dbv w' = (dbv w)\<lparr>db_clock := t\<rparr>"
    then show ?thesis by (simp add: evolves_same)
  next
    fix t g g' assume "dbv w' = snd (pg_run q g g' ((dbv w)\<lparr>db_clock := t\<rparr>))"
    then show ?thesis using pg_run_evolves [OF assms(2), of "(dbv w)\<lparr>db_clock := t\<rparr>" g g'] by simp
  qed
qed

lemma db_call_evolves':
  "sv_db sv = pg \<Longrightarrow> (\<And>sid. q \<noteq> DeleteSession sid) \<Longrightarrow> evolves (dbv w) (dbv (snd (db_call sv q w)))"
  using db_call_evolves [of sv q w "fst (db_call sv q w)" "snd (db_call sv q w)"] by simp

text \<open>Inserting a row and deleting it again leaves every older row alone.\<close>

lemma insert_delete_evolves:
  assumes sv: "sv_db sv = pg" and ins: "db_call sv (InsertSession org agent c) w = (Inr (PgId sid), w1)"
    and same: "w_db w2 = w_db w1"
  shows "evolves (dbv w) (dbv (snd (db_call sv (DeleteSession sid) w2)))"
proof -
  have "pg (InsertSession org agent c) (w_db w) = (Inr (PgId sid), w_db w1)"
    using sv ins by (auto simp: db_call_def split: prod.splits)
  from pg_ok [OF this] obtain t g where i: "sql_insert_session org agent c g ((dbv w)\<lparr>db_clock := t\<rparr>) = (PgId sid, dbv w1)"
    by auto
  then have new: "\<forall>r \<in> set (db_sessions (dbv w)). sr_id r \<noteq> sid"
    and "\<exists>row. db_sessions (dbv w1) = db_sessions (dbv w) @ [row]"
    by (auto simp: sql_insert_session_def list_ex_iff dest!: arg_cong [where f = db_sessions] split: if_splits) metis
  then have old: "set (db_sessions (dbv w)) \<subseteq> set (db_sessions (dbv w1))" by auto
  obtain x w3 where del: "db_call sv (DeleteSession sid) w2 = (x, w3)" by fastforce
  then have "pg (DeleteSession sid) (w_db w1) = (x, w_db w3)" using sv same by (auto simp: db_call_def split: prod.splits)
  then have "\<forall>r \<in> set (db_sessions (dbv w1)). sr_id r \<noteq> sid \<longrightarrow> r \<in> set (db_sessions (dbv w3))"
    by (rule pg_cases) (auto simp: sql_delete_session_def)
  with new old have "\<forall>r \<in> set (db_sessions (dbv w)). r \<in> set (db_sessions (dbv w3))" by blast
  then have "evolves (dbv w) (dbv w3)" unfolding evolves_def using row_le_refl by blast
  with del show ?thesis by simp
qed

lemma mint_loop_evolves:
  assumes "sv_db sv = pg"
  shows "mint_loop sv now jti org agent pin n tp w = (x, tp', w') \<Longrightarrow> evolves (dbv w) (dbv w')"
proof (induction n arbitrary: tp w)
  case (Suc n)
  show ?case
  proof (cases "randomDigits connectIDDigits tp")
    case (Pair rd tp1)
    show ?thesis
    proof (cases rd)
      case (Inl e)
      with Suc.prems Pair show ?thesis by (simp add: evolves_same)
    next
      case (Inr c)
      obtain y w1 where i: "db_call sv (InsertSession org agent c) w = (y, w1)" by fastforce
      have e1: "evolves (dbv w) (dbv w1)" by (rule db_call_evolves [OF assms _ i]) simp
      show ?thesis
      proof (cases "\<exists>sid. y = Inr (PgId sid)")
        case False
        with Suc.prems Pair Inr i e1 show ?thesis by (auto split: sum.splits pg_reply.splits)
      next
        case True
        then obtain sid where y: "y = Inr (PgId sid)" ..
        let ?set = "[SET_NX (tokenKey c) (marshal_tokenRecord (token_record sv sid org agent pin)) (sv_ttl sv)]"
        obtain z w2 where z: "redis_call sv ?set w1 = (z, w2)" by fastforce
        have same: "w_db w2 = w_db w1" using redis_call_db [of sv ?set w1] z by simp
        show ?thesis
        proof (cases "z = Inr [RBool False]")
          case True
          let ?w3 = "snd (db_call sv (DeleteSession sid) w2)"
          have "mint_loop sv now jti org agent pin n tp1 ?w3 = (x, tp', w')"
            using Suc.prems Pair Inr i y z True by simp
          from Suc.IH [OF this] insert_delete_evolves [OF assms i [unfolded y] same]
          show ?thesis using evolves_trans by blast
        next
          case False
          then have "w' = w2"
            using Suc.prems Pair Inr i y z
            by (auto split: sum.splits list.splits redis_reply.splits if_splits)
          with e1 same show ?thesis by simp
        qed
      qed
    qed
  qed
qed (simp add: evolves_same)

lemma Mint_evolves: "sv_db sv = pg \<Longrightarrow> Mint sv now jti org agent tp w = (x, tp', w') \<Longrightarrow> evolves (dbv w) (dbv w')"
  by (auto simp: Mint_def evolves_same split: prod.splits sum.splits intro: mint_loop_evolves)

lemma redeem_consume_evolves:
  "sv_db sv = pg \<Longrightarrow> evolves (dbv w) (dbv (snd (redeem_consume sv now jti c sid w)))"
  using db_call_evolves' [of sv "ActivateSession sid" "invalidate sv c w"]
  by (cases "db_call sv (ActivateSession sid) (invalidate sv c w)")
     (simp add: redeem_consume_def split: sum.split)

lemma redeem_loaded_evolves:
  assumes "sv_db sv = pg"
  shows "evolves (dbv w) (dbv (snd (redeem_loaded sv now jti c pin raw w)))"
proof -
  have d: "w_db w1 = w_db w" if "redis_call sv [INCR (attemptsKey c)] w = (x, w1)" for x w1
    using redis_call_db [of sv "[INCR (attemptsKey c)]" w] that by simp
  show ?thesis
    using redeem_consume_evolves [OF assms]
    by (auto simp: redeem_loaded_def Let_def evolves_same d
        split: prod.split sum.split list.split redis_reply.split)
       (metis d redis_call_db)+
qed

end

context pg_service
begin

lemma Redeem_evolves:
  assumes "sv_db sv = pg"
  shows "evolves (dbv w) (dbv (snd (Redeem sv now jti c pin w)))"
proof -
  obtain x w1 where g: "redis_call sv [GET (tokenKey c)] w = (x, w1)" by fastforce
  have d: "w_db w1 = w_db w" using redis_call_db [of sv "[GET (tokenKey c)]" w] g by simp
  have "evolves (dbv w) (dbv w1)" by (simp add: d evolves_same)
  moreover have "evolves (dbv w) (dbv (snd (redeem_loaded sv now jti c pin raw w1)))" for raw
    using redeem_loaded_evolves [OF assms, of w1] d by simp
  ultimately show ?thesis
    by (simp add: Redeem_def g split: sum.split list.split redis_reply.split)
qed

lemma MarkEnded_evolves:
  "sv_db sv = pg \<Longrightarrow> evolves (dbv w) (dbv (snd (MarkEnded sv sid w)))"
  using db_call_evolves' [of sv "EndSession sid" w]
  by (cases "db_call sv (EndSession sid) w") (simp add: MarkEnded_def split: sum.split)

lemma ExpireStalePending_evolves:
  "sv_db sv = pg \<Longrightarrow> evolves (dbv w) (dbv (snd (ExpireStalePending sv now d w)))"
  using db_call_evolves' [of sv "ExpirePending (now + int64 (- d))" w]
  by (cases "db_call sv (ExpirePending (now + int64 (- d))) w")
     (simp add: ExpireStalePending_def split: sum.split pg_reply.split)

text \<open>The rows a statement of the form \<open>UPDATE sessions\<close> leaves behind, whatever happens to it.\<close>

lemma ExpireStalePending_rows:
  assumes "sv_db sv = pg"
  shows "db_sessions (dbv (snd (ExpireStalePending sv now d w))) = db_sessions (dbv w) \<or>
    db_sessions (dbv (snd (ExpireStalePending sv now d w))) = map (\<lambda>r. if sr_status r = Pending \<and> sr_created r < now + int64 (- d)
      then r\<lparr>sr_status := Expired\<rparr> else r) (db_sessions (dbv w))"
proof -
  obtain x w1 where c: "db_call sv (ExpirePending (now + int64 (- d))) w = (x, w1)" by fastforce
  then have w1: "snd (ExpireStalePending sv now d w) = w1"
    by (simp add: ExpireStalePending_def split: sum.split pg_reply.split)
  have "pg (ExpirePending (now + int64 (- d))) (w_db w) = (x, w_db w1)"
    using assms c by (auto simp: db_call_def split: prod.splits)
  then show ?thesis
    unfolding w1
    by (rule pg_cases) (simp_all add: sql_expire_pending_def sql_update_def)
qed

lemma MarkEnded_rows:
  assumes "sv_db sv = pg" and "MarkEnded sv sid w = (Inr (), w1)"
  shows "\<exists>t. db_sessions (dbv w1) = map (end_row sid t) (db_sessions (dbv w))"
proof -
  obtain rep where "pg (EndSession sid) (w_db w) = (Inr rep, w_db w1)"
    using assms by (auto simp: MarkEnded_def db_call_def split: prod.splits sum.splits)
  from pg_ok [OF this] obtain t where
    "sql_end_session sid ((dbv w)\<lparr>db_clock := t\<rparr>) = (rep, dbv w1)" by auto
  then have "db_sessions (dbv w1) = map (end_row sid t) (db_sessions (dbv w))"
    unfolding end_row_def [abs_def]
    by (auto simp: sql_end_session_def sql_update_def dest!: arg_cong [where f = db_sessions])
  then show ?thesis ..
qed

end

section \<open>Theorems\<close>

text \<open>
  Sessions only move forward. Whatever fails on the way, no operation of the service loses a
  session row, changes its owner or its connect id, or takes it back: pending may become active,
  ended or expired, active may become ended, and ended and expired are final.
\<close>

theorem sessions_never_regress:
  assumes "pg_service (sv_db sv) view"
  shows "evolves (view (w_db w)) (view (w_db (snd (snd (Mint sv now jti org agent tp w))))) \<and>
    evolves (view (w_db w)) (view (w_db (snd (Redeem sv now jti c pin w)))) \<and>
    evolves (view (w_db w)) (view (w_db (snd (MarkEnded sv sid w)))) \<and>
    evolves (view (w_db w)) (view (w_db (snd (ExpireStalePending sv t d w))))"
proof -
  note pg = pg_service.Mint_evolves [OF assms refl] pg_service.Redeem_evolves [OF assms refl]
    pg_service.MarkEnded_evolves [OF assms refl] pg_service.ExpireStalePending_evolves [OF assms refl]
  obtain x tp' w' where m: "Mint sv now jti org agent tp w = (x, tp', w')" by (metis surj_pair)
  from pg(1) [OF m] m pg(2-) show ?thesis by simp
qed

theorem sessions_never_regress_witness:
  "evolves (pg_db (w_db demo_world)) (pg_db (w_db (snd (snd (Mint demo_sv (\<lambda>_. 0) ''j'' 7 8 demo_tape demo_world))))) \<and>
   evolves (pg_db (w_db demo_world)) (pg_db (w_db (snd (Redeem demo_sv (\<lambda>_. 0) ''j'' ''9'' ''000000'' demo_world)))) \<and>
   evolves (pg_db (w_db demo_world)) (pg_db (w_db (snd (MarkEnded demo_sv 1 demo_world)))) \<and>
   evolves (pg_db (w_db demo_world)) (pg_db (w_db (snd (ExpireStalePending demo_sv 0 Minute demo_world))))"
proof -
  have "pg_service (sv_db demo_sv) pg_db" using simpg.pg_service_axioms by simp
  then show ?thesis by (rule sessions_never_regress)
qed

text \<open>
  The sweeper only expires what is stale. A sweep at time \<open>now\<close> either changes
  nothing (the statement was lost) or expires exactly the pending rows created more than twice the
  lifetime of a connection token before, in their status only. (The cutoff is computed in 64 bits:
  lifetimes beyond 146 years would wrap around.)
\<close>

lemma sweep_rows:
  assumes "pg_service (sv_db sv) view" and "\<bar>sv_ttl sv\<bar> < 2 ^ 62"
  shows "db_sessions (view (w_db (sweep_tick sv now w))) = db_sessions (view (w_db w)) \<or>
    db_sessions (view (w_db (sweep_tick sv now w))) =
      map (\<lambda>r. if sr_status r = Pending \<and> sr_created r < now - 2 * sv_ttl sv
        then r\<lparr>sr_status := Expired\<rparr> else r) (db_sessions (view (w_db w)))"
proof -
  have "in_int64 (2 * sv_ttl sv)" "in_int64 (- (2 * sv_ttl sv))" using assms(2) by (auto simp: int64_bounds)
  then show ?thesis
    using pg_service.ExpireStalePending_rows [OF assms(1) refl, of now "2 * sv_ttl sv" w]
    by (simp add: sweep_tick_def cutoffMultiplier_def int64_id)
qed

text \<open>
  Ending a session. When \<open>MarkEnded\<close> succeeds, exactly the active rows of that session have
  become ended, at the server's time, and no row of it is active any more; calling it again changes
  no row.
\<close>

theorem mark_ended_exact:
  assumes "pg_service (sv_db sv) view" and "MarkEnded sv sid w = (Inr (), w1)" and "MarkEnded sv sid w1 = (Inr (), w2)"
  shows "(\<exists>t. db_sessions (view (w_db w1)) = map (\<lambda>r. if sr_id r = sid \<and> sr_status r = Active
       then r\<lparr>sr_status := Ended, sr_ended := Some t\<rparr> else r) (db_sessions (view (w_db w)))) \<and>
    \<not> list_ex (\<lambda>r. sr_id r = sid \<and> sr_status r = Active) (db_sessions (view (w_db w1))) \<and>
    db_sessions (view (w_db w2)) = db_sessions (view (w_db w1))"
proof -
  from pg_service.MarkEnded_rows [OF assms(1) refl assms(2)]
  obtain t where one: "db_sessions (view (w_db w1)) = map (end_row sid t) (db_sessions (view (w_db w)))" ..
  from pg_service.MarkEnded_rows [OF assms(1) refl assms(3)]
  obtain t' where two: "db_sessions (view (w_db w2)) = map (end_row sid t') (db_sessions (view (w_db w1)))" ..
  have "db_sessions (view (w_db w2)) = db_sessions (view (w_db w1))"
    unfolding two one by simp
  moreover have "\<not> list_ex (\<lambda>r. sr_id r = sid \<and> sr_status r = Active) (db_sessions (view (w_db w1)))"
    unfolding one using end_row_not_active by (auto simp: list_ex_iff)
  ultimately show ?thesis using one unfolding end_row_def by blast
qed

definition demo_active :: "(keyspace, pgsim) world" where
  "demo_active = demo_world\<lparr>w_db := \<lparr>pg_db = demo_db\<lparr>db_sessions :=
     [\<lparr>sr_id = 1, sr_org = 7, sr_agent = 8, sr_connect = ''9'', sr_status = Active, sr_created = 0,
       sr_connected = Some 1, sr_ended = None\<rparr>]\<rparr>, pg_supply = 3, pg_plan = []\<rparr>\<rparr>"

theorem mark_ended_exact_witness:
  "\<exists>w1 w2. MarkEnded demo_sv 1 demo_active = (Inr (), w1) \<and> MarkEnded demo_sv 1 w1 = (Inr (), w2) \<and>
     \<not> list_ex (\<lambda>r. sr_id r = 1 \<and> sr_status r = Active) (db_sessions (pg_db (w_db w1))) \<and>
     db_sessions (pg_db (w_db w2)) = db_sessions (pg_db (w_db w1))"
proof -
  have ok: "\<exists>w'. MarkEnded demo_sv 1 w = (Inr (), w') \<and> pg_plan (w_db w') = []"
    if "pg_plan (w_db w) = []" for w :: "(keyspace, pgsim) world"
    using that by (simp add: MarkEnded_def db_call_def sim_pg_def sql_end_session_def sql_update_def pg_fail_def Let_def)
  obtain w1 where w1: "MarkEnded demo_sv 1 demo_active = (Inr (), w1)" "pg_plan (w_db w1) = []"
    using ok [of demo_active] by (auto simp: demo_active_def)
  obtain w2 where w2: "MarkEnded demo_sv 1 w1 = (Inr (), w2)" using ok [OF w1(2)] by blast
  have "pg_service (sv_db demo_sv) pg_db" using simpg.pg_service_axioms by simp
  from mark_ended_exact [OF this w1(1) w2] w1(1) w2 show ?thesis by blast
qed

end
