(* ===== verification/Server.thy ===== *)
theory Server
  imports Bodies Config Migrations S3_Presign Cluster Session_Status
begin

text \<open>
  Putting the server together (\<open>cmd/server/main.go\<close>, \<open>cmd/signaling-dev/main.go\<close>): from the
  environment to the handler that \<open>Router\<close> and \<open>Bodies\<close> describe, every early return of \<open>run\<close>
  included. The libraries are the record \<open>packages\<close>; what the outside world answers while the
  process starts and ends (connecting, listening, shutting down) is the record \<open>boot\<close>. The presigner
  reads the clock, so the dependencies are a function of the time of the request.
\<close>

section \<open>Constructors\<close>

record ('r, 'd, 'ip, 'net) packages =
  pk_frac :: "nat \<Rightarrow> nat \<Rightarrow> nat \<Rightarrow> nat"
  pk_jwt :: jwt_pkg
  pk_uuid :: uuid_pkg
  pk_net :: "('ip, 'net) net_pkg"
  pk_argon2 :: argon2
  pk_sha256 :: "string \<Rightarrow> string"
  pk_hmac_sha256 :: "string \<Rightarrow> string \<Rightarrow> string"
  pk_hmac_sha1 :: "string \<Rightarrow> string \<Rightarrow> string"
  pk_pg :: "'d pg_client"
  pk_redis :: "'r redis_client"
  pk_mig :: "'d mig_client"
  pk_fs :: embed_FS

text \<open>\<open>Ident\<close> joins the service and its handlers: the service is still without an issuer.\<close>

definition identity_NewService :: "('r, 'd, 'ip, 'net) packages \<Rightarrow> Issuer \<Rightarrow> 'd Ident" where
  "identity_NewService pk issuer = \<lparr>id_db = pk_pg pk, id_argon2 = pk_argon2 pk, id_jwt = pk_jwt pk,
     id_uuid = pk_uuid pk, id_issuer = issuer\<rparr>"

definition identity_NewHandlers :: "(Issuer \<Rightarrow> 'd Ident) \<Rightarrow> Issuer \<Rightarrow> 'd Ident" where
  "identity_NewHandlers svc issuer = svc issuer"

definition session_NewService :: "('r, 'd, 'ip, 'net) packages \<Rightarrow> Minter \<Rightarrow> Issuer \<Rightarrow> duration \<Rightarrow> ('r, 'd) Service" where
  "session_NewService pk minter issuer ttl = \<lparr>sv_db = pk_pg pk, sv_redis = pk_redis pk, sv_turn = minter,
     sv_issuer = issuer, sv_ttl = ttl, sv_jwt = pk_jwt pk, sv_uuid = pk_uuid pk, sv_sha256 = pk_sha256 pk,
     sv_hmac_sha1 = pk_hmac_sha1 pk\<rparr>"

definition recordings_NewService :: "('r, 'd, 'ip, 'net) packages \<Rightarrow> presigner \<Rightarrow> duration \<Rightarrow> 'd Recs" where
  "recordings_NewService pk presign ttl =
     \<lparr>rc_db = pk_pg pk, rc_presigner = presign, rc_urlTTL = ttl, rc_uuid = pk_uuid pk\<rparr>"

definition ratelimit_New :: "int \<Rightarrow> duration \<Rightarrow> 'net TrustedProxies \<Rightarrow> 'net Limiter" where
  "ratelimit_New limit window trusted = \<lparr>lm_max = limit, lm_window = window, lm_trusted = trusted\<rparr>"

definition NewRedisPresence :: "'r redis_client \<Rightarrow> duration \<Rightarrow> 'r presence_ops" where
  "NewRedisPresence rdb ttl = \<lparr>op_Join = RedisPresence_Join rdb ttl, op_Leave = RedisPresence_Leave rdb\<rparr>"

text \<open>
  The relay of this instance: its hub in process, or its fanout and its presence operations over
  Redis, where the shared state is that of \<open>Cluster\<close>.
\<close>

datatype 'r relay = InProcess "LocalPresence hub" | OverRedis RedisFanout "'r presence_ops"

record 'r signaling_handler =
  hn_hub :: "'r relay"
  hn_auth :: "(time \<Rightarrow> Authorizer) option"

definition NewHandler :: "'r relay \<Rightarrow> (time \<Rightarrow> Authorizer) option \<Rightarrow> 'r signaling_handler" where
  "NewHandler hub auth = \<lparr>hn_hub = hub, hn_auth = auth\<rparr>"

section \<open>run\<close>

definition choose_hub :: "('r, 'd, 'ip, 'net) packages \<Rightarrow> Config \<Rightarrow> 'r relay" where
  "choose_hub pk cfg =
     (if cf_SignalingFanout cfg = ''redis''
      then OverRedis (RedisFanout_Start NewRedisFanout) (NewRedisPresence (pk_redis pk) (cf_SignalingTokenTTL cfg))
      else InProcess (OnRoomEnded NewHub))"

definition build_recordings :: "('r, 'd, 'ip, 'net) packages \<Rightarrow> Config \<Rightarrow> (time \<Rightarrow> 'd Recs) option res" where
  "build_recordings pk cfg =
     (if RecordingsEnabled cfg then
        (case NewS3Presigner (cf_S3Endpoint cfg) (cf_S3AccessKey cfg) (cf_S3SecretKey cfg) (cf_S3Bucket cfg)
            (cf_S3Region cfg) (cf_S3UseSSL cfg) of
           Inl e \<Rightarrow> Inl (ErrWrap ''object storage'' e)
         | Inr p \<Rightarrow> Inr (Some (\<lambda>now. recordings_NewService pk
             (PresignPut (pk_sha256 pk) (pk_hmac_sha256 pk) p now) (cf_RecordingURLTTL cfg))))
      else Inr None)"

record ('r, 'd, 'ip, 'net) server =
  sr_Addr :: string
  sr_ReadHeaderTimeout :: duration
  sr_deps :: "time \<Rightarrow> ('r, 'd, 'ip, 'net) Deps"
  sr_handler :: "'r signaling_handler"

definition server_issuer :: "Config \<Rightarrow> Issuer" where
  "server_issuer cfg = NewIssuer (cf_JWTSecret cfg) (cf_AccessTokenTTL cfg) (cf_RefreshTokenTTL cfg) (cf_SignalingTokenTTL cfg)"

definition build :: "('r, 'd, 'ip, 'net) packages \<Rightarrow> Config \<Rightarrow> ('r, 'd, 'ip, 'net) server res" where
  "build pk cfg =
     (let issuer = server_issuer cfg;
          turnMinter = NewMinter (cf_TURNSecret cfg) (cf_TURNURLs cfg) (cf_TURNCredTTL cfg)
      in case ParseTrustedProxies (pk_net pk) (cf_TrustedProxyCIDRs cfg) of
           Inl e \<Rightarrow> Inl (ErrWrap ''TRUSTED_PROXY_CIDRS'' e)
         | Inr trusted \<Rightarrow>
             (let identitySvc = identity_NewService pk;
                  sessionSvc = session_NewService pk turnMinter issuer (cf_SessionTokenTTL cfg);
                  handler = NewHandler (choose_hub pk cfg) (Some (signalingAuth (pk_jwt pk) issuer))
              in case build_recordings pk cfg of
                   Inl e \<Rightarrow> Inl e
                 | Inr recordings \<Rightarrow> Inr \<lparr>
                     sr_Addr = cf_HTTPAddr cfg,
                     sr_ReadHeaderTimeout = 10 * Second,
                     sr_deps = (\<lambda>now. \<lparr>
                       dp_Identity = identity_NewHandlers identitySvc issuer,
                       dp_Session = sessionSvc,
                       dp_Signaling = hn_auth handler,
                       dp_Issuer = issuer,
                       dp_Readiness = True,
                       dp_RegisterLimiter = Some (ratelimit_New 5 Minute trusted),
                       dp_AuthLimiter = Some (ratelimit_New 10 Minute trusted),
                       dp_RedeemLimiter = Some (ratelimit_New 20 Minute trusted),
                       dp_Recordings = map_option (\<lambda>f. f now) recordings,
                       dp_net = pk_net pk\<rparr>),
                     sr_handler = handler\<rparr>))"

record boot =
  bo_env :: env
  bo_pgNew :: "string \<Rightarrow> unit res"
  bo_pgPing :: "unit res"
  bo_redisURL :: "string \<Rightarrow> unit res"
  bo_redisPing :: "unit res"
  bo_listen :: "go_error option"
  bo_shutdown :: "unit res"

text \<open>The final \<open>select\<close>: the listener fails, or a signal arrives and the server is shut down.\<close>

definition serve_until :: "boot \<Rightarrow> unit res" where
  "serve_until bo = (case bo_listen bo of Some e \<Rightarrow> Inl e | None \<Rightarrow> bo_shutdown bo)"

text \<open>
  The result of \<open>run\<close>, the server if one was started, the connections that are open when \<open>run\<close>
  returns, and the database as the server finds it.
\<close>

definition run ::
  "('r, 'd, 'ip, 'net) packages \<Rightarrow> boot \<Rightarrow> 'd \<Rightarrow> unit res \<times> ('r, 'd, 'ip, 'net) server option \<times> Handles \<times> 'd" where
  "run pk bo d =
     (case Load (pk_frac pk) (bo_env bo) of
        Inl e \<Rightarrow> (Inl e, None, \<lparr>hd_DB = False, hd_Redis = False\<rparr>, d)
      | Inr cfg \<Rightarrow>
          (case Open (bo_pgNew bo (cf_DatabaseURL cfg)) (bo_pgPing bo) (bo_redisURL bo (cf_RedisURL cfg)) (bo_redisPing bo) of
             (Inl e, h) \<Rightarrow> (Inl e, None, h, d)
           | (Inr st, h) \<Rightarrow>
               (case Migrate (pk_mig pk) (pk_fs pk) d of
                  (Inl e, d1) \<Rightarrow> (Inl e, None, Store_Close st, d1)
                | (Inr _, d1) \<Rightarrow>
                    (case build pk cfg of
                       Inl e \<Rightarrow> (Inl e, None, Store_Close st, d1)
                     | Inr srv \<Rightarrow> (serve_until bo, Some srv, Store_Close st, d1)))))"

text \<open>The exit status of the process.\<close>

definition main_exit :: "unit res \<Rightarrow> nat" where
  "main_exit r = (case r of Inl e \<Rightarrow> 1 | Inr _ \<Rightarrow> 0)"

section \<open>Background loops\<close>

text \<open>The two tickers of \<open>run\<close>: each turn takes the next event of its \<open>select\<close>.\<close>

datatype 'a tick = TickerC 'a | CtxDone

definition sampleInterval :: duration where
  "sampleInterval = 15 * Second"

fun sampleRooms :: "'s hub tick list \<Rightarrow> nat \<Rightarrow> nat" where
  "sampleRooms [] gauge = gauge"
| "sampleRooms (CtxDone # es) gauge = gauge"
| "sampleRooms (TickerC hub # es) gauge = sampleRooms es (RoomCount hub)"

definition sweepInterval :: duration where
  "sweepInterval = 5 * Minute"

fun sweepStalePendingSessions :: "('r, 'd) Service \<Rightarrow> time tick list \<Rightarrow> ('r, 'd) world \<Rightarrow> ('r, 'd) world" where
  "sweepStalePendingSessions svc [] w = w"
| "sweepStalePendingSessions svc (CtxDone # es) w = w"
| "sweepStalePendingSessions svc (TickerC now # es) w = sweepStalePendingSessions svc es (sweep_tick svc now w)"

section \<open>The development relay\<close>

definition dev_addr :: "env \<Rightarrow> string" where
  "dev_addr env = (let addr = (case env ''HTTP_ADDR'' of None \<Rightarrow> '''' | Some v \<Rightarrow> v)
     in if addr = '''' then '':8081'' else addr)"

definition dev_handler :: "'r signaling_handler" where
  "dev_handler = NewHandler (InProcess NewHub) None"

definition dev_routes :: "(string \<times> string \<times> route) list" where
  "dev_routes = [(''GET'', ''/healthz'', Healthz), (''GET'', ''/v1/signaling'', SignalingR)]"

definition dev_ServeHTTP :: "uuid_pkg \<Rightarrow> time \<Rightarrow> response option \<Rightarrow> request \<Rightarrow> response" where
  "dev_ServeHTTP up now upgrade r =
     (let path = (if rq_method r = ''CONNECT'' then rq_path r else cleanPath (rq_path r))
      in if path \<noteq> rq_path r then http_Text 301 ''''
         else case List.find (\<lambda>(pm, pat, rt). method_ok pm (rq_method r) \<and> match_path pat path \<noteq> None) dev_routes of
           Some (pm, pat, rt) \<Rightarrow>
             if rt = Healthz then http_Text StatusOK ''ok''
             else (case ServeWS_admit up (map_option (\<lambda>auth. auth now) (hn_auth (dev_handler :: unit signaling_handler))) r of
                     Inl resp \<Rightarrow> resp
                   | Inr _ \<Rightarrow> (case upgrade of Some err \<Rightarrow> err | None \<Rightarrow> no_response))
         | None \<Rightarrow> if list_ex (\<lambda>(pm, pat, rt). match_path pat path \<noteq> None) dev_routes
             then http_Error ''Method Not Allowed'' 405 else http_Error ''404 page not found'' StatusNotFound)"

section \<open>What starting guarantees\<close>

lemma Load_fields:
  assumes "Load frac env = Inr cfg"
  shows "cf_JWTSecret cfg = getenv env ''JWT_SECRET'' ''dev-insecure-secret-change-me''"
    and "cf_TrustedProxyCIDRs cfg = getenv env ''TRUSTED_PROXY_CIDRS'' ''''"
    and "cf_S3Endpoint cfg = getenv env ''S3_ENDPOINT'' ''''"
    and "cf_SignalingFanout cfg = getenv env ''SIGNALING_FANOUT'' ''local''"
    and "cf_HTTPAddr cfg = getenv env ''HTTP_ADDR'' '':8080''"
  using assms by (auto simp: Load_def Let_def base_config_def split: sum.splits)

lemma TrimSpace_Nil: "TrimSpace '''' = ''''"
  by code_simp

lemma getenv_nonempty: "dflt \<noteq> '''' \<Longrightarrow> getenv env key dflt \<noteq> ''''"
  by (simp add: getenv_def split: option.split)

lemma buildE:
  assumes "build pk cfg = Inr s"
  obtains trusted recordings where "ParseTrustedProxies (pk_net pk) (cf_TrustedProxyCIDRs cfg) = Inr trusted"
    "build_recordings pk cfg = Inr recordings"
    "\<And>now. dp_Recordings (sr_deps s now) = map_option (\<lambda>f. f now) recordings"
    "\<And>now. dp_Signaling (sr_deps s now) = Some (signalingAuth (pk_jwt pk) (server_issuer cfg))"
    "\<And>now. dp_Issuer (sr_deps s now) = server_issuer cfg"
    "\<And>now. dp_RegisterLimiter (sr_deps s now) = Some (ratelimit_New 5 Minute trusted)"
    "\<And>now. dp_AuthLimiter (sr_deps s now) = Some (ratelimit_New 10 Minute trusted)"
    "\<And>now. dp_RedeemLimiter (sr_deps s now) = Some (ratelimit_New 20 Minute trusted)"
    "\<And>now. dp_net (sr_deps s now) = pk_net pk"
    "sr_handler s = NewHandler (choose_hub pk cfg) (Some (signalingAuth (pk_jwt pk) (server_issuer cfg)))"
proof -
  obtain trusted recordings where t: "ParseTrustedProxies (pk_net pk) (cf_TrustedProxyCIDRs cfg) = Inr trusted"
    "build_recordings pk cfg = Inr recordings"
    using assms by (auto simp: build_def Let_def split: sum.splits)
  show thesis by (rule that [OF t]) (use assms t in \<open>auto simp: build_def Let_def NewHandler_def\<close>)
qed

text \<open>
  C7: the life of the process. However starting and ending goes, \<open>run\<close> returns with both
  connections closed. A server is only started on a database in which every migration file of the
  binary is recorded, each applied once and in order; when the configuration, a connection, a
  migration, the proxy list or the object storage settings are refused, none is started and the exit
  status is 1.
\<close>

theorem run_starts_on_migrated_schema:
  assumes "run pk bo d = (res, srv, h, d')"
    and "migration_db (pk_mig pk) vw run_sql" and "mig_ok run_sql (pk_fs pk) s0 (vw d)"
    and "fs_ReadDir (pk_fs pk) ''migrations'' = Inr entries" and "distinct (map fst entries)"
  shows "\<not> hd_DB h \<and> \<not> hd_Redis h \<and> mig_ok run_sql (pk_fs pk) s0 (vw d') \<and>
    (case srv of
       None \<Rightarrow> main_exit res = 1
     | Some s \<Rightarrow> set (migration_names entries) \<subseteq> set (md_versions (vw d')) \<and> res = serve_until bo \<and>
         (\<exists>cfg. Load (pk_frac pk) (bo_env bo) = Inr cfg \<and> build pk cfg = Inr s))"
proof (cases "Load (pk_frac pk) (bo_env bo)")
  case (Inl e)
  then show ?thesis using assms(1,3) by (auto simp: run_def main_exit_def)
next
  case (Inr cfg)
  let ?O = "Open (bo_pgNew bo (cf_DatabaseURL cfg)) (bo_pgPing bo) (bo_redisURL bo (cf_RedisURL cfg)) (bo_redisPing bo)"
  obtain o1 o2 where o: "?O = (o1, o2)" by fastforce
  have leak: "case ?O of (Inl e, h) \<Rightarrow> \<not> hd_DB h \<and> \<not> hd_Redis h
      | (Inr s, h) \<Rightarrow> s = h \<and> hd_DB h \<and> hd_Redis h \<and> Store_Close h = \<lparr>hd_DB = False, hd_Redis = False\<rparr>"
    by (rule Open_no_leak)
  obtain m d1 where m: "Migrate (pk_mig pk) (pk_fs pk) d = (m, d1)" by fastforce
  from migration_db.Migrate_effect [OF assms(2,3) m assms(4,5)] obtain k where ok: "mig_ok run_sql (pk_fs pk) s0 (vw d1)"
    and k: "md_versions (vw d1) = md_versions (vw d) @ take k (pending (md_versions (vw d)) (migration_names entries))"
    "m = Inr () \<longrightarrow> length (pending (md_versions (vw d)) (migration_names entries)) \<le> k" by blast
  have all: "set (migration_names entries) \<subseteq> set (md_versions (vw d1))" if "m = Inr ()"
    using k that by (auto simp: pending_def)
  show ?thesis
  proof (cases o1)
    case (Inl e)
    then show ?thesis using assms(1,3) Inr o leak by (auto simp: run_def main_exit_def)
  next
    case I: (Inr st)
    show ?thesis
      using assms(1) Inr o I leak m ok all
      by (cases m; cases "build pk cfg") (auto simp: run_def main_exit_def)
  qed
qed


definition demo_pk :: "(keyspace, string list migsim, nat, nat) packages" where
  "demo_pk = \<lparr>pk_frac = (\<lambda>f u s. f * u div s), pk_jwt = ref_jwt, pk_uuid = dec_uuid, pk_net = demo_net, pk_argon2 = id_argon2 demo_id,
     pk_sha256 = (\<lambda>s. s), pk_hmac_sha256 = (\<lambda>k s. k @ s), pk_hmac_sha1 = (\<lambda>k s. k @ s),
     pk_pg = (\<lambda>q d. (Inl (ErrExt ''conn closed''), d)), pk_redis = ref_exec, pk_mig = sim_mig demo_mig_run, pk_fs = demo_fs\<rparr>"

definition demo_boot :: boot where
  "demo_boot = \<lparr>bo_env = (\<lambda>_. None)(''SIGNALING_FANOUT'' := Some ''redis''),
     bo_pgNew = (\<lambda>_. Inr ()), bo_pgPing = Inr (), bo_redisURL = (\<lambda>_. Inr ()), bo_redisPing = Inr (),
     bo_listen = None, bo_shutdown = Inr ()\<rparr>"

definition demo_fresh :: "string list migsim" where
  "demo_fresh = \<lparr>ms_db = \<lparr>md_schema = [], md_table = False, md_versions = [], md_tx = None\<rparr>, ms_plan = []\<rparr>"

lemma demo_run: "\<not> Option.is_none (fst (snd (run demo_pk demo_boot demo_fresh)))"
  by code_simp

theorem run_starts_on_migrated_schema_witness:
  "\<exists>res s h d. run demo_pk demo_boot demo_fresh = (res, Some s, h, d) \<and> \<not> hd_DB h \<and> \<not> hd_Redis h \<and>
     set [''0001_a.sql'', ''0002_b.sql''] \<subseteq> set (md_versions (ms_db d))"
proof -
  obtain res srv h d where r: "run demo_pk demo_boot demo_fresh = (res, srv, h, d)" by (metis surj_pair)
  with demo_run obtain s where s: "srv = Some s" by (cases srv) auto
  let ?es = "[(''0002_b.sql'', False), (''README'', False), (''old.sql'', True), (''0001_a.sql'', False)]"
  have mig: "migration_db (pk_mig demo_pk) ms_db demo_mig_run" by (simp add: demo_pk_def simmig.migration_db_axioms)
  have ok: "mig_ok demo_mig_run (pk_fs demo_pk) [] (ms_db demo_fresh)" by (simp add: mig_ok_def demo_fresh_def)
  have dir: "fs_ReadDir (pk_fs demo_pk) ''migrations'' = Inr ?es" by (simp add: demo_pk_def demo_fs_def)
  have names: "migration_names ?es = [''0001_a.sql'', ''0002_b.sql'']" by code_simp
  from run_starts_on_migrated_schema [OF r mig ok dir] s r names show ?thesis by auto
qed


text \<open>The presence operations of a server over Redis are those the cluster theorems are about.\<close>

lemma redis_ops_NewRedisPresence: "redis_ops = NewRedisPresence ref_exec defaultSignalingTTL"
  by (simp add: redis_ops_def NewRedisPresence_def)

text \<open>The development relay admits every well-formed request.\<close>

lemma dev_admits_anyone:
  assumes "uuid_Parse up (Query_Get r ''room'') \<noteq> None" and "Query_Get r ''role'' \<in> {RoleAgent, RolePhone}"
    and "rq_method r = ''GET''" and "rq_path r = ''/v1/signaling''"
  shows "dev_ServeHTTP up now None r = no_response"
proof -
  have p: "cleanPath ''/v1/signaling'' = ''/v1/signaling''" "match_path ''/healthz'' ''/v1/signaling'' = None"
    "match_path ''/v1/signaling'' ''/v1/signaling'' = Some []" by code_simp+
  have "ServeWS_admit up None r = Inr (Query_Get r ''room'', Query_Get r ''role'')"
    using assms(1,2) by (simp add: ServeWS_admit_iff)
  with p show ?thesis
    by (simp add: dev_ServeHTTP_def assms(3,4) dev_routes_def method_ok_def dev_handler_def NewHandler_def)
qed

section \<open>The sweeper\<close>

fun tick_times :: "time tick list \<Rightarrow> time list" where
  "tick_times [] = []"
| "tick_times (CtxDone # es) = []"
| "tick_times (TickerC now # es) = now # tick_times es"

definition swept :: "duration \<Rightarrow> time list \<Rightarrow> session_row \<Rightarrow> session_row \<Rightarrow> bool" where
  "swept ttl ts r r' \<longleftrightarrow> r' = r \<or>
     sr_status r = Pending \<and> r' = r\<lparr>sr_status := Expired\<rparr> \<and> list_ex (\<lambda>now. sr_created r < now - 2 * ttl) ts"

text \<open>
  Over the whole life of the server the sweeper loop only ever expires pending sessions, each of them
  more than two token lifetimes old at some tick, and touches nothing else of any row.
\<close>

lemma sweep_loop_rows:
  assumes "pg_service (sv_db sv) vw" and "\<bar>sv_ttl sv\<bar> < 2 ^ 62"
  shows "list_all2 (swept (sv_ttl sv) (tick_times es)) (db_sessions (vw (w_db w)))
    (db_sessions (vw (w_db (sweepStalePendingSessions sv es w))))"
proof (induction es arbitrary: w rule: tick_times.induct)
  case (3 now es)
  let ?w = "sweep_tick sv now w" and ?ttl = "sv_ttl sv"
  let ?rows = "\<lambda>w. db_sessions (vw (w_db w))"
  have step: "list_all2 (swept ?ttl [now]) (?rows w) (?rows ?w)"
  proof -
    from sweep_rows [OF assms, of now w] show ?thesis
      by (auto simp: swept_def list_all2_conv_all_nth split: if_splits)
  qed
  have comb: "swept ?ttl (now # tick_times es) r r''"
    if "swept ?ttl [now] r r'" "swept ?ttl (tick_times es) r' r''" for r r' r''
    using that by (auto simp: swept_def)
  from list_all2_trans [of "swept ?ttl [now]" "swept ?ttl (tick_times es)", OF comb step 3] show ?case by simp
qed (simp_all add: swept_def list.rel_refl_strong)

end
