(* ===== verification/Whole_Server.thy ===== *)
theory Whole_Server
  imports Server
begin

text \<open>
  The whole server over time: requests to the surface of \<open>Router\<close>, ticks of the sweeper and the
  room-ended callback of the hub, one after the other and in any order, on the dependencies that \<open>run\<close>
  built. What each component guarantees for its own tables holds under all the others.
\<close>

section \<open>Sequences of statements\<close>

inductive runs :: "'d pg_client \<Rightarrow> (pg_stmt \<Rightarrow> bool) \<Rightarrow> 'd \<Rightarrow> 'd \<Rightarrow> bool" for pg P where
  runs_refl [intro!, simp]: "runs pg P d d"
| runs_step: "runs pg P d d1 \<Longrightarrow> P q \<Longrightarrow> pg q d1 = (x, d2) \<Longrightarrow> runs pg P d d2"

lemma runs_one: "pg q d = (x, d') \<Longrightarrow> P q \<Longrightarrow> runs pg P d d'"
  using runs_step [OF runs_refl] by metis

lemma runs_trans: "runs pg P d e \<Longrightarrow> runs pg P d' d \<Longrightarrow> runs pg P d' e"
  by (induction rule: runs.induct) (auto intro: runs_step)

lemma runs_mono: "runs pg P d e \<Longrightarrow> (\<And>q. P q \<Longrightarrow> Q q) \<Longrightarrow> runs pg Q d e"
  by (induction rule: runs.induct) (auto intro: runs_step)

text \<open>The statements of the three services.\<close>

fun session_stmt :: "pg_stmt \<Rightarrow> bool" where
  "session_stmt (InsertSession _ _ _) = True"
| "session_stmt (DeleteSession _) = True"
| "session_stmt (ActivateSession _) = True"
| "session_stmt (EndSession _) = True"
| "session_stmt (ExpirePending _) = True"
| "session_stmt _ = False"

fun recording_stmt :: "pg_stmt \<Rightarrow> bool" where
  "recording_stmt (InsertRecording _ _ _ _ _) = True"
| "recording_stmt (CompleteRecording _ _ _) = True"
| "recording_stmt (SessionInOrg _ _) = True"
| "recording_stmt (SelectRecordings _ _) = True"
| "recording_stmt _ = False"

definition identity_stmt :: "pg_stmt \<Rightarrow> bool" where
  "identity_stmt q \<longleftrightarrow> \<not> session_stmt q \<and> \<not> recording_stmt q \<and> good_stmt q"

lemma stmt_good: "session_stmt q \<or> recording_stmt q \<or> identity_stmt q \<Longrightarrow> good_stmt q"
  by (cases q) (auto simp: identity_stmt_def good_stmt_def)

lemma id_serve_runs: "runs (id_db s) identity_stmt d (snd (id_serve s op d))"
proof -
  have "op_stmt s op q \<Longrightarrow> identity_stmt q" for q
    using op_stmt_good [of s op q] by (cases op) (auto simp: op_stmt_def identity_stmt_def)
  with serve_ran [of s op d] show ?thesis by (auto simp: ran_def intro: runs_one)
qed

lemma db_call_runs: "db_call sv q w = (x, w') \<Longrightarrow> session_stmt q \<Longrightarrow> runs (sv_db sv) session_stmt (w_db w) (w_db w')"
  by (auto simp: db_call_def split: prod.splits intro: runs_one)

lemma redis_call_same: "redis_call sv cs w = (x, w') \<Longrightarrow> w_db w' = w_db w"
  using redis_call_db [of sv cs w] by simp

lemma mint_loop_runs:
  "mint_loop sv now jti org agent pin n tp w = (x, tp', w') \<Longrightarrow> runs (sv_db sv) session_stmt (w_db w) (w_db w')"
proof (induction n arbitrary: tp w)
  case (Suc n)
  obtain rd tp1 where rd: "randomDigits connectIDDigits tp = (rd, tp1)" by fastforce
  show ?case
  proof (cases rd)
    case (Inl e)
    with Suc.prems rd show ?thesis by simp
  next
    case (Inr c)
    obtain y w1 where i: "db_call sv (InsertSession org agent c) w = (y, w1)" by fastforce
    have r1: "runs (sv_db sv) session_stmt (w_db w) (w_db w1)" by (rule db_call_runs [OF i]) simp
    show ?thesis
    proof (cases "\<exists>sid. y = Inr (PgId sid)")
      case False
      with Suc.prems rd Inr i r1 show ?thesis by (auto split: sum.splits pg_reply.splits)
    next
      case True
      then obtain sid where y: "y = Inr (PgId sid)" ..
      let ?set = "[SET_NX (tokenKey c) (marshal_tokenRecord (token_record sv sid org agent pin)) (sv_ttl sv)]"
      obtain z w2 where z: "redis_call sv ?set w1 = (z, w2)" by fastforce
      note same = redis_call_same [OF z]
      obtain v w3 where del: "db_call sv (DeleteSession sid) w2 = (v, w3)" by fastforce
      have r3: "runs (sv_db sv) session_stmt (w_db w) (w_db w3)"
        using runs_trans [OF db_call_runs [OF del] r1 [folded same]] by simp
      show ?thesis
      proof (cases "z = Inr [RBool False]")
        case True
        then have "mint_loop sv now jti org agent pin n tp1 w3 = (x, tp', w')"
          using Suc.prems rd Inr i y z del by simp
        from runs_trans [OF Suc.IH [OF this] r3] show ?thesis .
      next
        case False
        then have "w' = w2" using Suc.prems rd Inr i y z
          by (auto split: sum.splits list.splits redis_reply.splits if_splits)
        with r1 same show ?thesis by simp
      qed
    qed
  qed
qed simp

lemma Mint_runs: "runs (sv_db sv) session_stmt (w_db w) (w_db (snd (snd (Mint sv now jti org agent tp w))))"
proof -
  have "runs (sv_db sv) session_stmt (w_db w) (w_db (snd (snd (mint_loop sv now jti org agent pin 5 tp1 w))))" for pin tp1
    using mint_loop_runs [of sv now jti org agent pin 5 tp1 w] by (metis prod.collapse)
  then show ?thesis by (simp add: Mint_def split: prod.split sum.split)
qed

lemma redeem_consume_runs:
  "runs (sv_db sv) session_stmt (w_db w) (w_db (snd (redeem_consume sv now jti c sid w)))"
proof -
  obtain x w1 where a: "db_call sv (ActivateSession sid) (invalidate sv c w) = (x, w1)" by fastforce
  have "w_db (invalidate sv c w) = w_db w" by (simp add: invalidate_def redis_call_db)
  with db_call_runs [OF a] have "runs (sv_db sv) session_stmt (w_db w) (w_db w1)" by simp
  then show ?thesis by (simp add: redeem_consume_def a split: sum.split)
qed

lemma redeem_loaded_runs:
  "runs (sv_db sv) session_stmt (w_db w) (w_db (snd (redeem_loaded sv now jti c pin raw w)))"
proof -
  obtain x w1 where i: "redis_call sv [INCR (attemptsKey c)] w = (x, w1)" by fastforce
  let ?w2 = "\<lambda>n. if n = (1 :: int) then snd (redis_call sv [EXPIRE (attemptsKey c) (sv_ttl sv)] w1) else w1"
  have same: "w_db w1 = w_db w" "w_db (?w2 n) = w_db w" for n
    using redis_call_same [OF i] by (simp_all add: redis_call_db)
  have consume: "runs (sv_db sv) session_stmt (w_db w) (w_db (snd (redeem_consume sv now jti c sid (?w2 n))))" for sid n
    using redeem_consume_runs [of sv "?w2 n" now jti c sid] same(2) [of n] by simp
  have inv: "w_db (invalidate sv c (?w2 n)) = w_db w" for n
    using same(2) [of n] by (simp add: invalidate_def redis_call_db)
  show ?thesis
    unfolding redeem_loaded_def i prod.case Let_def
    using consume [of _ 1, simplified] consume [of _ 0, simplified] inv [of 1, simplified] inv [of 0, simplified] same(1) same(2) [of 1, simplified]
    by (auto split: sum.split list.split redis_reply.split)
qed

lemma Redeem_runs: "runs (sv_db sv) session_stmt (w_db w) (w_db (snd (Redeem sv now jti c pin w)))"
proof -
  obtain x w1 where g: "redis_call sv [GET (tokenKey c)] w = (x, w1)" by fastforce
  with redis_call_same [OF g] redeem_loaded_runs [of sv w1 now jti c pin] show ?thesis
    by (auto simp: Redeem_def split: sum.split list.split redis_reply.split)
qed

lemma MarkEnded_runs: "runs (sv_db sv) session_stmt (w_db w) (w_db (snd (MarkEnded sv sid w)))"
  by (cases "db_call sv (EndSession sid) w") (auto simp: MarkEnded_def split: sum.split intro: db_call_runs)

lemma ExpireStalePending_runs: "runs (sv_db sv) session_stmt (w_db w) (w_db (snd (ExpireStalePending sv now d w)))"
  by (cases "db_call sv (ExpirePending (now + int64 (- d))) w")
     (auto simp: ExpireStalePending_def split: sum.split pg_reply.split intro: db_call_runs)

lemma rec_serve_runs: "runs (rc_db s) recording_stmt d (snd (rec_serve s op d))"
proof -
  have l: "runs (rc_db s) recording_stmt d (snd (List s org sid d))" for org sid
    by (cases "rc_db s (SelectRecordings sid org) d") (auto simp: List_def split: sum.split pg_reply.split intro: runs_one)
  have c: "runs (rc_db s) recording_stmt d (snd (Complete s org rid sz d))" for org rid sz
    by (cases "rc_db s (CompleteRecording sz rid org) d") (auto simp: Complete_def split: sum.split pg_reply.split intro: runs_one)
  have u: "runs (rc_db s) recording_stmt d (snd (CreateUpload s rid org sid ct d))" for rid org sid ct
  proof -
    obtain x d1 where q: "rc_db s (SessionInOrg sid org) d = (x, d1)" by fastforce
    have r1: "runs (rc_db s) recording_stmt d d1" by (rule runs_one [where pg = "rc_db s", OF q]) simp
    moreover have "runs (rc_db s) recording_stmt d d2" if "rc_db s (InsertRecording rid sid org k ct') d1 = (y, d2)" for k ct' y d2
      by (rule runs_step [where pg = "rc_db s", OF r1 _ that]) simp
    ultimately show ?thesis by (auto simp: CreateUpload_def Let_def q split: sum.split pg_reply.split prod.split)
  qed
  show ?thesis
    using l c u
    by (cases op) (auto simp: handle_CreateUpload_def handle_Complete_def handle_List_def split: option.split sum.split prod.split; metis snd_conv)+
qed

section \<open>What every part keeps\<close>

definition goes_on :: "db \<Rightarrow> db \<Rightarrow> bool" where
  "goes_on d d' \<longleftrightarrow> (users_ok d \<longrightarrow> users_ok d' \<and> users_evolve d d') \<and> (recordings_ok d \<longrightarrow> recordings_ok d') \<and> evolves d d'"

lemma goes_on_refl [simp]: "goes_on d d"
  by (simp add: goes_on_def users_evolve_same evolves_same)

lemma goes_on_trans [trans]: "goes_on a b \<Longrightarrow> goes_on b c \<Longrightarrow> goes_on a c"
  unfolding goes_on_def using users_evolve_trans evolves_trans by blast

text \<open>A recording depends on its session's identifier and organization only.\<close>

lemma recordings_ok_sessions:
  assumes "recordings_ok d" and "set (db_recordings d') \<subseteq> set (db_recordings d)"
    and "\<And>r x. r \<in> set (db_recordings d') \<Longrightarrow> x \<in> set (db_sessions d) \<Longrightarrow> sr_id x = rr_session r \<Longrightarrow>
      \<exists>y \<in> set (db_sessions d'). sr_id y = sr_id x \<and> sr_org y = sr_org x"
  shows "recordings_ok d'"
  unfolding recordings_ok_def list_all_iff
proof
  fix r
  assume r: "r \<in> set (db_recordings d')"
  with assms(1,2) have ok: "rec_row_ok d r" by (auto simp: recordings_ok_def list_all_iff)
  then obtain x where "x \<in> set (db_sessions d)" "sr_id x = rr_session r" "sr_org x = rr_org r" by (auto simp: rec_row_ok_def list_ex_iff)
  with assms(3) [OF r] have "list_ex (\<lambda>x. sr_id x = rr_session r \<and> sr_org x = rr_org r) (db_sessions d')" by (fastforce simp: list_ex_iff)
  with ok show "rec_row_ok d' r" by (simp add: rec_row_ok_def)
qed

lemma other_recordings:
  "(\<And>sid. q \<noteq> DeleteSession sid) \<Longrightarrow> \<not> recording_stmt q \<Longrightarrow> db_recordings (snd (pg_run q g g' d)) = db_recordings d"
  by (cases q) (auto simp: sql_insert_org_def sql_insert_user_def sql_select_user_by_email_def
      sql_select_users_def sql_select_user_def sql_set_disabled_def sql_bump_version_def sql_register_org_def
      sql_insert_session_def sql_activate_session_def sql_end_session_def sql_expire_pending_def
      sql_update_def Let_def split: list.split prod.split pg_reply.split)

lemma pg_run_recordings:
  assumes "\<not> recording_stmt q" and "recordings_ok d"
  shows "recordings_ok (snd (pg_run q g g' d))"
proof (cases "\<exists>sid. q = DeleteSession sid")
  case False
  then have "evolves d (snd (pg_run q g g' d))" by (intro pg_run_evolves) auto
  moreover have "db_recordings (snd (pg_run q g g' d)) = db_recordings d" using False by (intro other_recordings assms(1)) auto
  ultimately show ?thesis
    by (intro recordings_ok_sessions [OF assms(2)]) (fastforce simp: evolves_def row_le_def)+
next
  case True
  then show ?thesis by (auto intro!: recordings_ok_sessions [OF assms(2)] simp: sql_delete_session_def)
qed

lemma recordings_ok_clock [simp]: "recordings_ok (d\<lparr>db_clock := t\<rparr>) = recordings_ok d"
  by (simp add: recordings_ok_def rec_row_ok_def [abs_def])

context pg_service
begin

lemma runs_users:
  "runs pg good_stmt d d' \<Longrightarrow> users_ok (pg_view d) \<Longrightarrow> users_ok (pg_view d') \<and> users_evolve (pg_view d) (pg_view d')"
proof (induction rule: runs.induct)
  case (runs_step d d1 q x d2)
  with user_effect_ok [OF pg_user_effect [OF runs_step(3)] runs_step(2)] show ?case
    using users_evolve_trans by blast
qed (simp add: users_evolve_same)

lemma runs_recordings: "runs pg (\<lambda>q. \<not> recording_stmt q) d d' \<Longrightarrow> recordings_ok (pg_view d) \<Longrightarrow> recordings_ok (pg_view d')"
proof (induction rule: runs.induct)
  case (runs_step d d1 q x d2)
  from runs_step(3) show ?case
    by (rule pg_cases) (use runs_step pg_run_recordings in auto)
qed

lemma runs_evolves: "runs pg identity_stmt d d' \<Longrightarrow> evolves (pg_view d) (pg_view d')"
proof (induction rule: runs.induct)
  case (runs_step d d1 q x d2)
  have n: "q \<noteq> DeleteSession sid" for sid using runs_step(2) by (auto simp: identity_stmt_def)
  from runs_step(3) have "evolves (pg_view d1) (pg_view d2)"
  proof (rule pg_cases)
    fix t g g' assume "pg_view d2 = snd (pg_run q g g' ((pg_view d1)\<lparr>db_clock := t\<rparr>))"
    then show ?thesis using pg_run_evolves [OF n, of "(pg_view d1)\<lparr>db_clock := t\<rparr>" g g'] by simp
  qed (simp add: evolves_same)
  with runs_step(4) show ?case by (rule evolves_trans)
qed (simp add: evolves_same)

lemma identity_goes_on:
  assumes "id_db s = pg"
  shows "goes_on (pg_view d) (pg_view (snd (id_serve s op d)))"
proof -
  have r: "runs pg identity_stmt d (snd (id_serve s op d))" using id_serve_runs [of s d op] assms by simp
  from runs_users [OF runs_mono [OF r]] runs_recordings [OF runs_mono [OF r]] runs_evolves [OF r] show ?thesis
    unfolding goes_on_def by (auto simp: identity_stmt_def)
qed

lemma session_goes_on:
  assumes "runs pg session_stmt d d'" and "evolves (pg_view d) (pg_view d')"
  shows "goes_on (pg_view d) (pg_view d')"
proof -
  have "runs pg good_stmt d d'" by (rule runs_mono [OF assms(1)]) (simp add: stmt_good)
  moreover have "session_stmt q \<Longrightarrow> \<not> recording_stmt q" for q by (cases q) auto
  then have "runs pg (\<lambda>q. \<not> recording_stmt q) d d'" by (rule runs_mono [OF assms(1)])
  ultimately show ?thesis using runs_users runs_recordings assms(2) unfolding goes_on_def by blast
qed

lemma recordings_goes_on:
  assumes "rc_db s = pg"
  shows "goes_on (pg_view d) (pg_view (snd (rec_serve s op d)))"
proof -
  obtain org where st: "rec_step org (pg_view d) (pg_view (snd (rec_serve s op d)))" by (rule rec_serve_any [OF assms])
  have "runs pg good_stmt d (snd (rec_serve s op d))"
    using rec_serve_runs [of s d op] assms stmt_good by (auto intro: runs_mono)
  moreover have "db_sessions (pg_view (snd (rec_serve s op d))) = db_sessions (pg_view d)" using st by (auto elim: rec_stepE)
  ultimately show ?thesis
    using runs_users rec_step_ok [OF st] unfolding goes_on_def by (auto intro: evolves_same)
qed

end

section \<open>The surface\<close>

lemma handle_Mint_world:
  "snd (handle_Mint sv now jti tp r w) = w \<or>
   (\<exists>org agent. snd (handle_Mint sv now jti tp r w) = snd (snd (Mint sv now jti org agent tp w)))"
  by (auto simp: handle_Mint_def split: option.split sum.split prod.split) (metis snd_conv)+

lemma handle_Redeem_world:
  "snd (handle_Redeem sv now jti q r w) = w \<or> (\<exists>c pin. snd (handle_Redeem sv now jti q r w) = snd (Redeem sv now jti c pin w))"
  by (auto simp: handle_Redeem_def split: sum.split prod.split) (metis snd_conv)+

context pg_service
begin

abbreviation tables :: "('r, 'd) app \<Rightarrow> db" where
  "tables a \<equiv> pg_view (w_db (ap_world a))"

definition fine :: "('r, 'd) app_handler \<Rightarrow> bool" where
  "fine h \<longleftrightarrow> (\<forall>r a. goes_on (tables a) (tables (snd (h r a))))"

lemma fine_const: "fine (\<lambda>r a. (resp r, a))"
  by (simp add: fine_def)

lemma fine_throttle:
  assumes "fine h"
  shows "fine (throttle d l n h)"
  unfolding fine_def
proof (intro allI)
  fix r a
  have "goes_on (tables b) (tables (snd (h r b)))" for b using assms by (simp add: fine_def)
  from this [of "a\<lparr>ap_world := (ap_world a)\<lparr>w_redis := _\<rparr>\<rparr>"]
  show "goes_on (tables a) (tables (snd (throttle d l n h r a)))"
    by (cases rule: throttle_cases [of d l n h r a]) auto
qed

lemma fine_authed:
  assumes "fine h"
  shows "fine (authed d i h)"
  unfolding fine_def
proof (intro allI)
  fix r a
  show "goes_on (tables a) (tables (snd (authed d i h r a)))"
    unfolding authed_def using assms
    by (cases rule: auth_Middleware_cases [of "id_jwt (dp_Identity d)" "id_uuid (dp_Identity d)" "dp_Issuer d" "in_now i" h r a])
       (auto simp: fine_def)
qed

lemma fine_on_db:
  assumes "\<And>r e. goes_on (pg_view e) (pg_view (snd (h r e)))"
  shows "fine (on_db h)"
  unfolding fine_def
proof (intro allI)
  fix r a
  show "goes_on (tables a) (tables (snd (on_db h r a)))"
    using assms [of "w_db (ap_world a)" r] by (auto simp: on_db_def Let_def split: prod.split go.split)
qed

lemma fine_on_world:
  assumes "\<And>r w. goes_on (pg_view (w_db w)) (pg_view (w_db (snd (h r w))))"
  shows "fine (on_world h)"
  unfolding fine_def using assms by (auto simp: on_world_def split: prod.split) (metis snd_conv)

lemma fine_Mint: "sv_db sv = pg \<Longrightarrow> fine (on_world (handle_Mint sv now jti tp))"
proof (rule fine_on_world)
  fix r w
  assume sv: "sv_db sv = pg"
  have "goes_on (dbv w) (dbv (snd (snd (Mint sv now jti org agent tp w))))" for org agent
    using session_goes_on Mint_runs [of sv w now jti org agent tp] Mint_evolves [OF sv, of now jti org agent tp w] sv
    by (metis prod.collapse)
  with handle_Mint_world [of sv now jti tp r w] show "goes_on (dbv w) (dbv (snd (handle_Mint sv now jti tp r w)))"
    by (metis goes_on_refl)
qed

lemma fine_Redeem: "sv_db sv = pg \<Longrightarrow> fine (on_world (handle_Redeem sv now jti q))"
proof (rule fine_on_world)
  fix r w
  assume sv: "sv_db sv = pg"
  have "goes_on (dbv w) (dbv (snd (Redeem sv now jti c pin w)))" for c pin
    using session_goes_on Redeem_runs [of sv w now jti c pin] Redeem_evolves [OF sv] sv by metis
  with handle_Redeem_world [of sv now jti q r w] show "goes_on (dbv w) (dbv (snd (handle_Redeem sv now jti q r w)))"
    by (metis goes_on_refl)
qed

lemma dispatch_fine:
  assumes "id_db (dp_Identity d) = pg" and "sv_db (dp_Session d) = pg" and "\<And>s. dp_Recordings d = Some s \<Longrightarrow> rc_db s = pg"
  shows "fine (dispatch d i rt)"
proof -
  note idn = identity_goes_on [OF assms(1)]
  have rec: "goes_on (pg_view e) (pg_view (snd (rec_serve s op e)))" if "dp_Recordings d = Some s" for s op e
    by (rule recordings_goes_on [OF assms(3) [OF that]])
  note intros = fine_throttle fine_authed fine_on_db fine_Mint [OF assms(2)] fine_Redeem [OF assms(2)]
  show ?thesis
  proof (cases rt)
    case Register
    then show ?thesis using idn [of _ "OpRegister (in_draws i) (in_register i)"] by (auto intro!: intros)
  next
    case Login
    then show ?thesis using idn [of _ "OpLogin (in_draws i) (in_login i)"] by (auto intro!: intros)
  next
    case Refresh
    then show ?thesis using idn [of _ "OpRefresh (in_draws i) (in_refresh i)"] by (auto intro!: intros)
  next
    case Me
    then show ?thesis using idn [of _ "OpMe _"] by (auto intro!: intros simp: returns_def)
  next
    case Logout
    then show ?thesis using idn [of _ "OpLogout _"] by (auto intro!: intros simp: returns_def)
  next
    case GetUsers
    then show ?thesis using idn [of _ "OpListUsers _"] by (auto intro!: intros simp: returns_def)
  next
    case PostUsers
    then show ?thesis using idn [of _ "OpCreateUser (in_draws i) (in_createUser i) _"] by (auto intro!: intros)
  next
    case Disable
    then show ?thesis using idn [of _ "OpSetDisabled True _"] by (auto intro!: intros simp: returns_def)
  next
    case Enable
    then show ?thesis using idn [of _ "OpSetDisabled False _"] by (auto intro!: intros simp: returns_def)
  next
    case PostRecordings
    then show ?thesis using rec [of _ _ "RecCreate (in_uuid i) (in_createUpload i) _"]
      by (auto intro!: intros fine_const simp: returns_def split: option.split)
  next
    case GetRecordings
    then show ?thesis using rec [of _ _ "RecList _"] by (auto intro!: intros fine_const simp: returns_def split: option.split)
  next
    case CompleteR
    then show ?thesis using rec [of _ _ "RecComplete (in_complete i) _"]
      by (auto intro!: intros fine_const simp: returns_def split: option.split)
  qed (auto intro!: intros fine_const)
qed

lemma New_goes_on:
  assumes "id_db (dp_Identity d) = pg" and "sv_db (dp_Session d) = pg" and "\<And>s. dp_Recordings d = Some s \<Longrightarrow> rc_db s = pg"
  shows "goes_on (tables a) (tables (snd (New d i r a)))"
proof -
  have "goes_on (tables a) (tables (snd (fst (mux_ServeHTTP d i r a))))"
    using dispatch_fine [OF assms] unfolding fine_def by (simp add: mux_ServeHTTP_def split: mux_result.split)
  with New_parts(2) [of d i r a] show ?thesis by simp
qed

end

section \<open>The server over time\<close>

text \<open>
  What happens to a running server: a request with its body and what the outside contributes to it, a
  tick of the sweeper, the end of a room. They are taken one after the other, in any order; requests
  that overlap in the process are the subject of the theorems on single operations.
\<close>

datatype event = Request inputs string request | Sweep time | RoomEnded room

fun server_step :: "('r, 'd, 'ip, 'net) server \<Rightarrow> event \<Rightarrow> ('r, 'd) app \<Rightarrow> ('r, 'd) app" where
  "server_step s (Request i body r) a = snd (ServeHTTP (sr_deps s (in_now i)) i body r a)"
| "server_step s (Sweep now) a = a\<lparr>ap_world := sweep_tick (dp_Session (sr_deps s now)) now (ap_world a)\<rparr>"
| "server_step s (RoomEnded room) a = a\<lparr>ap_world := room_ended_callback (dp_Session (sr_deps s 0)) room (ap_world a)\<rparr>"

definition server_run :: "('r, 'd, 'ip, 'net) server \<Rightarrow> event list \<Rightarrow> ('r, 'd) app \<Rightarrow> ('r, 'd) app" where
  "server_run s = fold (server_step s)"

lemma build_databases:
  assumes "build pk cfg = Inr s"
  shows "id_db (dp_Identity (sr_deps s t)) = pk_pg pk" and "sv_db (dp_Session (sr_deps s t)) = pk_pg pk"
    and "dp_Recordings (sr_deps s t) = Some rs \<Longrightarrow> rc_db rs = pk_pg pk"
  using assms
  by (auto simp: build_def build_recordings_def Let_def identity_NewHandlers_def identity_NewService_def
      session_NewService_def recordings_NewService_def split: sum.splits if_splits)

lemma server_step_goes_on:
  assumes "build pk cfg = Inr s" and "pg_service (pk_pg pk) vw"
  shows "goes_on (vw (w_db (ap_world a))) (vw (w_db (ap_world (server_step s e a))))"
proof (cases e)
  case (Request i body r)
  then show ?thesis
    using pg_service.New_goes_on [OF assms(2) build_databases [OF assms(1)]] by (simp add: ServeHTTP_def)
next
  case (Sweep now)
  let ?sv = "dp_Session (sr_deps s now)" and ?w = "ap_world a"
  have sv: "sv_db ?sv = pk_pg pk" by (rule build_databases(2) [OF assms(1)])
  have "goes_on (vw (w_db ?w)) (vw (w_db (snd (ExpireStalePending ?sv now d ?w))))" for d
    using pg_service.session_goes_on [OF assms(2)] ExpireStalePending_runs [of ?sv ?w now d]
      pg_service.ExpireStalePending_evolves [OF assms(2) sv] sv by metis
  then show ?thesis using Sweep by (simp add: sweep_tick_def)
next
  case (RoomEnded room)
  let ?sv = "dp_Session (sr_deps s 0)" and ?w = "ap_world a"
  have sv: "sv_db ?sv = pk_pg pk" by (rule build_databases(2) [OF assms(1)])
  have "goes_on (vw (w_db ?w)) (vw (w_db (snd (MarkEnded ?sv sid ?w))))" for sid
    using pg_service.session_goes_on [OF assms(2)] MarkEnded_runs [of ?sv ?w sid]
      pg_service.MarkEnded_evolves [OF assms(2) sv] sv by metis
  then show ?thesis using RoomEnded by (simp add: room_ended_callback_def split: option.split)
qed

lemma server_run_goes_on:
  assumes "build pk cfg = Inr s" and "pg_service (pk_pg pk) vw"
  shows "goes_on (vw (w_db (ap_world a))) (vw (w_db (ap_world (server_run s es a))))"
proof (induction es arbitrary: a)
  case (Cons e es)
  from server_step_goes_on [OF assms, of a e] Cons.IH [of "server_step s e a"] show ?case
    unfolding server_run_def by (simp add: goes_on_trans)
qed (simp add: server_run_def)

text \<open>
  C3: the tables of the running server. Whatever bytes clients send to whichever routes, interleaved
  with the sweeper and the ends of rooms, and whatever fails in the database or in Redis: e-mail
  addresses stay unique over all organizations and normalized, no account is lost or changed but for
  its flag and its version, which never goes down; no session row that was there is lost or goes back
  in its life; every recording keeps belonging to a session of its organization, with a size within
  bounds.
\<close>

theorem server_keeps_its_tables:
  assumes "build pk cfg = Inr s" and "pg_service (pk_pg pk) vw"
    and "users_ok (vw (w_db (ap_world a)))" and "recordings_ok (vw (w_db (ap_world a)))"
  shows "users_ok (vw (w_db (ap_world (server_run s es a)))) \<and> recordings_ok (vw (w_db (ap_world (server_run s es a)))) \<and>
    users_evolve (vw (w_db (ap_world a))) (vw (w_db (ap_world (server_run s es a)))) \<and>
    evolves (vw (w_db (ap_world a))) (vw (w_db (ap_world (server_run s es a))))"
  using server_run_goes_on [OF assms(1,2), of a es] assms(3,4) by (simp add: goes_on_def)

definition demo_live :: "(keyspace, pgsim, nat, nat) packages" where
  "demo_live = \<lparr>pk_frac = (\<lambda>f u s. f * u div s), pk_jwt = ref_jwt, pk_uuid = dec_uuid, pk_net = demo_net, pk_argon2 = id_argon2 demo_id,
     pk_sha256 = (\<lambda>s. s), pk_hmac_sha256 = (\<lambda>k s. k @ s), pk_hmac_sha1 = (\<lambda>k s. k @ s),
     pk_pg = sim_pg, pk_redis = ref_exec,
     pk_mig = \<lparr>mg_ensure = Pair (Inr ()), mg_exists = (\<lambda>_. Pair (Inr True)), mg_begin = Pair (Inr ()), mg_exec = (\<lambda>_. Pair (Inr ())),
       mg_insert = (\<lambda>_. Pair (Inr ())), mg_rollback = id, mg_commit = Pair (Inr ())\<rparr>,
     pk_fs = demo_fs\<rparr>"

definition demo_events :: "event list" where
  "demo_events = [Request demo_inputs ''{}'' demo_login, Sweep 0, RoomEnded ''1'']"

lemma demo_live_builds: "case Load (pk_frac demo_live) (\<lambda>_. None) of Inr cfg \<Rightarrow> (case build demo_live cfg of Inr s \<Rightarrow> True | _ \<Rightarrow> False) | _ \<Rightarrow> False"
  by code_simp

theorem server_keeps_its_tables_witness:
  "\<exists>cfg s. Load (pk_frac demo_live) (\<lambda>_. None) = Inr cfg \<and> build demo_live cfg = Inr s \<and>
     users_ok (pg_db (w_db (ap_world (server_run s demo_events demo_app)))) \<and>
     recordings_ok (pg_db (w_db (ap_world (server_run s demo_events demo_app)))) \<and>
     users_evolve (pg_db (w_db (ap_world demo_app))) (pg_db (w_db (ap_world (server_run s demo_events demo_app)))) \<and>
     evolves (pg_db (w_db (ap_world demo_app))) (pg_db (w_db (ap_world (server_run s demo_events demo_app))))"
proof -
  obtain cfg s where b: "Load (pk_frac demo_live) (\<lambda>_. None) = Inr cfg" "build demo_live cfg = Inr s"
    using demo_live_builds by (auto split: sum.splits)
  have pg: "pg_service (pk_pg demo_live) pg_db" by (simp add: demo_live_def simpg.pg_service_axioms)
  have "users_ok (pg_db (w_db (ap_world demo_app)))" "recordings_ok (pg_db (w_db (ap_world demo_app)))"
    by (simp_all add: demo_app_def demo_world_def demo_db_def users_ok_def recordings_ok_def db_empty_def sql_lower_def ascii_lower_def)
  from server_keeps_its_tables [OF b(2) pg this, of demo_events] b show ?thesis by blast
qed

end
