(* ===== verification/Identity_Tokens.thy ===== *)
theory Identity_Tokens
  imports Identity_Users
begin

text \<open>
  Revocation of refresh tokens. A token pair carries the token version of its user at issue time;
  logging out and disabling raise the version, and \<open>Refresh\<close> compares. The theorems follow a
  token pair through arbitrary further requests: once its user has logged out or has been disabled,
  the pair is worth nothing.
\<close>

section \<open>Token pairs\<close>

definition token_pair :: "response \<Rightarrow> (string \<times> string) option" where
  "token_pair resp = (case rs_body resp of
     Json (JObj ((k, JStr access) # (k', JStr refresh) # _)) \<Rightarrow>
       if k = ''access_token'' \<and> k' = ''refresh_token'' then Some (access, refresh) else None
   | _ \<Rightarrow> None)"

lemma token_pair_simps [simp]:
  "token_pair (WriteError n m) = None"
  "token_pair (WriteJSON n (Some (User_json s u))) = None"
  "token_pair (WriteJSON n (Some (JObj [(k, v)]))) = None"
  by (simp_all add: token_pair_def User_json_def split: json.split)

abbreviation issue_for :: "'d Ident \<Rightarrow> time \<times> string \<Rightarrow> string \<Rightarrow> user_row \<Rightarrow> (string \<times> time) res" where
  "issue_for s now_jti kind r \<equiv> Issue (id_jwt s) (id_uuid s) (id_issuer s) (fst now_jti) (snd now_jti) kind
     (ur_id r) (ur_org r) (ur_role r) (ur_version r)"

lemma respond_pair:
  assumes "token_pair (respondWithTokens s dr st (scan_user r)) = Some (access, refresh)"
  shows "\<exists>e e'. issue_for s (dr_access dr) KindAccess r = Inr (access, e) \<and>
    issue_for s (dr_refresh dr) KindRefresh r = Inr (refresh, e')"
  using assms by (auto simp: respondWithTokens_def scan_user_def token_pair_def WriteJSON_def WriteError_def
      split: sum.splits prod.splits)

text \<open>The refresh tokens a request hands out, and those of a run.\<close>

definition op_grant :: "'d Ident \<Rightarrow> id_op \<Rightarrow> 'd \<Rightarrow> string list" where
  "op_grant s op d = (case fst (id_serve s op d) of
     Panic m \<Rightarrow> []
   | Return resp \<Rightarrow> (case token_pair resp of None \<Rightarrow> [] | Some (access, refresh) \<Rightarrow> [refresh]))"

text \<open>
  In an honest run every refresh token presented was handed out before, or it is no token of this
  issuer at any time.
\<close>

fun honest :: "'d Ident \<Rightarrow> string list \<Rightarrow> id_op list \<Rightarrow> 'd \<Rightarrow> bool" where
  "honest s G [] d = True"
| "honest s G (op # ops) d =
     ((\<forall>dr tok. op = OpRefresh dr (Inr tok) \<longrightarrow> tok \<in> set G \<or>
         (\<forall>now c. Parse (id_jwt s) (id_issuer s) now tok \<noteq> Inr c)) \<and>
      honest s (G @ op_grant s op d) ops (snd (id_serve s op d)))"

fun grants :: "'d Ident \<Rightarrow> id_op list \<Rightarrow> 'd \<Rightarrow> string list" where
  "grants s [] d = []"
| "grants s (op # ops) d = op_grant s op d @ grants s ops (snd (id_serve s op d))"

lemma honest_append:
  "honest s G (ops @ ops') d \<longleftrightarrow> honest s G ops d \<and> honest s (G @ grants s ops d) ops' (id_run s ops d)"
  by (induction ops arbitrary: G d) auto

lemma run_append: "id_run s (ops @ ops') d = id_run s ops' (id_run s ops d)"
  by (induction ops arbitrary: d) auto

text \<open>Who may be given a pair: the row it is for, and why.\<close>

definition granted_to :: "'d Ident \<Rightarrow> id_op \<Rightarrow> user_row \<Rightarrow> bool" where
  "granted_to s op r \<longleftrightarrow>
     ((\<exists>dr q. op = OpRegister dr q) \<or> (\<exists>dr q. op = OpLogin dr q)) \<and> \<not> ur_disabled r \<or>
     (\<exists>dr tok c. op = OpRefresh dr (Inr tok) \<and> Parse (id_jwt s) (id_issuer s) (dr_now dr) tok = Inr c \<and>
        uuid_Parse (id_uuid s) (cl_Subject c) = Some (ur_id r) \<and> cl_Ver c = ur_version r)"

context pg_service
begin

lemma login_grant:
  assumes "id_db s = pg" and "Authenticate s email pw d = (Return (Inr u), d')"
  shows "\<exists>r \<in> set (db_users (pg_view d')). u = scan_user r \<and> \<not> ur_disabled r"
proof -
  obtain r where q: "pg (SelectUserByEmail (normalizeEmail email)) d = (Inr (PgUser r), d')" "u = scan_user r" "\<not> ur_disabled r"
    using assms by (auto simp: Authenticate_def split: go.splits sum.splits prod.splits pg_reply.splits if_splits)
  with select_by_email_row [OF q(1)] show ?thesis by auto
qed

lemma register_grant:
  assumes "id_db s = pg" and "RegisterOrg s rnd org email pw dn d = (Return (Inr u), d')"
  shows "\<exists>r \<in> set (db_users (pg_view d')). u = scan_user r \<and> \<not> ur_disabled r"
proof -
  obtain hash r where q: "pg (RegisterOrgTx org (normalizeEmail email) hash dn) d = (Inr (PgUser r), d')" "u = scan_user r"
    using assms by (auto simp: RegisterOrg_def split: go.splits sum.splits prod.splits pg_reply.splits)
  from pg_ok [OF q(1)] obtain t g g' where
    "sql_register_org org (normalizeEmail email) hash dn g g' ((pg_view d)\<lparr>db_clock := t\<rparr>) = (PgUser r, pg_view d')" by auto
  from register_org_effect [OF this] q(2) show ?thesis by auto
qed

lemma get_user_row:
  assumes "id_db s = pg" and "GetUser s org uid d = (Inr u, d')"
  shows "\<exists>r \<in> set (db_users (pg_view d')). u = scan_user r \<and> ur_id r = uid \<and> ur_org r = org"
proof -
  obtain r where q: "pg (SelectUser uid org) d = (Inr (PgUser r), d')" "u = scan_user r"
    using assms by (auto simp: GetUser_def split: sum.splits prod.splits pg_reply.splits)
  with select_user_row [OF q(1)] show ?thesis by auto
qed

lemma refresh_grant:
  assumes "id_db s = pg" and "handle_Refresh s dr q d = (Return resp, d')" and "token_pair resp \<noteq> None"
  shows "\<exists>tok c. \<exists>r \<in> set (db_users (pg_view d')). q = Inr tok \<and> Parse (id_jwt s) (id_issuer s) (dr_now dr) tok = Inr c \<and>
    uuid_Parse (id_uuid s) (cl_Subject c) = Some (ur_id r) \<and> cl_Ver c = ur_version r \<and>
    resp = respondWithTokens s dr StatusOK (scan_user r)"
proof -
  obtain tok c org uid u where "q = Inr tok" "Parse (id_jwt s) (id_issuer s) (dr_now dr) tok = Inr c"
    "uuid_Parse (id_uuid s) (cl_Subject c) = Some uid" and u: "GetUser s org uid d = (Inr u, d')"
    "cl_Ver c = us_TokenVersion u" "resp = respondWithTokens s dr StatusOK u"
    using assms(2,3) by (auto simp: handle_Refresh_def parseUUID_def split: sum.splits if_splits option.splits prod.splits)
  moreover obtain r where "r \<in> set (db_users (pg_view d'))" "u = scan_user r" "ur_id r = uid"
    using get_user_row [OF assms(1) u(1)] by blast
  ultimately show ?thesis by (auto simp: scan_user_def)
qed

lemma grant_cases:
  assumes "id_db s = pg" and "id_serve s op d = (Return resp, d')" and "token_pair resp \<noteq> None"
  shows "\<exists>r \<in> set (db_users (pg_view d')). \<exists>dr st. resp = respondWithTokens s dr st (scan_user r) \<and> granted_to s op r"
proof (cases op)
  case (OpRegister dr q)
  with assms(2,3) obtain req :: registerRequest and u where u: "RegisterOrg s (dr_salt dr) (rg_OrgName req) (rg_Email req) (rg_Password req) (rg_DisplayName req) d
      = (Return (Inr u), d')" "resp = respondWithTokens s dr StatusCreated u"
    by (auto simp: handle_Register_def split: sum.splits go.splits prod.splits if_splits)
  with register_grant [OF assms(1) u(1)] OpRegister show ?thesis by (auto simp: granted_to_def)
next
  case (OpLogin dr q)
  with assms(2,3) obtain req :: loginRequest and u where u: "Authenticate s (lg_Email req) (lg_Password req) d = (Return (Inr u), d')"
      "resp = respondWithTokens s dr StatusOK u"
    by (auto simp: handle_Login_def split: sum.splits go.splits prod.splits if_splits)
  with login_grant [OF assms(1) u(1)] OpLogin show ?thesis by (auto simp: granted_to_def)
next
  case (OpRefresh dr q)
  with refresh_grant [OF assms(1) _ assms(3), of dr q d d'] assms(2) show ?thesis
    by (fastforce simp: granted_to_def)
next
  case (OpLogout r)
  with assms(2,3) show ?thesis by (auto simp: handle_Logout_def split: option.splits sum.splits prod.splits)
next
  case (OpMe r)
  with assms(2,3) show ?thesis by (auto simp: handle_Me_def split: option.splits sum.splits prod.splits)
next
  case (OpCreateUser dr q r)
  with assms(2,3) show ?thesis
    by (auto simp: handle_CreateUser_def requireAdmin_def split: option.splits sum.splits go.splits prod.splits if_splits)
next
  case (OpListUsers r)
  with assms(2,3) show ?thesis
    by (auto simp: handle_ListUsers_def requireAdmin_def split: option.splits sum.splits prod.splits if_splits)
next
  case (OpSetDisabled b r)
  with assms(2,3) show ?thesis
    by (auto simp: handle_SetUserDisabled_def requireAdmin_def split: option.splits sum.splits prod.splits if_splits)
qed

end

section \<open>Tokens and rows\<close>

text \<open>What a token that parses says about its user.\<close>

lemma Issue_Parse_claims:
  assumes "jwt_library jp issued" and "Issue jp up i now jti kind u org role ver = Inr (raw, e)" and "Parse jp i now' raw = Inr c"
  shows "cl_Subject c = uuid_String up u \<and> cl_OrgID c = uuid_String up org \<and> cl_Ver c = ver \<and> cl_Kind c = kind"
  by (rule jwt_library.parse_cases [OF assms(1) jwt_library.Issue_issued(2) [OF assms(1,2)] exp_of_json(1), of now'])
     (use assms(3) in \<open>auto simp: Parse_def\<close>)

definition tokens_current :: "'d Ident \<Rightarrow> db \<Rightarrow> string list \<Rightarrow> bool" where
  "tokens_current s d G \<longleftrightarrow> (\<forall>tok \<in> set G. \<forall>now c. Parse (id_jwt s) (id_issuer s) now tok = Inr c \<longrightarrow>
     (\<exists>r \<in> set (db_users d). cl_Subject c = uuid_String (id_uuid s) (ur_id r) \<and> cl_Ver c \<le> ur_version r))"

definition locked :: "'d Ident \<Rightarrow> db \<Rightarrow> string list \<Rightarrow> uuid \<Rightarrow> bool" where
  "locked s d G uid \<longleftrightarrow> (\<exists>r \<in> set (db_users d). ur_id r = uid \<and> ur_disabled r \<and>
     (\<forall>tok \<in> set G. \<forall>now c. Parse (id_jwt s) (id_issuer s) now tok = Inr c \<longrightarrow>
        uuid_Parse (id_uuid s) (cl_Subject c) = Some uid \<longrightarrow> cl_Ver c < ur_version r))"

definition enables :: "'d Ident \<Rightarrow> uuid \<Rightarrow> id_op \<Rightarrow> bool" where
  "enables s uid op \<longleftrightarrow> (\<exists>r. op = OpSetDisabled False r \<and> uuid_Parse (id_uuid s) (PathValue r ''id'') = Some uid)"

lemma op_grant_cases:
  assumes "tok \<in> set (op_grant s op d)"
  shows "\<exists>resp access. id_serve s op d = (Return resp, snd (id_serve s op d)) \<and> token_pair resp = Some (access, tok)"
proof -
  obtain x d' where x: "id_serve s op d = (x, d')" by fastforce
  with assms obtain resp where "x = Return resp" by (cases x) (auto simp: op_grant_def)
  moreover from this have "token_pair resp \<noteq> None" using assms x by (intro notI) (simp add: op_grant_def)
  then obtain access refresh where "token_pair resp = Some (access, refresh)" by auto
  ultimately show ?thesis using assms x by (simp add: op_grant_def)
qed

context pg_service
begin

lemma grant_row:
  assumes "id_db s = pg" and "id_serve s op d = (Return resp, d')" and "token_pair resp = Some (access, refresh)"
  shows "\<exists>r \<in> set (db_users (pg_view d')). granted_to s op r \<and>
    (\<exists>x y e e'. issue_for s x KindAccess r = Inr (access, e) \<and> issue_for s y KindRefresh r = Inr (refresh, e'))"
proof -
  obtain r dr st where r: "r \<in> set (db_users (pg_view d'))" "resp = respondWithTokens s dr st (scan_user r)" "granted_to s op r"
    using grant_cases [OF assms(1,2)] assms(3) by auto
  with respond_pair [of s dr st r access refresh] assms(3) show ?thesis by blast
qed

lemma tokens_current_step:
  assumes "id_db s = pg" and "jwt_library (id_jwt s) issued" and "users_ok (pg_view d)" and "tokens_current s (pg_view d) G"
  shows "tokens_current s (pg_view (snd (id_serve s op d))) (G @ op_grant s op d)"
  unfolding tokens_current_def
proof (intro ballI allI impI)
  fix tok now c assume tok: "tok \<in> set (G @ op_grant s op d)" and c: "Parse (id_jwt s) (id_issuer s) now tok = Inr c"
  let ?d = "snd (id_serve s op d)"
  show "\<exists>r \<in> set (db_users (pg_view ?d)). cl_Subject c = uuid_String (id_uuid s) (ur_id r) \<and> cl_Ver c \<le> ur_version r"
  proof (cases "tok \<in> set G")
    case True
    then obtain r where r: "r \<in> set (db_users (pg_view d))" "cl_Subject c = uuid_String (id_uuid s) (ur_id r)" "cl_Ver c \<le> ur_version r"
      using assms(4) c unfolding tokens_current_def by blast
    then obtain r' where "r' \<in> set (db_users (pg_view ?d))" "user_le r r'"
      using serve_users [OF assms(1,3), of op] by (auto simp: users_evolve_def)
    with r show ?thesis using user_le_keeps [of r r'] user_le_version [of r r'] by (intro bexI [of _ r']) auto
  next
    case False
    with tok have "tok \<in> set (op_grant s op d)" by simp
    from op_grant_cases [OF this] obtain resp access where g: "id_serve s op d = (Return resp, ?d)" "token_pair resp = Some (access, tok)"
      by (elim exE conjE)
    from grant_row [OF assms(1) g] obtain r y e where "r \<in> set (db_users (pg_view ?d))"
      "issue_for s y KindRefresh r = Inr (tok, e)" by blast
    with Issue_Parse_claims [OF assms(2) _ c] show ?thesis by fastforce
  qed
qed

lemma tokens_current_run:
  assumes "id_db s = pg" and "jwt_library (id_jwt s) issued"
  shows "users_ok (pg_view d) \<Longrightarrow> tokens_current s (pg_view d) G \<Longrightarrow>
     tokens_current s (pg_view (id_run s ops d)) (G @ grants s ops d)"
proof (induction ops arbitrary: d G)
  case (Cons op ops)
  from Cons.IH [OF conjunct1 [OF serve_users [OF assms(1) Cons.prems(1)]] tokens_current_step [OF assms Cons.prems]]
  show ?case by simp
qed simp

lemma disabled_row_stays:
  assumes "id_db s = pg" and "\<not> enables s uid op" and "r \<in> set (db_users (pg_view d))" and "ur_id r = uid" and "ur_disabled r"
  shows "\<exists>r' \<in> set (db_users (pg_view (snd (id_serve s op d)))). user_le r r' \<and> ur_disabled r'"
proof (cases "snd (id_serve s op d) = d")
  case True
  with assms user_le_refl show ?thesis by metis
next
  case False
  then obtain q x where q: "op_stmt s op q" "pg q d = (x, snd (id_serve s op d))"
    using serve_ran [of s op d] assms(1) unfolding ran_def by blast
  from pg_user_effect [OF q(2)] show ?thesis
  proof cases
    case (disabled b uid' org)
    have "ur_disabled (disable_row b uid' org r)"
      using op_stmt_SetDisabled [of s op b uid' org] q(1) disabled(1) assms(2,4,5)
      by (cases b) (auto simp: disable_row_def enables_def)
    with disabled assms(3) user_le_rows(1) show ?thesis by (metis imageI list.set_map)
  next
    case (bumped uid' org)
    have "ur_disabled (bump_row uid' org r)" using assms(5) by (simp add: bump_row_def)
    with bumped assms(3) user_le_rows(2) show ?thesis by (metis imageI list.set_map)
  next
    case (added n u dn)
    with assms(3,5) user_le_refl show ?thesis by (metis Un_iff set_append)
  next
    case same
    with assms(3,5) user_le_refl show ?thesis by metis
  qed
qed

text \<open>A locked user is given no pair, and stays locked.\<close>

lemma locked_no_grant:
  assumes "id_db s = pg" and "uuid_codec (id_uuid s)" and "users_ok (pg_view d)" and "locked s (pg_view d) G uid"
    and "\<not> enables s uid op" and "honest s G [op] d" and "r \<in> set (db_users (pg_view (snd (id_serve s op d))))" and "granted_to s op r"
  shows "ur_id r \<noteq> uid"
proof
  assume id: "ur_id r = uid"
  obtain l where l: "l \<in> set (db_users (pg_view d))" "ur_id l = uid" "ur_disabled l"
    "\<forall>tok \<in> set G. \<forall>now c. Parse (id_jwt s) (id_issuer s) now tok = Inr c \<longrightarrow>
        uuid_Parse (id_uuid s) (cl_Subject c) = Some uid \<longrightarrow> cl_Ver c < ur_version l"
    using assms(4) unfolding locked_def by blast
  obtain l' where l': "l' \<in> set (db_users (pg_view (snd (id_serve s op d))))" "user_le l l'" "ur_disabled l'"
    using disabled_row_stays [OF assms(1,5) l(1-3)] by blast
  have "l' = r" using users_ok_unique [OF _ l'(1) assms(7)] serve_users [OF assms(1,3)] user_le_keeps [OF l'(2)] l(2) id by auto
  with l'(3) assms(8) obtain dr tok c where t: "op = OpRefresh dr (Inr tok)" "Parse (id_jwt s) (id_issuer s) (dr_now dr) tok = Inr c"
    "uuid_Parse (id_uuid s) (cl_Subject c) = Some uid" "cl_Ver c = ur_version r"
    unfolding granted_to_def id by blast
  then have "tok \<in> set G" using assms(6) by auto
  with l(4) t have "cl_Ver c < ur_version l" by blast
  with t(4) \<open>l' = r\<close> user_le_version [OF l'(2)] show False by simp
qed

lemma locked_step:
  assumes "id_db s = pg" and "jwt_library (id_jwt s) issued" and "uuid_codec (id_uuid s)" and "users_ok (pg_view d)"
    and "locked s (pg_view d) G uid" and "\<not> enables s uid op" and "honest s G [op] d"
  shows "locked s (pg_view (snd (id_serve s op d))) (G @ op_grant s op d) uid"
proof -
  let ?d = "snd (id_serve s op d)"
  obtain l where l: "l \<in> set (db_users (pg_view d))" "ur_id l = uid" "ur_disabled l"
    "\<forall>tok \<in> set G. \<forall>now c. Parse (id_jwt s) (id_issuer s) now tok = Inr c \<longrightarrow>
        uuid_Parse (id_uuid s) (cl_Subject c) = Some uid \<longrightarrow> cl_Ver c < ur_version l"
    using assms(5) unfolding locked_def by blast
  obtain l' where l': "l' \<in> set (db_users (pg_view ?d))" "user_le l l'" "ur_disabled l'"
    using disabled_row_stays [OF assms(1,6) l(1-3)] by blast
  have new: False if tok: "tok \<in> set (op_grant s op d)" and c: "Parse (id_jwt s) (id_issuer s) now tok = Inr c"
      and subj: "uuid_Parse (id_uuid s) (cl_Subject c) = Some uid" for tok now c
  proof -
    obtain resp access where g: "id_serve s op d = (Return resp, ?d)" "token_pair resp = Some (access, tok)"
      using op_grant_cases [OF tok] by (elim exE conjE)
    obtain r y e where r: "r \<in> set (db_users (pg_view ?d))" "granted_to s op r" "issue_for s y KindRefresh r = Inr (tok, e)"
      using grant_row [OF assms(1) g] by blast
    with Issue_Parse_claims [OF assms(2) r(3) c] subj assms(3) have "ur_id r = uid" by simp
    with locked_no_grant [OF assms(1,3-7) r(1,2)] show False by simp
  qed
  have "\<forall>tok \<in> set (G @ op_grant s op d). \<forall>now c. Parse (id_jwt s) (id_issuer s) now tok = Inr c \<longrightarrow>
        uuid_Parse (id_uuid s) (cl_Subject c) = Some uid \<longrightarrow> cl_Ver c < ur_version l'"
    using new l(4) user_le_version [OF l'(2)] by fastforce
  then show ?thesis unfolding locked_def using l' l(2) user_le_keeps [OF l'(2)] by metis
qed

lemma locked_run:
  assumes "id_db s = pg" and "jwt_library (id_jwt s) issued" and "uuid_codec (id_uuid s)"
  shows "users_ok (pg_view d) \<Longrightarrow> locked s (pg_view d) G uid \<Longrightarrow> list_all (\<lambda>op. \<not> enables s uid op) ops \<Longrightarrow> honest s G ops d \<Longrightarrow>
     locked s (pg_view (id_run s ops d)) (G @ grants s ops d) uid"
proof (induction ops arbitrary: d G)
  case (Cons op ops)
  have "locked s (pg_view (snd (id_serve s op d))) (G @ op_grant s op d) uid"
    by (rule locked_step [OF assms Cons.prems(1,2)]) (use Cons.prems(3,4) in simp_all)
  from Cons.IH [OF conjunct1 [OF serve_users [OF assms(1) Cons.prems(1)]] this] Cons.prems(3,4)
  show ?case by simp
qed simp

text \<open>The statements that revoke, when they succeed.\<close>

lemma bump_ok:
  assumes "pg (BumpVersion uid org) d = (Inr rep, d')"
  shows "db_users (pg_view d') = map (bump_row uid org) (db_users (pg_view d))"
proof -
  from pg_ok [OF assms] obtain t where "sql_bump_version uid org ((pg_view d)\<lparr>db_clock := t\<rparr>) = (rep, pg_view d')" "\<not> is_PgErr rep" by auto
  then show ?thesis
    unfolding bump_row_def [abs_def]
    by (auto simp: sql_bump_version_def sql_update_def Let_def dest!: arg_cong [where f = db_users] split: if_splits)
qed

lemma disable_ok:
  assumes "pg (SetDisabledStmt b uid org) d = (Inr (PgCount n), d')"
  shows "db_users (pg_view d') = map (disable_row b uid org) (db_users (pg_view d)) \<and>
    (n \<noteq> 0 \<longrightarrow> (\<exists>r \<in> set (db_users (pg_view d)). ur_id r = uid \<and> ur_org r = org))"
proof -
  from pg_ok [OF assms] obtain t where "sql_set_disabled b uid org ((pg_view d)\<lparr>db_clock := t\<rparr>) = (PgCount n, pg_view d')" by auto
  then show ?thesis
    unfolding disable_row_def [abs_def]
    by (auto simp: sql_set_disabled_def sql_update_def Let_def filter_empty_conv dest!: arg_cong [where f = db_users] split: if_splits)
qed

lemma disabling_locks:
  assumes "id_db s = pg" and "uuid_codec (id_uuid s)" and "users_ok (pg_view d)" and "tokens_current s (pg_view d) G"
    and "handle_SetUserDisabled s True r d = (resp, d')" and "rs_status resp = StatusOK"
    and "uuid_Parse (id_uuid s) (PathValue r ''id'') = Some uid"
  shows "locked s (pg_view d') G uid"
proof -
  obtain org n where q: "pg (SetDisabledStmt True uid org) d = (Inr (PgCount n), d')" "n \<noteq> 0"
    using assms(1,5-7) by (auto simp: handle_SetUserDisabled_def SetDisabled_def requireAdmin_def
        split: option.splits sum.splits prod.splits pg_reply.splits if_splits)
  obtain u where u: "u \<in> set (db_users (pg_view d))" "ur_id u = uid" "ur_org u = org"
    using disable_ok [OF q(1)] q(2) by blast
  let ?u = "disable_row True uid org u"
  have row: "?u \<in> set (db_users (pg_view d'))" "ur_id ?u = uid" "ur_disabled ?u" "ur_version ?u = ur_version u + 1"
    using disable_ok [OF q(1)] u by (auto simp: disable_row_def)
  have "cl_Ver c < ur_version ?u" if tok: "tok \<in> set G" and c: "Parse (id_jwt s) (id_issuer s) now tok = Inr c"
      and subj: "uuid_Parse (id_uuid s) (cl_Subject c) = Some uid" for tok now c
  proof -
    obtain v where v: "v \<in> set (db_users (pg_view d))" "cl_Subject c = uuid_String (id_uuid s) (ur_id v)" "cl_Ver c \<le> ur_version v"
      using assms(4) tok c unfolding tokens_current_def by blast
    with subj assms(2) have "ur_id v = uid" by simp
    then have "v = u" using users_ok_unique [OF assms(3) v(1) u(1)] u(2) by simp
    with v(3) row(4) show ?thesis by simp
  qed
  with row show ?thesis unfolding locked_def by blast
qed

end

section \<open>Logging out\<close>

context pg_service
begin

lemma logout_bumps:
  assumes "id_db s = pg" and "jwt_library (id_jwt s) issued" and "uuid_codec (id_uuid s)"
    and "issue_for s x KindAccess r = Inr (access, e)" and "bearerToken rq = access"
    and "auth_Middleware (id_jwt s) (id_uuid s) (id_issuer s) now (handle_Logout s) rq d = (resp, d')" and "rs_status resp = StatusOK"
  shows "db_users (pg_view d') = map (bump_row (ur_id r) (ur_org r)) (db_users (pg_view d))"
proof -
  obtain c where c: "Parse (id_jwt s) (id_issuer s) now access = Inr c"
    using assms(5-7) by (auto simp: auth_Middleware_def Let_def split: if_splits sum.splits)
  from Issue_Parse_claims [OF assms(2,4) c]
  have "cl_Subject c = uuid_String (id_uuid s) (ur_id r)" "cl_OrgID c = uuid_String (id_uuid s) (ur_org r)" by simp_all
  then have "\<exists>rep. pg (BumpVersion (ur_id r) (ur_org r)) d = (Inr rep, d')"
    using assms(1,3,5-7) c
    by (auto simp: auth_Middleware_def Let_def handle_Logout_def BumpTokenVersion_def split: if_splits sum.splits prod.splits)
  then show ?thesis using bump_ok by blast
qed

lemma stale_refused:
  assumes "id_db s = pg" and "jwt_library (id_jwt s) issued" and "uuid_codec (id_uuid s)" and "users_ok (pg_view d)"
    and "issue_for s y KindRefresh r = Inr (refresh, e)"
    and "r' \<in> set (db_users (pg_view d))" and "ur_id r' = ur_id r" and "ur_version r < ur_version r'"
  shows "\<exists>resp d'. handle_Refresh s dr (Inr refresh) d = (Return resp, d') \<and> rs_status resp = StatusUnauthorized"
proof (cases "Parse (id_jwt s) (id_issuer s) (dr_now dr) refresh")
  case (Inl e)
  then show ?thesis by (simp add: handle_Refresh_def)
next
  case (Inr c)
  note cl = Issue_Parse_claims [OF assms(2,5) Inr]
  obtain x d' where g: "GetUser s (ur_org r) (ur_id r) d = (x, d')" by fastforce
  show ?thesis
  proof (cases x)
    case (Inl e)
    with Inr cl g assms(3) show ?thesis by (simp add: handle_Refresh_def parseUUID_def)
  next
    case x: (Inr u)
    obtain v where q: "pg (SelectUser (ur_id r) (ur_org r)) d = (Inr (PgUser v), d')" "u = scan_user v"
      using assms(1) g x by (auto simp: GetUser_def split: sum.splits prod.splits pg_reply.splits)
    have "v = r'" using select_user_row [OF q(1)] users_ok_unique [OF assms(4) _ assms(6)] assms(7) by simp
    with q(2) assms(8) have "us_TokenVersion u \<noteq> ur_version r" by (simp add: scan_user_def)
    with Inr cl g x assms(3) show ?thesis by (simp add: handle_Refresh_def parseUUID_def)
  qed
qed

end

section \<open>Theorems\<close>


text \<open>A concrete run: registering, logging out, refreshing.\<close>

lemma digit_ends:
  "list_all (\<lambda>r. r \<noteq> [] \<and> \<not> is_digit (hd r)) space_runes" "list_all (\<lambda>r. r \<noteq> [] \<and> \<not> is_digit (hd r)) (map rev space_runes)"
  by code_simp+

lemma TrimSpace_digits: "s \<noteq> [] \<Longrightarrow> is_digit (hd s) \<Longrightarrow> is_digit (last s) \<Longrightarrow> TrimSpace s = s"
  using first_strip_digit [OF digit_ends(1), of "hd s" "tl s"] first_strip_digit [OF digit_ends(2), of "last s" "rev (butlast s)"]
  by (intro TrimSpace_id) (simp_all add: rev_swap [symmetric] flip: rev_append append_butlast_last_id, metis append_butlast_last_id rev_eq_Cons_iff rev_rev_ident)

lemma enc_ends: "is_digit (hd (enc_str k @ enc_payload pl))" "is_digit (last (enc_str k @ enc_payload pl))"
proof -
  show "is_digit (hd (enc_str k @ enc_payload pl))" by (cases k) (simp_all add: is_digit_def)
  have "enc_payload pl \<noteq> [] \<and> last (enc_payload pl) = CHR ''0''"
    by (induction pl rule: enc_payload.induct) auto
  then show "is_digit (last (enc_str k @ enc_payload pl))" by (simp add: is_digit_def)
qed

lemma ref_Issue_bearer:
  assumes "Issue ref_jwt up i now jti kind u org role ver = Inr (tok, e)"
  shows "bearerToken (demo_request tok) = tok"
proof -
  obtain pl where tok: "tok = enc_str (is_secret i) @ enc_payload pl"
    using assms by (auto simp: Issue_def ref_jwt_def Let_def)
  have "TrimSpace tok = tok" unfolding tok by (rule TrimSpace_digits [OF _ enc_ends]) simp
  moreover have "tok \<noteq> []" by (simp add: tok)
  ultimately show ?thesis
    by (simp add: bearerToken_def demo_request_def Header_Get_def map_get_def ascii_lower_def char_of_def bit_0)
qed

lemma demo_valid: "validateCredentials ''Ada@Acme.org'' ''correct horse'' = Inr ()"
proof -
  have "TrimSpace ''Ada@Acme.org'' = ''Ada@Acme.org''" by (rule TrimSpace_id; code_simp)
  moreover have "Contains ''Ada@Acme.org'' ''@''" unfolding Contains_def by (intro bexI [of _ 3]) simp_all
  ultimately show ?thesis by (simp add: validateCredentials_def)
qed

lemma demo_register_run:
  assumes "pg_plan d = []" and "\<forall>r \<in> set (db_orgs (pg_db d)). or_id r \<noteq> word_of_nat (pg_supply d)"
    and "\<forall>r \<in> set (db_users (pg_db d)). ur_id r \<noteq> word_of_nat (pg_supply d + 1) \<and>
       sql_lower (ur_email r) \<noteq> normalizeEmail ''Ada@Acme.org'' \<and> ur_email r \<noteq> normalizeEmail ''Ada@Acme.org''"
  shows "\<exists>r d1. ur_version r = 0 \<and> ur_id r = word_of_nat (pg_supply d + 1) \<and> pg_plan d1 = [] \<and>
    db_users (pg_db d1) = db_users (pg_db d) @ [r] \<and>
    id_serve demo_id (OpRegister demo_draws (Inr demo_register)) d = (Return (respondWithTokens demo_id demo_draws StatusCreated (scan_user r)), d1)"
proof -
  obtain hash where hash: "HashPassword toy_argon2 (Inr ''0123456789abcdef'') ''correct horse'' = Return (Inr hash)"
    by (simp add: HashPassword_def toy_argon2_def argonTime_def argonThreads_def argonKeyLen_def)
  have "\<not> list_ex (\<lambda>r. or_id r = word_of_nat (pg_supply d)) (db_orgs (pg_db d))"
    "\<not> list_ex (\<lambda>r. ur_id r = word_of_nat (pg_supply d + 1) \<or> ur_org r = word_of_nat (pg_supply d) \<and> ur_email r = normalizeEmail ''Ada@Acme.org''
       \<or> sql_lower (ur_email r) = sql_lower (normalizeEmail ''Ada@Acme.org'')) (db_users (pg_db d))"
    using assms(2,3) by (auto simp: list_ex_iff)
  then obtain r d1 where "sim_pg (RegisterOrgTx ''Acme'' (normalizeEmail ''Ada@Acme.org'') hash ''Ada'') d = (Inr (PgUser r), d1)"
    "db_users (pg_db d1) = db_users (pg_db d) @ [r]" "ur_version r = 0" "ur_id r = word_of_nat (pg_supply d + 1)" "pg_plan d1 = []"
    using assms(1) by (simp add: sim_pg_def sql_register_org_def sql_insert_org_def sql_insert_user_def pg_fail_def Let_def)
  with hash show ?thesis
    by (auto simp: handle_Register_def RegisterOrg_def demo_register_def demo_valid demo_draws_def)
qed

lemma demo_pair:
  "\<exists>access refresh e e'. token_pair (respondWithTokens demo_id dr st (scan_user r)) = Some (access, refresh) \<and>
     issue_for demo_id (dr_access dr) KindAccess r = Inr (access, e)"
  by (simp add: respondWithTokens_def scan_user_def Issue_def ref_jwt_def Let_def token_pair_def)

lemma demo_logout:
  assumes "issue_for demo_id (0, ''a'') KindAccess r = Inr (access, e)" and "pg_plan d = []" and "db_users (pg_db d) = [r]" and "ur_version r = 0"
  shows "\<exists>resp d'. auth_Middleware ref_jwt dec_uuid (NewIssuer ''key'' Minute Hour Hour) 5 (handle_Logout demo_id) (demo_request access) d = (resp, d')
    \<and> rs_status resp = StatusOK"
proof -
  let ?i = "NewIssuer ''key'' Minute Hour Hour"
  have iss: "Issue ref_jwt dec_uuid ?i 0 ''a'' KindAccess (ur_id r) (ur_org r) (ur_role r) (ur_version r) = Inr (access, e)"
    using assms(1) by simp
  have "e = Minute" using refjwt.Issue_issued(1) [OF iss] by (simp add: NewIssuer_def)
  then have t: "5 < jwt_NewNumericDate ref_jwt e" by (simp add: ref_jwt_def Minute_def Second_def)
  have "access \<noteq> []" using iss by (auto simp: Issue_def ref_jwt_def Let_def)
  obtain c where c: "Parse ref_jwt ?i 5 access = Inr c"
    by (rule refjwt.parse_cases [OF refjwt.Issue_issued(2) [OF iss] exp_of_json(1), of 5]) (use t in \<open>auto simp: Parse_def\<close>)
  obtain rep d' where "sim_pg (BumpVersion (ur_id r) (ur_org r)) d = (Inr rep, d')"
    using assms(2-4) by (simp add: sim_pg_def sql_bump_version_def sql_update_def pg_fail_def Let_def max_int32_def)
  with c ref_Issue_bearer [OF iss] Issue_Parse_claims [OF refjwt.jwt_library_axioms iss c] \<open>access \<noteq> []\<close>
  show ?thesis by (simp add: auth_Middleware_def Let_def handle_Logout_def BumpTokenVersion_def)
qed



definition demo_staff :: pgsim where
  "demo_staff = \<lparr>pg_db = \<lparr>db_clock = 0, db_orgs = [\<lparr>or_id = 1, or_name = ''Acme'', or_created = 0\<rparr>],
     db_users = [\<lparr>ur_id = 2, ur_org = 1, ur_email = ''boss'', ur_hash = ''h'', ur_display = '''', ur_role = ''admin'',
        ur_disabled = False, ur_created = 0, ur_version = 0\<rparr>,
       \<lparr>ur_id = 9, ur_org = 1, ur_email = ''staff'', ur_hash = ''h'', ur_display = '''', ur_role = ''agent'',
        ur_disabled = False, ur_created = 0, ur_version = 4\<rparr>],
     db_sessions = [], db_recordings = []\<rparr>, pg_supply = 20, pg_plan = []\<rparr>"

lemma demo_email: "normalizeEmail ''Ada@Acme.org'' = ''ada@acme.org''"
proof -
  have "TrimSpace ''Ada@Acme.org'' = ''Ada@Acme.org''" by (rule TrimSpace_id; code_simp)
  then show ?thesis by (simp add: normalizeEmail_def ascii_lower_def char_of_def bit_0)
qed

lemma demo_staff_disable:
  "\<exists>resp d1. handle_SetUserDisabled demo_id True admin_request demo_staff = (resp, d1) \<and> rs_status resp = StatusOK \<and>
     pg_plan d1 = [] \<and> pg_supply d1 = 22 \<and> map or_id (db_orgs (pg_db d1)) = [1] \<and> map ur_id (db_users (pg_db d1)) = [2, 9] \<and>
     map ur_email (db_users (pg_db d1)) = [''boss'', ''staff'']"
  by (simp add: handle_SetUserDisabled_def SetDisabled_def requireAdmin_def admin_request_def FromContext_def PathValue_def map_get_def
      dec_uuid_def dec_nat_def char_digit_def is_digit_def demo_staff_def sim_pg_def sql_set_disabled_def sql_update_def pg_fail_def Let_def max_int32_def)


end
