(* ===== verification/Signaling_Termination.thy ===== *)
theory Signaling_Termination
  imports Signaling_Properties
begin

text \<open>
  How long the handler of a connection can go on between two reads (\<open>ServeWS\<close>, \<open>readPump\<close> and its
  deferred cleanup in \<open>signaling/handlers.go\<close>): joining, relaying a message and leaving each end after
  a bounded number of locked sections of the connection's own goroutine, whatever the others do
  meanwhile. The rank of a program point bounds the sections that are left.
\<close>

fun pc_rank :: "pc \<Rightarrow> nat" where
  "pc_rank AtRegister = 5"
| "pc_rank AtJoin = 4"
| "pc_rank AtNotify = 3"
| "pc_rank (AtPublish _ _) = 2"
| "pc_rank (AtDeliver _ _ _) = 1"
| "pc_rank Reading = 0"
| "pc_rank AtUnregister = 5"
| "pc_rank AtLeave = 4"
| "pc_rank AtCloseSend = 3"
| "pc_rank Finished = 0"

text \<open>What starts new work for \<open>p\<close>: a message from its socket, or the end of its socket.\<close>

fun reads :: "string \<Rightarrow> act \<Rightarrow> bool" where
  "reads p (Message q data) = (q = p)"
| "reads p (ReadError q) = (q = p)"
| "reads p _ = False"

lemma pc_rank_after [simp]: "pc_rank (after fin) = 0"
  by (simp add: after_def)

lemma pc_rank_zero: "pc_rank x = 0 \<longleftrightarrow> x = Reading \<or> x = Finished"
  by (cases x) simp_all

lemma sys_go_rank:
  assumes "sys_go ops cd p c s = Some t"
  shows "\<exists>c'. sy_conn t = (sy_conn s)(p \<mapsto> c') \<and> Suc (pc_rank (cn_pc c')) \<le> pc_rank (cn_pc c)"
  using assms by (cases "cn_pc c") (auto simp: sys_go_def split: prod.splits go.splits option.splits)

lemma sys_do_rank:
  assumes "sys_do ops cd a s = Some t" and "sy_conn s p = Some c" and "\<not> reads p a"
  shows "\<exists>c'. sy_conn t p = Some c' \<and> pc_rank (cn_pc c') + (if a = Go p then 1 else 0) \<le> pc_rank (cn_pc c)"
proof (cases a)
  case (Go q)
  then obtain d where d: "sy_conn s q = Some d" "sys_go ops cd q d s = Some t"
    using assms(1) by (auto split: option.splits)
  from sys_go_rank [OF d(2)] d(1) assms(2) Go show ?thesis by (cases "q = p") auto
qed (use assms in \<open>auto split: option.splits if_splits go.splits\<close>)

lemma sys_run_rank:
  "sys_run ops cd as s = Some t \<Longrightarrow> sy_conn s p = Some c \<Longrightarrow> \<not> list_ex (reads p) as \<Longrightarrow>
     \<exists>c'. sy_conn t p = Some c' \<and> pc_rank (cn_pc c') + length (filter (\<lambda>a. a = Go p) as) \<le> pc_rank (cn_pc c)"
proof (induction "as" arbitrary: s c)
  case (Cons a as)
  then obtain u where u: "sys_do ops cd a s = Some u" "sys_run ops cd as u = Some t" by (auto split: option.splits)
  from sys_do_rank [OF u(1) Cons.prems(2)] Cons.prems(3) obtain d where
    d: "sy_conn u p = Some d" "pc_rank (cn_pc d) + (if a = Go p then 1 else 0) \<le> pc_rank (cn_pc c)" by auto
  from Cons.IH [OF u(2) d(1)] Cons.prems(3) d(2) show ?case by (auto split: if_splits)
qed simp

lemma sys_go_enabled:
  assumes "peers_inv s" and "table_inv s" and c: "sy_conn s p = Some c" and "pc_rank (cn_pc c) \<noteq> 0"
  shows "\<exists>t. sys_go ops cd p c s = Some t"
proof -
  have send: "\<exists>h. hub_Send p q f (sy_hub s) = Return h" if "h_peers (sy_hub s) q \<noteq> None" for q f
    using that assms(1) hub_Send_total [of "sy_hub s" q _ p f] by (force simp: peers_inv_def)
  obtain peer where peer: "h_peers (sy_hub s) p = Some peer" "wsPeer_ok peer"
    using assms(1) c unfolding peers_inv_def by blast
  show ?thesis
  proof (cases "cn_pc c")
    case AtNotify
    with send [of p "marshal cd ready_envelope"] peer show ?thesis by (auto simp: sys_go_def)
  next
    case (AtDeliver q f fin)
    have "h_peers (sy_hub s) q \<noteq> None"
      using table_inv_deliver [OF assms(2) c AtDeliver] assms(1) by (auto simp: same_room_def peers_inv_def)
    with send [of q f] AtDeliver show ?thesis by (auto simp: sys_go_def)
  next
    case AtCloseSend
    obtain peer' where "closeSend peer = Return peer'" using peer(2) by (auto elim: closeSend_ok)
    with AtCloseSend peer(1) show ?thesis by (auto simp: sys_go_def)
  qed (use assms(4) in \<open>auto simp: sys_go_def split: prod.split\<close>)
qed

text \<open>
  C15: joining, relaying and leaving terminate. From any reachable state and in any interleaving with
  the other connections in which a connection reads nothing, its goroutine takes at most five more
  turns (at most two when it is relaying), and until it is back at its socket or has ended its next
  turn is always possible; so once its socket fails, it has left the room, closed its queue and said
  goodbye after five turns of its own.
\<close>

theorem handler_work_terminates:
  assumes "sys_reach local_ops cd NewLocalPresence s" and "sy_conn s p = Some c"
    and "sys_run local_ops cd as s = Some t" and "\<not> list_ex (reads p) as"
  shows "\<exists>c'. sy_conn t p = Some c' \<and> length (filter (\<lambda>a. a = Go p) as) + pc_rank (cn_pc c') \<le> pc_rank (cn_pc c) \<and>
    pc_rank (cn_pc c) \<le> 5 \<and>
    (cn_pc c' \<in> {Reading, Finished} \<or> (\<exists>u. sys_do local_ops cd (Go p) t = Some u))"
proof -
  from sys_run_rank [OF assms(3,2,4)] obtain c' where c': "sy_conn t p = Some c'"
    "pc_rank (cn_pc c') + length (filter (\<lambda>a. a = Go p) as) \<le> pc_rank (cn_pc c)" by blast
  have "sys_inv lp_present lp_wf cd t" by (rule local_inv [OF sys_run_reach [OF assms(3,1)]])
  then have inv: "peers_inv t" "table_inv t" by (simp_all add: sys_inv_def)
  have "cn_pc c' \<in> {Reading, Finished} \<or> (\<exists>u. sys_do local_ops cd (Go p) t = Some u)"
    using sys_go_enabled [OF inv c'(1), of local_ops cd] c'(1) pc_rank_zero [of "cn_pc c'"] by auto
  moreover have "pc_rank (cn_pc c) \<le> 5" by (cases "cn_pc c") simp_all
  ultimately show ?thesis using c' by (simp add: add.commute)
qed

theorem handler_work_terminates_witness:
  "\<exists>s t c'. sys_run local_ops demo_codec (demo_join @ [ReadError ''a'']) (sys_start NewLocalPresence) = Some s \<and>
     sys_run local_ops demo_codec (replicate 5 (Go ''a'')) s = Some t \<and> sy_conn t ''a'' = Some c' \<and>
     length (filter (\<lambda>a. a = Go ''a'') (replicate 5 (Go ''a''))) + pc_rank (cn_pc c') \<le> 5 \<and> cn_pc c' \<in> {Reading, Finished}"
proof -
  obtain s where s: "sys_run local_ops demo_codec (demo_join @ [ReadError ''a'']) (sys_start NewLocalPresence) = Some s"
    "sy_conn s ''a'' = Some \<lparr>cn_room = ''m'', cn_role = ''agent'', cn_pc = AtUnregister, cn_saw = False\<rparr>"
    "\<not> Option.is_none (sys_run local_ops demo_codec (replicate 5 (Go ''a'')) s)"
    by (simp add: demo_defs closeSend_def chan_close_def eval_nat_numeral)
  then obtain t where t: "sys_run local_ops demo_codec (replicate 5 (Go ''a'')) s = Some t"
    by (cases "sys_run local_ops demo_codec (replicate 5 (Go ''a'')) s") auto
  have "sys_reach local_ops demo_codec NewLocalPresence s" by (rule sys_run_reach [OF s(1) sys_reach.start])
  moreover have "\<not> list_ex (reads ''a'') (replicate 5 (Go ''a''))" by (simp add: list_ex_iff)
  ultimately obtain c' where c': "sy_conn t ''a'' = Some c'"
    "length (filter (\<lambda>a. a = Go ''a'') (replicate 5 (Go ''a''))) + pc_rank (cn_pc c') \<le> 5"
    using handler_work_terminates [OF _ s(2) t] by auto
  then have "pc_rank (cn_pc c') = 0" by simp
  with c' s(1) t show ?thesis using pc_rank_zero [of "cn_pc c'"] by blast
qed

end
