(* ===== verification/Recorders.thy ===== *)
theory Recorders
  imports Http
begin

text \<open>
  The writers between a handler and the connection: \<open>statusRecorder\<close> of \<open>metrics/metrics.go\<close> and
  \<open>statusWriter\<close> of \<open>httpapi/router.go\<close>, whose texts are the same, and the log line of \<open>logging\<close>. The
  locale \<open>response_writer\<close> is what is relied on of an \<open>http.ResponseWriter\<close>; wrapping one gives one
  again, so the two layers of the server are two interpretations. What they record is what the client
  receives, for handlers that send their header before their body.
\<close>

section \<open>The interface\<close>

text \<open>Informational codes do not end the header; \<open>101\<close> does.\<close>

definition final_code :: "int \<Rightarrow> bool" where
  "final_code c \<longleftrightarrow> c = 101 \<or> 200 \<le> c \<and> c \<le> 999"

locale response_writer =
  fixes wh :: "int \<Rightarrow> 'w \<Rightarrow> 'w go"
    and wr :: "string \<Rightarrow> 'w \<Rightarrow> 'w"
    and sent :: "'w \<Rightarrow> int option"
  assumes wh_first: "sent w = None \<Longrightarrow> final_code c \<Longrightarrow> wh c w = Return w' \<Longrightarrow> sent w' = Some c"
    and wh_later: "sent w = Some x \<Longrightarrow> wh c w = Return w' \<Longrightarrow> sent w' = Some x"
    and wr_first: "sent w = None \<Longrightarrow> sent (wr b w) = Some 200"
    and wr_later: "sent w = Some x \<Longrightarrow> sent (wr b w) = Some x"
    and wh_final: "final_code c \<Longrightarrow> \<exists>w'. wh c w = Return w'"

section \<open>The connection of net/http\<close>

record base_writer =
  bw_status :: "int option"
  bw_info :: "int list"
  bw_body :: string
  bw_hijacker :: bool
  bw_hijacked :: bool

definition new_base :: "bool \<Rightarrow> base_writer" where
  "new_base hijacker = \<lparr>bw_status = None, bw_info = [], bw_body = '''', bw_hijacker = hijacker, bw_hijacked = False\<rparr>"

text \<open>A code out of range panics; a second header is dropped, with a line in the log.\<close>

definition base_WriteHeader :: "int \<Rightarrow> base_writer \<Rightarrow> base_writer go" where
  "base_WriteHeader c w =
     (if c < 100 \<or> 999 < c then Panic ''invalid WriteHeader code''
      else if bw_status w \<noteq> None then Return w
      else if final_code c then Return (w\<lparr>bw_status := Some c\<rparr>)
      else Return (w\<lparr>bw_info := bw_info w @ [c]\<rparr>))"

definition base_Write :: "string \<Rightarrow> base_writer \<Rightarrow> base_writer" where
  "base_Write b w = w\<lparr>bw_status := (case bw_status w of None \<Rightarrow> Some 200 | Some c \<Rightarrow> Some c), bw_body := bw_body w @ b\<rparr>"

definition base_Hijack :: "base_writer \<Rightarrow> base_writer res" where
  "base_Hijack w = (if bw_hijacked w then Inl (ErrExt ''http: connection has been hijacked'') else Inr (w\<lparr>bw_hijacked := True\<rparr>))"

interpretation base: response_writer base_WriteHeader base_Write bw_status
  by unfold_locales (auto simp: base_WriteHeader_def base_Write_def final_code_def split: if_splits)

section \<open>The recorders\<close>

record 'w statusRecorder =
  rec_ResponseWriter :: 'w
  rec_status :: int
  rec_wroteHeader :: bool

definition new_recorder :: "'w \<Rightarrow> 'w statusRecorder" where
  "new_recorder w = \<lparr>rec_ResponseWriter = w, rec_status = StatusOK, rec_wroteHeader = False\<rparr>"

definition statusRecorder_WriteHeader :: "(int \<Rightarrow> 'w \<Rightarrow> 'w go) \<Rightarrow> int \<Rightarrow> 'w statusRecorder \<Rightarrow> 'w statusRecorder go" where
  "statusRecorder_WriteHeader wh code s =
     (let s = (if \<not> rec_wroteHeader s then s\<lparr>rec_status := code, rec_wroteHeader := True\<rparr> else s)
      in case wh code (rec_ResponseWriter s) of
           Panic m \<Rightarrow> Panic m
         | Return w \<Rightarrow> Return (s\<lparr>rec_ResponseWriter := w\<rparr>))"

lemma WriteHeader_under:
  "statusRecorder_WriteHeader wh c s = Return t \<Longrightarrow> wh c (rec_ResponseWriter s) = Return (rec_ResponseWriter t)"
  by (auto simp: statusRecorder_WriteHeader_def Let_def split: go.splits if_splits)

text \<open>\<open>Write\<close> is the one of the embedded writer.\<close>

definition recorder_Write :: "(string \<Rightarrow> 'w \<Rightarrow> 'w) \<Rightarrow> string \<Rightarrow> 'w statusRecorder \<Rightarrow> 'w statusRecorder" where
  "recorder_Write wr b s = s\<lparr>rec_ResponseWriter := wr b (rec_ResponseWriter s)\<rparr>"

lemma recorder_Write_sel [simp]:
  "rec_wroteHeader (recorder_Write wr b s) = rec_wroteHeader s" "rec_status (recorder_Write wr b s) = rec_status s"
  "rec_ResponseWriter (recorder_Write wr b s) = wr b (rec_ResponseWriter s)"
  by (cases s, simp add: recorder_Write_def)+

definition statusRecorder_Hijack ::
  "('w \<Rightarrow> bool) \<Rightarrow> ('w \<Rightarrow> 'w res) \<Rightarrow> 'w statusRecorder \<Rightarrow> 'w statusRecorder res" where
  "statusRecorder_Hijack hijacker hijack s =
     (if \<not> hijacker (rec_ResponseWriter s) then Inl (ErrNew ''underlying ResponseWriter does not support hijacking'')
      else case hijack (rec_ResponseWriter s) of
             Inl e \<Rightarrow> Inl e
           | Inr w \<Rightarrow> Inr (s\<lparr>rec_ResponseWriter := w\<rparr>))"

text \<open>\<open>statusWriter\<close> of the router has the same fields and methods.\<close>

type_synonym 'w statusWriter = "'w statusRecorder"

definition statusWriter_WriteHeader :: "(int \<Rightarrow> 'w \<Rightarrow> 'w go) \<Rightarrow> int \<Rightarrow> 'w statusWriter \<Rightarrow> 'w statusWriter go" where
  "statusWriter_WriteHeader = statusRecorder_WriteHeader"

definition statusWriter_Hijack ::
  "('w \<Rightarrow> bool) \<Rightarrow> ('w \<Rightarrow> 'w res) \<Rightarrow> 'w statusWriter \<Rightarrow> 'w statusWriter res" where
  "statusWriter_Hijack = statusRecorder_Hijack"

context response_writer
begin

abbreviation rec_sent :: "'w statusRecorder \<Rightarrow> int option" where
  "rec_sent s \<equiv> sent (rec_ResponseWriter s)"

lemma wrapped: "response_writer (statusRecorder_WriteHeader wh) (recorder_Write wr) rec_sent"
proof
  fix w :: "'w statusRecorder" and c
  assume "final_code c"
  then obtain u where "wh c (rec_ResponseWriter w) = Return u" using wh_final by blast
  then show "\<exists>w'. statusRecorder_WriteHeader wh c w = Return w'"
    by (simp add: statusRecorder_WriteHeader_def Let_def)
qed (auto simp: statusRecorder_WriteHeader_def recorder_Write_def Let_def wr_first wr_later
    split: go.splits if_splits dest: wh_first wh_later)

text \<open>The recorded status is the one sent, or its default while nothing else has been.\<close>

definition agrees :: "'w statusRecorder \<Rightarrow> bool" where
  "agrees s \<longleftrightarrow> (if rec_wroteHeader s then rec_sent s = Some (rec_status s)
     else rec_status s = 200 \<and> rec_sent s \<in> {None, Some 200})"

lemma agrees_new: "sent w = None \<Longrightarrow> agrees (new_recorder w)"
  by (simp add: agrees_def new_recorder_def)

lemma agrees_Write: "agrees s \<Longrightarrow> agrees (recorder_Write wr b s)"
  by (auto simp: agrees_def recorder_Write_def wr_first wr_later split: if_splits)

lemma agrees_WriteHeader:
  assumes "agrees s" and "statusRecorder_WriteHeader wh c s = Return s'"
    and "rec_sent s = None \<and> final_code c \<or> rec_wroteHeader s"
  shows "agrees s' \<and> rec_wroteHeader s'"
  using assms by (auto simp: agrees_def statusRecorder_WriteHeader_def Let_def split: if_splits go.splits dest: wh_first wh_later)

end

section \<open>The two layers of the server\<close>

text \<open>\<open>MiddlewareDynamic\<close> wraps the connection, \<open>logging\<close> wraps that.\<close>

type_synonym stack = "base_writer statusRecorder statusWriter"

abbreviation recorder_WriteHeader :: "int \<Rightarrow> base_writer statusRecorder \<Rightarrow> base_writer statusRecorder go" where
  "recorder_WriteHeader \<equiv> statusRecorder_WriteHeader base_WriteHeader"

interpretation layer: response_writer recorder_WriteHeader "recorder_Write base_Write" "\<lambda>s. bw_status (rec_ResponseWriter s)"
  by (rule base.wrapped)

datatype wcall = WriteHeader int | Write string

fun stack_call :: "wcall \<Rightarrow> stack \<Rightarrow> stack go" where
  "stack_call (WriteHeader c) s = statusWriter_WriteHeader recorder_WriteHeader c s"
| "stack_call (Write b) s = Return (recorder_Write (recorder_Write base_Write) b s)"

fun stack_exec :: "wcall list \<Rightarrow> stack \<Rightarrow> stack go" where
  "stack_exec [] s = Return s"
| "stack_exec (c # cs) s = (case stack_call c s of Panic m \<Rightarrow> Panic m | Return t \<Rightarrow> stack_exec cs t)"

definition new_stack :: "bool \<Rightarrow> stack" where
  "new_stack hijacker = new_recorder (new_recorder (new_base hijacker))"

text \<open>The status the client receives: net/http sends 200 for a handler that wrote nothing.\<close>

definition client_status :: "stack \<Rightarrow> int" where
  "client_status s = (case bw_status (rec_ResponseWriter (rec_ResponseWriter s)) of None \<Rightarrow> 200 | Some c \<Rightarrow> c)"

text \<open>
  \<open>logging\<close>: what \<open>next\<close> writes goes through a new \<open>statusWriter\<close>; one line is logged with the method,
  the path and the recorded status (the latency is left out).
\<close>

definition logging :: "request \<Rightarrow> wcall list \<Rightarrow> base_writer statusRecorder \<Rightarrow> (stack \<times> string \<times> string \<times> int) go" where
  "logging r calls w =
     (case stack_exec calls (new_recorder w) of
        Panic m \<Rightarrow> Panic m
      | Return sw \<Rightarrow> Return (sw, rq_method r, rq_path r, rec_status sw))"

text \<open>Headers come first: no header after a body that was sent without one.\<close>

fun is_write :: "wcall \<Rightarrow> bool" where
  "is_write (Write _) = True"
| "is_write (WriteHeader _) = False"

fun header_first :: "wcall list \<Rightarrow> bool" where
  "header_first [] = True"
| "header_first (WriteHeader c # cs) = final_code c"
| "header_first (Write b # cs) = list_all is_write cs"

definition all_agree :: "stack \<Rightarrow> bool" where
  "all_agree s \<longleftrightarrow> layer.agrees s \<and> base.agrees (rec_ResponseWriter s)"

lemma all_agree_call:
  assumes "all_agree s" and "stack_call c s = Return t"
    and "case c of Write _ \<Rightarrow> True | WriteHeader x \<Rightarrow> bw_status (rec_ResponseWriter (rec_ResponseWriter s)) = None \<and> final_code x \<or>
      rec_wroteHeader s \<and> rec_wroteHeader (rec_ResponseWriter s)"
  shows "all_agree t \<and> (case c of Write _ \<Rightarrow> rec_wroteHeader t = rec_wroteHeader s \<and>
       rec_wroteHeader (rec_ResponseWriter t) = rec_wroteHeader (rec_ResponseWriter s)
     | WriteHeader _ \<Rightarrow> rec_wroteHeader t \<and> rec_wroteHeader (rec_ResponseWriter t))"
proof (cases c)
  case (Write b)
  then have "t = recorder_Write (recorder_Write base_Write) b s" using assms(2) by simp
  then show ?thesis
    using assms(1) layer.agrees_Write [of s b] base.agrees_Write [of "rec_ResponseWriter s" b] Write
    by (simp add: all_agree_def)
next
  case (WriteHeader x)
  then have w: "statusRecorder_WriteHeader recorder_WriteHeader x s = Return t"
    using assms(2) by (simp add: statusWriter_WriteHeader_def)
  then have u: "recorder_WriteHeader x (rec_ResponseWriter s) = Return (rec_ResponseWriter t)"
    by (rule WriteHeader_under)
  show ?thesis
    using layer.agrees_WriteHeader [OF _ w] base.agrees_WriteHeader [OF _ u] assms(1,3) WriteHeader
    by (auto simp: all_agree_def)
qed

lemma all_agree_exec:
  assumes "stack_exec cs s = Return t" and "all_agree s"
    and "rec_wroteHeader s \<and> rec_wroteHeader (rec_ResponseWriter s) \<or>
      list_all is_write cs"
  shows "all_agree t"
  using assms
proof (induction cs arbitrary: s)
  case (Cons c cs)
  then obtain u where u: "stack_call c s = Return u" "stack_exec cs u = Return t" by (auto split: go.splits)
  have "case c of Write _ \<Rightarrow> True | WriteHeader x \<Rightarrow> bw_status (rec_ResponseWriter (rec_ResponseWriter s)) = None \<and> final_code x \<or>
      rec_wroteHeader s \<and> rec_wroteHeader (rec_ResponseWriter s)"
    using Cons.prems(3) by (auto split: wcall.splits)
  from all_agree_call [OF Cons.prems(2) u(1) this] Cons.prems(3) show ?case
    by (intro Cons.IH [OF u(2)]) (auto split: wcall.splits)
qed simp

lemma client_status_agrees: "all_agree s \<Longrightarrow> rec_status s = client_status s \<and> rec_status (rec_ResponseWriter s) = client_status s"
  by (auto simp: all_agree_def layer.agrees_def base.agrees_def client_status_def split: if_splits)

text \<open>
  C24: the metrics and the log tell the truth. For every sequence of writes of a handler that sends its
  header before its body (or no header at all), however many further headers follow (a panic handler's,
  say), the status counted by the metrics and the status in the log line are the status that the client
  receives.
\<close>

theorem recorded_status_is_sent:
  assumes "logging r calls (new_recorder (new_base hijacker)) = Return (sw, line)" and "header_first calls"
  shows "rec_status (rec_ResponseWriter sw) = client_status sw \<and> line = (rq_method r, rq_path r, client_status sw)"
proof -
  let ?s = "new_stack hijacker"
  have e: "stack_exec calls ?s = Return sw" "line = (rq_method r, rq_path r, rec_status sw)"
    using assms(1) by (auto simp: logging_def new_stack_def split: go.splits)
  have s: "all_agree ?s" "bw_status (rec_ResponseWriter (rec_ResponseWriter ?s)) = None"
    by (simp_all add: all_agree_def layer.agrees_def base.agrees_def new_stack_def new_recorder_def new_base_def)
  have "all_agree sw"
  proof (cases calls)
    case (Cons c cs)
    then obtain u where u: "stack_call c ?s = Return u" "stack_exec cs u = Return sw" using e by (auto split: go.splits)
    have "case c of Write _ \<Rightarrow> True | WriteHeader x \<Rightarrow> bw_status (rec_ResponseWriter (rec_ResponseWriter ?s)) = None \<and> final_code x \<or>
        rec_wroteHeader ?s \<and> rec_wroteHeader (rec_ResponseWriter ?s)"
      using assms(2) Cons s(2) by (auto split: wcall.splits)
    from all_agree_call [OF s(1) u(1) this] assms(2) Cons show ?thesis
      by (intro all_agree_exec [OF u(2)]) (auto split: wcall.splits)
  qed (use e s in simp)
  with client_status_agrees e(2) show ?thesis by auto
qed

definition demo_get :: request where
  "demo_get = \<lparr>rq_method = ''GET'', rq_path = ''/v1/me'', rq_query = [], rq_header = [], rq_pathvals = [],
     rq_RemoteAddr = '''', rq_principal = None\<rparr>"

theorem recorded_status_is_sent_witness:
  "\<exists>sw. logging demo_get [WriteHeader 201, Write ''x'', WriteHeader 500] (new_recorder (new_base True)) =
       Return (sw, ''GET'', ''/v1/me'', 201) \<and>
     rec_status (rec_ResponseWriter sw) = client_status sw \<and> client_status sw = 201"
proof -
  obtain sw where l: "logging demo_get [WriteHeader 201, Write ''x'', WriteHeader 500] (new_recorder (new_base True)) =
      Return (sw, ''GET'', ''/v1/me'', 201)"
    by (simp add: logging_def new_recorder_def new_base_def statusWriter_WriteHeader_def statusRecorder_WriteHeader_def
        base_WriteHeader_def base_Write_def recorder_Write_def final_code_def Let_def demo_get_def)
  have "header_first [WriteHeader 201, Write ''x'', WriteHeader 500]" by (simp add: final_code_def)
  from recorded_status_is_sent [OF l this] l show ?thesis by auto
qed

text \<open>
  A handler that writes a body without a header and then panics: the recovering middleware's 500 is
  counted and logged although the client has received 200.
\<close>

lemma late_header_misrecorded:
  "\<exists>sw. logging r [Write b, WriteHeader 500] (new_recorder (new_base hijacker)) = Return (sw, rq_method r, rq_path r, 500) \<and>
     client_status sw = 200"
  by (simp add: logging_def new_recorder_def new_base_def statusWriter_WriteHeader_def statusRecorder_WriteHeader_def
      base_WriteHeader_def base_Write_def recorder_Write_def final_code_def Let_def client_status_def)

text \<open>An upgrade through a recorder reaches the connection and leaves the recorded status at 200; over a writer that cannot be hijacked it fails.\<close>

lemma hijack_through:
  assumes "bw_hijacker w" and "\<not> bw_hijacked w"
  shows "statusRecorder_Hijack bw_hijacker base_Hijack (new_recorder w) = Inr (new_recorder (w\<lparr>bw_hijacked := True\<rparr>))"
    and "\<not> bw_hijacker w' \<Longrightarrow> \<exists>e. statusRecorder_Hijack bw_hijacker base_Hijack (new_recorder w') = Inl e"
  using assms by (simp_all add: statusRecorder_Hijack_def base_Hijack_def new_recorder_def)

end
