(* ===== verification/Keepalive.thy ===== *)
theory Keepalive
  imports Ws_Peer
begin

text \<open>
  Deadlines of a WebSocket (\<open>signaling/handlers.go\<close>: the constants, the setup of \<open>readPump\<close> and the
  ticker of \<open>writePump\<close>). What arrives on the socket is a list of events with their times. A read
  fails when the deadline passes first, or when the message is larger than the limit; only pongs move
  the deadline.
\<close>

section \<open>Reading\<close>

definition writeWait :: duration where
  "writeWait = 10 * Second"

definition pongWait :: duration where
  "pongWait = 60 * Second"

definition pingPeriod :: duration where
  "pingPeriod = (pongWait * 9) div 10"

definition maxMessageSize :: nat where
  "maxMessageSize = 64 * 1024"

datatype arrival = Pong | Data nat

datatype read_state = Alive time | TimedOut | TooLarge

text \<open>\<open>SetReadDeadline(time.Now().Add(pongWait))\<close>, at the start and in the pong handler.\<close>

definition set_deadline :: "time \<Rightarrow> read_state" where
  "set_deadline now = Alive (now + pongWait)"

fun read_event :: "time \<times> arrival \<Rightarrow> read_state \<Rightarrow> read_state" where
  "read_event (t, e) (Alive deadline) =
     (if deadline < t then TimedOut
      else case e of
        Pong \<Rightarrow> set_deadline t
      | Data n \<Rightarrow> if maxMessageSize < n then TooLarge else Alive deadline)"
| "read_event _ x = x"

definition read_events :: "(time \<times> arrival) list \<Rightarrow> read_state \<Rightarrow> read_state" where
  "read_events = fold read_event"

text \<open>The times of the pings of \<open>writePump\<close>, whose ticker was started at \<open>t0\<close>.\<close>

definition ping_time :: "time \<Rightarrow> nat \<Rightarrow> time" where
  "ping_time t0 k = t0 + int k * pingPeriod"

section \<open>Responsive peers\<close>

lemma periods: "pongWait = 60000000000" "pingPeriod = 54000000000"
  by (simp_all add: pongWait_def pingPeriod_def Second_def)

text \<open>Ping \<open>j\<close> is answered: a pong arrives after it and within the slack between the two periods.\<close>

definition answered :: "time \<Rightarrow> (time \<times> arrival) list \<Rightarrow> nat \<Rightarrow> bool" where
  "answered t0 es j \<longleftrightarrow> list_ex (\<lambda>(t, e). e = Pong \<and> ping_time t0 j \<le> t \<and> t \<le> ping_time t0 j + (pongWait - pingPeriod)) es"

lemma read_alive:
  assumes "sorted (map fst es)" and "list_all (\<lambda>(t, e). ping_time t0 k \<le> t \<and> t \<le> ping_time t0 n + pongWait) es"
    and "list_all (\<lambda>(t, e). \<forall>m. e = Data m \<longrightarrow> m \<le> maxMessageSize) es"
    and "\<And>j. k < j \<Longrightarrow> j \<le> n \<Longrightarrow> answered t0 es j" and "k \<le> n" and "ping_time t0 k + pongWait \<le> d"
  shows "\<exists>d'. read_events es (Alive d) = Alive d' \<and> ping_time t0 n + pongWait \<le> d'"
  using assms
proof (induction es arbitrary: k d)
  case Nil
  then have "k = n" using Nil.prems(4) [of n] by (cases "k = n") (auto simp: answered_def)
  with Nil show ?case by (simp add: read_events_def)
next
  case (Cons ev es)
  obtain t e where ev: "ev = (t, e)" by (cases ev)
  have sorted: "sorted (map fst es)" "\<And>u f. (u, f) \<in> set es \<Longrightarrow> t \<le> u"
    using Cons.prems(1) ev by (auto simp: image_iff)
  have alive: "t \<le> d"
  proof (cases "k = n")
    case True
    with Cons.prems(2,6) ev show ?thesis by auto
  next
    case False
    then have "answered t0 (ev # es) (Suc k)" using Cons.prems(4) [of "Suc k"] Cons.prems(5) by simp
    then obtain a where "(a, Pong) \<in> set (ev # es)" "a \<le> ping_time t0 (Suc k) + (pongWait - pingPeriod)"
      by (auto simp: answered_def list_ex_iff)
    moreover from this(1) have "t \<le> a" using sorted(2) ev by auto
    ultimately show ?thesis using Cons.prems(6) by (simp add: ping_time_def periods)
  qed
  define k' where "k' = (if e = Pong \<and> k < n \<and> ping_time t0 (Suc k) \<le> t then Suc k else k)"
  define d' where "d' = (if e = Pong then t + pongWait else d)"
  have step: "read_event ev (Alive d) = Alive d'"
    using alive Cons.prems(3) ev by (auto simp: d'_def set_deadline_def split: arrival.split)
  have tk: "ping_time t0 k \<le> t" using Cons.prems(2) ev by auto
  have low: "list_all (\<lambda>(u, f). ping_time t0 k' \<le> u \<and> u \<le> ping_time t0 n + pongWait) es"
    using Cons.prems(2) sorted(2) tk by (fastforce simp: k'_def list_all_iff)
  have ans: "answered t0 es j" if "k' < j" "j \<le> n" for j
  proof -
    have "k < j" using that(1) by (simp add: k'_def split: if_splits)
    then have a: "answered t0 (ev # es) j" using Cons.prems(4) that(2) by blast
    have "\<not> (e = Pong \<and> ping_time t0 j \<le> t)"
    proof
      assume h: "e = Pong \<and> ping_time t0 j \<le> t"
      have "ping_time t0 (Suc k) \<le> ping_time t0 j" using \<open>k < j\<close> by (simp add: ping_time_def periods)
      with h \<open>k < j\<close> that(2) have k': "k' = Suc k" by (simp add: k'_def)
      then have "Suc (Suc k) \<le> j" using that(1) by simp
      then have "ping_time t0 (Suc (Suc k)) \<le> t" using h by (simp add: ping_time_def periods)
      moreover have "answered t0 (ev # es) (Suc k)" using Cons.prems(4) [of "Suc k"] \<open>k < j\<close> that(2) by simp
      then obtain b where "(b, Pong) \<in> set (ev # es)" "b \<le> ping_time t0 (Suc k) + (pongWait - pingPeriod)"
        by (auto simp: answered_def list_ex_iff)
      moreover from this(1) have "t \<le> b" using sorted(2) ev by auto
      ultimately show False by (simp add: ping_time_def periods)
    qed
    with a ev show ?thesis by (auto simp: answered_def)
  qed
  have "k' \<le> n" "ping_time t0 k' + pongWait \<le> d'"
    using Cons.prems(5,6) tk by (auto simp: k'_def d'_def)
  from Cons.IH [OF sorted(1) low _ ans this] Cons.prems(3) show ?case
    by (simp add: read_events_def step)
qed



text \<open>A peer that stops answering is dropped: the first read after the deadline fails.\<close>

lemma silent_peer_dropped:
  assumes "t0 + pongWait < t"
  shows "read_events ((t, e) # es) (set_deadline t0) = TimedOut"
proof -
  have "fold read_event es TimedOut = TimedOut" by (induction es) auto
  with assms show ?thesis by (simp add: read_events_def set_deadline_def)
qed

end
