(* ===== verification/Compact.thy ===== *)
theory Compact
  imports Json "HOL-Library.Sublist"
begin

text \<open>
  Raw JSON texts that pass through the encoder (\<open>json.RawMessage\<close>): \<open>appendCompact\<close> of
  \<open>encoding/json\<close> drops white space between tokens and escapes the characters that matter in HTML.
  Compacting changes the text and not the value: the parser reads the same value from both, for
  every text, also with invalid UTF-8 and unpaired surrogates in it.
\<close>

section \<open>Compacting\<close>

datatype lex = Out | InStr | Esc

text \<open>The characters that are escaped, with how many bytes they take and what is written for them.\<close>

definition html_escape :: "string \<Rightarrow> (nat \<times> string) option" where
  "html_escape s =
     (if s \<noteq> [] \<and> hd s \<in> {CHR ''<'', CHR ''>'', CHR ''&''}
      then Some (1, [backslash] @ ''u00'' @ [hex_digit (of_char (hd s) div 16), hex_digit (of_char (hd s) mod 16)])
      else if take 3 s = utf8 [0xE2, 0x80, 0xA8] then Some (3, [backslash] @ ''u2028'')
      else if take 3 s = utf8 [0xE2, 0x80, 0xA9] then Some (3, [backslash] @ ''u2029'')
      else None)"

fun lex_next :: "lex \<Rightarrow> char \<Rightarrow> lex" where
  "lex_next Out c = (if c = quote then InStr else Out)"
| "lex_next InStr c = (if c = quote then Out else if c = backslash then Esc else InStr)"
| "lex_next Esc c = InStr"

function compact :: "lex \<Rightarrow> string \<Rightarrow> string" where
  "compact st [] = []"
| "compact st (c # cs) =
     (case html_escape (c # cs) of
        Some (n, t) \<Rightarrow> t @ compact st (drop (n - 1) cs)
      | None \<Rightarrow> if st = Out \<and> is_ws c then compact st cs else c # compact (lex_next st c) cs)"
  by pat_completeness auto
termination by (relation "measure (\<lambda>(st, s). length s)") auto

declare compact.simps [simp del]

section \<open>The grammar\<close>

text \<open>The parser's equations as a grammar: what a successful parse has read.\<close>

lemma skip_ws_idem [simp]: "skip_ws (skip_ws s) = skip_ws s"
  by (simp add: skip_ws_def)

lemma skip_ws_drop: "skip_ws s = c # cs \<Longrightarrow> skip_ws (c # cs) = c # cs"
  by (metis skip_ws_idem)

lemma parse_elems_iff:
  "parse_elems d s = Some (vs, r) \<longleftrightarrow>
     (\<exists>v q. parse_value d s = Some (v, q) \<and>
       (skip_ws q = CHR '']'' # r \<and> vs = [v] \<or>
        (\<exists>q' us. skip_ws q = CHR '','' # q' \<and> parse_elems d q' = Some (us, r) \<and> vs = v # us)))"
proof -
  have "length q' < length s" if "parse_value d s = Some (v, q)" "skip_ws q = c # q'" for v q c q'
    using parse_shorter(1) [OF that(1)] skip_ws_Cons [OF that(2)] by simp
  then show ?thesis
    by (subst parse_elems.simps) (fastforce split: option.splits list.splits if_splits)
qed

lemma parse_members_iff:
  "parse_members d s = Some (ms, r) \<longleftrightarrow>
     (\<exists>s1 k s2 s3 v q. skip_ws s = quote # s1 \<and> scan_str s1 = Some (k, s2) \<and> skip_ws s2 = CHR '':'' # s3 \<and>
       parse_value d s3 = Some (v, q) \<and>
       (skip_ws q = CHR ''}'' # r \<and> ms = [(k, v)] \<or>
        (\<exists>q' us. skip_ws q = CHR '','' # q' \<and> parse_members d q' = Some (us, r) \<and> ms = (k, v) # us)))"
proof -
  have "length q' < length s" if "skip_ws s = quote # s1" "scan_str s1 = Some (k, s2)" "skip_ws s2 = CHR '':'' # s3"
    "parse_value d s3 = Some (v, q)" "skip_ws q = c # q'" for s1 k s2 s3 v q c q'
    using skip_ws_Cons [OF that(1)] scan_str_length [OF that(2)] skip_ws_Cons [OF that(3)]
      parse_shorter(1) [OF that(4)] skip_ws_Cons [OF that(5)] by simp
  then show ?thesis
    by (subst parse_members.simps) (fastforce split: option.splits list.splits if_splits)
qed

lemma parse_skip_ws:
  "parse_value d (skip_ws s) = parse_value d s" "parse_elems d (skip_ws s) = parse_elems d s"
  "parse_members d (skip_ws s) = parse_members d s"
proof -
  show v: "parse_value d (skip_ws s) = parse_value d s" by (subst (1 2) parse_value.simps) simp
  have "parse_elems d (skip_ws s) = Some (vs, r) \<longleftrightarrow> parse_elems d s = Some (vs, r)" for vs r
    by (simp only: parse_elems_iff [of d s] parse_elems_iff [of d "skip_ws s"] v)
  then show "parse_elems d (skip_ws s) = parse_elems d s" by (metis not_None_eq surj_pair)
  have "parse_members d (skip_ws s) = Some (ms, r) \<longleftrightarrow> parse_members d s = Some (ms, r)" for ms r
    by (simp only: parse_members_iff [of d s] parse_members_iff [of d "skip_ws s"] skip_ws_idem)
  then show "parse_members d (skip_ws s) = parse_members d s" by (metis not_None_eq surj_pair)
qed

definition words :: "(string \<times> jv) list" where
  "words = [(''true'', JvBool True), (''false'', JvBool False), (''null'', JvNull)]"

lemma scan_num_hd:
  assumes "scan_num s = Some (n, r)"
  shows "\<exists>c cs. s = c # cs \<and> (is_digit c \<or> c = CHR ''-'')"
  using assms
  by (cases s) (auto simp: scan_num_def Let_def scan_int_part_def scan_digits_def is_digit_def
      split: if_splits list.splits Option.bind_splits)

lemma parse_value_cases:
  assumes "parse_value d s = Some (v, r)"
  obtains (str) cs t where "skip_ws s = quote # cs" "scan_str cs = Some (t, r)" "v = JvStr t"
    | (obj0) cs where "skip_ws s = CHR ''{'' # cs" "0 < d" "skip_ws cs = CHR ''}'' # r" "v = JvObj []"
    | (obj) cs ms where "skip_ws s = CHR ''{'' # cs" "0 < d" "parse_members (d - 1) cs = Some (ms, r)" "v = JvObj ms"
    | (arr0) cs where "skip_ws s = CHR ''['' # cs" "0 < d" "skip_ws cs = CHR '']'' # r" "v = JvArr []"
    | (arr) cs vs where "skip_ws s = CHR ''['' # cs" "0 < d" "parse_elems (d - 1) cs = Some (vs, r)" "v = JvArr vs"
    | (word) w where "skip_ws s = w @ r" "(w, v) \<in> set words"
    | (num) n where "scan_num (skip_ws s) = Some (n, r)" "v = JvNum n"
proof -
  obtain c cs where c: "skip_ws s = c # cs"
    using assms by (subst (asm) parse_value.simps) (auto split: list.splits)
  have m: "parse_members e (x # q) = parse_members e cs" "parse_elems e (x # q) = parse_elems e cs" if "skip_ws cs = x # q" for x q e
    using parse_skip_ws(2,3) [of e cs] that by simp_all
  have w: "skip_ws s = take n (c # cs) @ drop (n - 1) cs" if "0 < n" for n
    using c that by (cases n) simp_all
  note val = assms [unfolded parse_value.simps [of d s]]
  note shapes = that
  have lit: thesis if "(take n (c # cs), v) \<in> set words" "r = drop (n - 1) cs" "0 < n" for n
    using shapes(6) [OF _ that(1)] w [OF that(3)] that(2) by simp
  show thesis
  proof (cases "c = quote \<or> c = CHR ''{'' \<or> c = CHR ''[''")
    case True
    then show thesis using val c that(1-5) by (auto simp: m split: if_splits list.splits)
  next
    case False
    then show thesis
      using val c lit [of 4] lit [of 5] shapes(7) by (auto simp: words_def split: if_splits)
  qed
qed

lemma parse_value_word: "skip_ws s = w @ r \<Longrightarrow> (w, v) \<in> set words \<Longrightarrow> parse_value d s = Some (v, r)"
  by (subst parse_value.simps) (auto simp: words_def)

lemma parse_value_num:
  assumes "scan_num (skip_ws s) = Some (n, r)"
  shows "parse_value d s = Some (JvNum n, r)"
proof -
  obtain c cs where c: "skip_ws s = c # cs" "is_digit c \<or> c = CHR ''-''" using scan_num_hd [OF assms] by blast
  then have "c \<noteq> quote" "c \<noteq> CHR ''{''" "c \<noteq> CHR ''[''" "c \<noteq> CHR ''t''" "c \<noteq> CHR ''f''" "c \<noteq> CHR ''n''"
    by (auto simp: is_digit_def)
  with c assms show ?thesis by (subst parse_value.simps) simp
qed

lemma parse_value_hd: "parse_value d s = Some (v, r) \<Longrightarrow> \<exists>c cs. skip_ws s = c # cs \<and> c \<noteq> CHR '']'' \<and> c \<noteq> CHR ''}'' \<and> \<not> is_ws c"
  by (erule parse_value_cases) (auto simp: words_def is_ws_def is_digit_def dest!: scan_num_hd)

lemma parse_value_obj:
  assumes "skip_ws s = CHR ''{'' # cs" and "0 < d" and "parse_members (d - 1) cs = Some (ms, r)"
  shows "parse_value d s = Some (JvObj ms, r)"
proof -
  obtain x q where x: "skip_ws cs = x # q" "x \<noteq> CHR ''}''" using iffD1 [OF parse_members_iff assms(3)] by force
  with assms parse_skip_ws(3) [of "d - 1" cs] show ?thesis by (subst parse_value.simps) simp
qed

lemma parse_value_arr:
  assumes "skip_ws s = CHR ''['' # cs" and "0 < d" and "parse_elems (d - 1) cs = Some (vs, r)"
  shows "parse_value d s = Some (JvArr vs, r)"
proof -
  obtain x q where x: "skip_ws cs = x # q" "x \<noteq> CHR '']''" 
    using iffD1 [OF parse_elems_iff assms(3)] parse_value_hd by metis
  with assms parse_skip_ws(2) [of "d - 1" cs] show ?thesis by (subst parse_value.simps) simp
qed

lemma parse_value_simple:
  "skip_ws s = quote # cs \<Longrightarrow> scan_str cs = Some (t, r) \<Longrightarrow> parse_value d s = Some (JvStr t, r)"
  "skip_ws s = CHR ''{'' # cs \<Longrightarrow> 0 < d \<Longrightarrow> skip_ws cs = CHR ''}'' # r \<Longrightarrow> parse_value d s = Some (JvObj [], r)"
  "skip_ws s = CHR ''['' # cs \<Longrightarrow> 0 < d \<Longrightarrow> skip_ws cs = CHR '']'' # r \<Longrightarrow> parse_value d s = Some (JvArr [], r)"
  by (subst parse_value.simps, simp)+

section \<open>Texts the parser cannot tell apart\<close>

text \<open>
  Two relations between remaining texts, outside and inside a string literal. The laws say that each
  token is read from both in the same way, as long as at least \<open>lo\<close> bytes of the first text are left;
  a number also needs something after it that ends it. Then whole values are read in the same way.
\<close>

locale text_sim =
  fixes out :: "string \<Rightarrow> string \<Rightarrow> bool" and str :: "string \<Rightarrow> string \<Rightarrow> bool"
    and lo :: nat and fin :: "string \<Rightarrow> bool"
  assumes token: "out s s' \<Longrightarrow> skip_ws s = c # cs \<Longrightarrow> lo \<le> length cs \<Longrightarrow>
      c \<in> set [quote, CHR ''{'', CHR ''}'', CHR ''['', CHR '']'', CHR '','', CHR '':''] \<Longrightarrow>
      \<exists>cs'. skip_ws s' = c # cs' \<and> (if c = quote then str cs cs' else out cs cs')"
    and literal: "str s s' \<Longrightarrow> scan_str s = Some (t, r) \<Longrightarrow> lo \<le> length r \<Longrightarrow> \<exists>r'. scan_str s' = Some (t, r') \<and> out r r'"
    and word: "out s s' \<Longrightarrow> skip_ws s = w @ r \<Longrightarrow> lo \<le> length r \<Longrightarrow> w \<in> set [''true'', ''false'', ''null''] \<Longrightarrow>
      \<exists>r'. skip_ws s' = w @ r' \<and> out r r'"
    and number: "out s s' \<Longrightarrow> scan_num (skip_ws s) = Some (n, r) \<Longrightarrow> lo \<le> length r \<Longrightarrow>
      fin r \<or> (\<exists>c q. skip_ws r = c # q \<and> lo \<le> length q \<and> c \<in> set [CHR '','', CHR '']'', CHR ''}'']) \<Longrightarrow>
      \<exists>r'. scan_num (skip_ws s') = Some (n, r') \<and> out r r'"
begin

abbreviation stops :: "string \<Rightarrow> bool" where
  "stops r \<equiv> fin r \<or> (\<exists>c q. skip_ws r = c # q \<and> lo \<le> length q \<and> c \<in> set [CHR '','', CHR '']'', CHR ''}''])"

definition sim_value :: "string \<Rightarrow> bool" where
  "sim_value s \<longleftrightarrow> (\<forall>d v r s'. parse_value d s = Some (v, r) \<longrightarrow> out s s' \<longrightarrow> lo \<le> length r \<longrightarrow> stops r \<longrightarrow>
     (\<exists>r'. parse_value d s' = Some (v, r') \<and> out r r'))"

definition sim_elems :: "string \<Rightarrow> bool" where
  "sim_elems s \<longleftrightarrow> (\<forall>d vs r s'. parse_elems d s = Some (vs, r) \<longrightarrow> out s s' \<longrightarrow> lo \<le> length r \<longrightarrow>
     (\<exists>r'. parse_elems d s' = Some (vs, r') \<and> out r r'))"

definition sim_members :: "string \<Rightarrow> bool" where
  "sim_members s \<longleftrightarrow> (\<forall>d ms r s'. parse_members d s = Some (ms, r) \<longrightarrow> out s s' \<longrightarrow> lo \<le> length r \<longrightarrow>
     (\<exists>r'. parse_members d s' = Some (ms, r') \<and> out r r'))"

lemmas next_token = token [where c = "CHR ''{''", simplified] token [where c = "CHR ''}''", simplified] token [where c = "CHR ''[''", simplified]
  token [where c = "CHR '']''", simplified] token [where c = "CHR '',''", simplified] token [where c = "CHR '':''", simplified]
  token [where c = quote, simplified]

lemma sim_value_step:
  assumes "\<And>t. length t < length s \<Longrightarrow> sim_elems t \<and> sim_members t"
  shows "sim_value s"
  unfolding sim_value_def
proof (intro allI impI)
  fix d v r s'
  assume p: "parse_value d s = Some (v, r)" and o: "out s s'" and l: "lo \<le> length r" and st: "stops r"
  from p show "\<exists>r'. parse_value d s' = Some (v, r') \<and> out r r'"
  proof (cases rule: parse_value_cases)
    case (str cs t)
    have "lo \<le> length cs" using scan_str_length [OF str(2)] l by simp
    from next_token(7) [OF o str(1) this] obtain cs' where "skip_ws s' = quote # cs'" "str cs cs'" by blast
    with literal [OF _ str(2) l] show ?thesis using parse_value_simple(1) str(3) by blast
  next
    case (obj0 cs)
    have "lo \<le> length cs" using skip_ws_Cons [OF obj0(3)] l by simp
    from next_token(1) [OF o obj0(1) this] obtain cs' where c: "skip_ws s' = CHR ''{'' # cs'" "out cs cs'" by blast
    from next_token(2) [OF c(2) obj0(3) l] c(1) obj0 show ?thesis by (auto intro: parse_value_simple)
  next
    case (arr0 cs)
    have "lo \<le> length cs" using skip_ws_Cons [OF arr0(3)] l by simp
    from next_token(3) [OF o arr0(1) this] obtain cs' where c: "skip_ws s' = CHR ''['' # cs'" "out cs cs'" by blast
    from next_token(4) [OF c(2) arr0(3) l] c(1) arr0 show ?thesis by (auto intro: parse_value_simple)
  next
    case (obj cs ms)
    have "lo \<le> length cs" using parse_shorter(3) [OF obj(3)] l by simp
    from next_token(1) [OF o obj(1) this] obtain cs' where c: "skip_ws s' = CHR ''{'' # cs'" "out cs cs'" by blast
    have "sim_members cs" using assms skip_ws_Cons [OF obj(1)] by blast
    with obj(3) c(2) l show ?thesis unfolding sim_members_def using parse_value_obj [OF c(1) obj(2)] obj(4) by metis
  next
    case (arr cs vs)
    have "lo \<le> length cs" using parse_shorter(2) [OF arr(3)] l by simp
    from next_token(3) [OF o arr(1) this] obtain cs' where c: "skip_ws s' = CHR ''['' # cs'" "out cs cs'" by blast
    have "sim_elems cs" using assms skip_ws_Cons [OF arr(1)] by blast
    with arr(3) c(2) l show ?thesis unfolding sim_elems_def using parse_value_arr [OF c(1) arr(2)] arr(4) by metis
  next
    case (word w)
    have "w \<in> set [''true'', ''false'', ''null'']" using word(2) by (auto simp: words_def)
    with text_sim_axioms word(1) o l obtain r' where "skip_ws s' = w @ r'" "out r r'" unfolding text_sim_def by meson
    then show ?thesis using parse_value_word [OF _ word(2)] by blast
  next
    case (num n)
    from number [OF o num(1) l st] num(2) show ?thesis by (auto intro: parse_value_num)
  qed
qed

lemma sim_elems_step:
  assumes "sim_value s" and "\<And>t. length t < length s \<Longrightarrow> sim_elems t"
  shows "sim_elems s"
  unfolding sim_elems_def
proof (intro allI impI)
  fix d vs r s'
  assume p: "parse_elems d s = Some (vs, r)" and o: "out s s'" and l: "lo \<le> length r"
  from iffD1 [OF parse_elems_iff p] obtain v q where v: "parse_value d s = Some (v, q)"
    "skip_ws q = CHR '']'' # r \<and> vs = [v] \<or>
        (\<exists>q' us. skip_ws q = CHR '','' # q' \<and> parse_elems d q' = Some (us, r) \<and> vs = v # us)" by blast
  from v(2) obtain c q' where q: "skip_ws q = c # q'" "lo \<le> length q'" "c \<in> set [CHR '','', CHR '']'', CHR ''}'']"
  proof (elim disjE conjE exE)
    fix q' us
    assume "skip_ws q = CHR '','' # q'" "parse_elems d q' = Some (us, r)"
    with parse_shorter(2) l that show thesis by fastforce
  qed (use l that in simp)
  then have "stops q" by blast
  moreover have "lo \<le> length q" using skip_ws_Cons [OF q(1)] q(2) by simp
  ultimately obtain w where w: "parse_value d s' = Some (v, w)" "out q w"
    using assms(1) v(1) o unfolding sim_value_def by metis
  from v(2) show "\<exists>r'. parse_elems d s' = Some (vs, r') \<and> out r r'"
  proof (elim disjE conjE exE)
    assume "skip_ws q = CHR '']'' # r" "vs = [v]"
    with next_token(4) [OF w(2) _ l] w(1) show ?thesis unfolding parse_elems_iff [of d s'] by blast
  next
    fix t us
    assume t: "skip_ws q = CHR '','' # t" "parse_elems d t = Some (us, r)" "vs = v # us"
    then have "lo \<le> length t" using q by simp
    from next_token(5) [OF w(2) t(1) this] obtain t' where t': "skip_ws w = CHR '','' # t'" "out t t'" by blast
    have "sim_elems t" using assms(2) skip_ws_Cons [OF t(1)] parse_shorter(1) [OF v(1)] by simp
    with t(2) t'(2) l obtain r' where "parse_elems d t' = Some (us, r')" "out r r'" unfolding sim_elems_def by blast
    with t' w(1) t(3) show ?thesis unfolding parse_elems_iff [of d s'] by blast
  qed
qed

lemma sim_members_step:
  assumes "\<And>t. length t < length s \<Longrightarrow> sim_value t \<and> sim_members t"
  shows "sim_members s"
  unfolding sim_members_def
proof (intro allI impI)
  fix d ms r s'
  assume p: "parse_members d s = Some (ms, r)" and o: "out s s'" and l: "lo \<le> length r"
  from iffD1 [OF parse_members_iff p] obtain s1 k s2 s3 v q where m: "skip_ws s = quote # s1" "scan_str s1 = Some (k, s2)"
    "skip_ws s2 = CHR '':'' # s3" and v: "parse_value d s3 = Some (v, q)"
    "skip_ws q = CHR ''}'' # r \<and> ms = [(k, v)] \<or>
        (\<exists>q' us. skip_ws q = CHR '','' # q' \<and> parse_members d q' = Some (us, r) \<and> ms = (k, v) # us)" by blast
  from v(2) obtain c q' where q: "skip_ws q = c # q'" "lo \<le> length q'" "c \<in> set [CHR '','', CHR '']'', CHR ''}'']"
  proof (elim disjE conjE exE)
    fix q' us
    assume "skip_ws q = CHR '','' # q'" "parse_members d q' = Some (us, r)"
    with parse_shorter(3) l that show thesis by fastforce
  qed (use l that in simp)
  note len = skip_ws_Cons [OF q(1)] parse_shorter(1) [OF v(1)] skip_ws_Cons [OF m(3)] scan_str_length [OF m(2)] skip_ws_Cons [OF m(1)]
  have lo: "lo \<le> length q" "lo \<le> length s3" "lo \<le> length s2" "lo \<le> length s1" using len q(2) by simp_all
  from next_token(7) [OF o m(1) lo(4)] obtain s1' where s1: "skip_ws s' = quote # s1'" "str s1 s1'" by blast
  from literal [OF s1(2) m(2) lo(3)] obtain s2' where s2: "scan_str s1' = Some (k, s2')" "out s2 s2'" by blast
  from next_token(6) [OF s2(2) m(3) lo(2)] obtain s3' where s3: "skip_ws s2' = CHR '':'' # s3'" "out s3 s3'" by blast
  have "stops q" using q by blast
  moreover have "sim_value s3" using assms len by simp
  ultimately obtain w where w: "parse_value d s3' = Some (v, w)" "out q w"
    using v(1) s3(2) lo(1) unfolding sim_value_def by metis
  from v(2) show "\<exists>r'. parse_members d s' = Some (ms, r') \<and> out r r'"
  proof (elim disjE conjE exE)
    assume "skip_ws q = CHR ''}'' # r" "ms = [(k, v)]"
    with next_token(2) [OF w(2) _ l] w(1) s1(1) s2(1) s3(1) show ?thesis unfolding parse_members_iff [of d s'] by blast
  next
    fix t us
    assume t: "skip_ws q = CHR '','' # t" "parse_members d t = Some (us, r)" "ms = (k, v) # us"
    then have "lo \<le> length t" using q by simp
    from next_token(5) [OF w(2) t(1) this] obtain t' where t': "skip_ws w = CHR '','' # t'" "out t t'" by blast
    have "sim_members t" using assms skip_ws_Cons [OF t(1)] len by simp
    with t(2) t'(2) l obtain r' where "parse_members d t' = Some (us, r')" "out r r'" unfolding sim_members_def by blast
    with t' w(1) t(3) s1(1) s2(1) s3(1) show ?thesis unfolding parse_members_iff [of d s'] by blast
  qed
qed

lemma sim_all: "sim_value s \<and> sim_elems s \<and> sim_members s"
proof (induction s rule: length_induct)
  case (1 s)
  then show ?case by (blast intro: sim_value_step sim_elems_step sim_members_step)
qed

lemma parse_same:
  "parse_value d s = Some (v, r) \<Longrightarrow> out s s' \<Longrightarrow> lo \<le> length r \<Longrightarrow> stops r \<Longrightarrow>
     \<exists>r'. parse_value d s' = Some (v, r') \<and> out r r'"
  using sim_all [of s] unfolding sim_value_def by metis

end

section \<open>Characters and what follows them\<close>

text \<open>
  A character of a literal is read with a look at what follows: whether an invalid byte could be the
  start of a longer character, and whether a surrogate is the first of a pair. Texts that agree on
  this are interchangeable.
\<close>

definition looks_like :: "string \<Rightarrow> string \<Rightarrow> bool" where
  "looks_like q q' \<longleftrightarrow>
     (\<forall>a. 0x80 \<le> a \<longrightarrow> rune_len (a # map of_char (take 3 q)) = 0 \<longrightarrow> rune_len (a # map of_char (take 3 q')) = 0) \<and>
     (\<forall>v. Option.bind (getu4 q) (surrogate_pair v) = None \<longrightarrow> Option.bind (getu4 q') (surrogate_pair v) = None)"

abbreviation cont_char :: "char \<Rightarrow> bool" where
  "cont_char c \<equiv> cont_byte (of_char c)"

lemma rune_len_le: "rune_len bs \<le> length bs \<and> rune_len bs \<le> 4"
  by (cases bs) (auto split: list.splits)

lemma rune_len_conts: "0 < rune_len (a # bs) \<Longrightarrow> list_all cont_byte (take (rune_len (a # bs) - 1) bs)"
  by (auto split: if_splits list.splits)

lemma rune_len_prefix:
  assumes "0 < rune_len (a # bs)" and "take (rune_len (a # bs) - 1) cs = take (rune_len (a # bs) - 1) bs"
  shows "rune_len (a # cs) = rune_len (a # bs)"
proof -
  consider "rune_len (a # bs) = 1" | "rune_len (a # bs) = 2" | "rune_len (a # bs) = 3" | "rune_len (a # bs) = 4"
    using rune_len_le [of "a # bs"] assms(1) by linarith
  then show ?thesis
  proof cases
    case 1
    then show ?thesis by (auto split: if_splits list.splits)
  next
    case 2
    then obtain b bs' where "bs = b # bs'" using rune_len_le [of "a # bs"] by (cases bs) auto
    moreover from this 2 obtain cs' where "cs = b # cs'" using assms(2) by (cases cs) auto
    ultimately show ?thesis using 2 by (auto split: if_splits list.splits)
  next
    case 3
    then obtain b c bs' where "bs = b # c # bs'" using rune_len_le [of "a # bs"] by (cases bs; cases "tl bs") auto
    moreover from this 3 obtain cs' where "cs = b # c # cs'" using assms(2) by (cases cs; cases "tl cs") auto
    ultimately show ?thesis using 3 by (auto split: if_splits list.splits)
  next
    case 4
    then obtain b c d bs' where "bs = b # c # d # bs'"
      using rune_len_le [of "a # bs"] by (cases bs; cases "tl bs"; cases "tl (tl bs)") auto
    moreover from this 4 obtain cs' where "cs = b # c # d # cs'"
      using assms(2) by (cases cs; cases "tl cs"; cases "tl (tl cs)") auto
    ultimately show ?thesis using 4 by (auto split: if_splits list.splits)
  qed
qed

declare rune_len.simps(2) [simp del]

definition hex_char :: "char \<Rightarrow> bool" where
  "hex_char c \<longleftrightarrow> hex_val c \<noteq> None"

lemma hex4_cases:
  assumes "hex4 es = Some v"
  obtains i where "es = i @ drop 4 es" "list_all hex_char i" "length i = 4" "\<And>r. hex4 (i @ r) = Some v"
proof -
  obtain a b c d r where e: "es = a # b # c # d # r" using assms by (auto elim: hex4.elims)
  with assms show thesis by (intro that [of "[a, b, c, d]"]) (auto simp: hex_char_def split: option.splits)
qed

lemma scan_item_cases:
  assumes "scan_item s = Some (u, q)"
  obtains (uni) i v where "s = [backslash, CHR ''u''] @ i @ q" "list_all hex_char i" "length i = 4" "\<And>r. hex4 (i @ r) = Some v"
      "\<not> (0xD800 \<le> v \<and> v < 0xE000)" "u = rune_bytes v"
    | (pair) i j v w x where "s = [backslash, CHR ''u''] @ i @ [backslash, CHR ''u''] @ j @ q" "list_all hex_char i" "list_all hex_char j"
      "length i = 4" "length j = 4" "\<And>r. hex4 (i @ r) = Some v" "\<And>r. hex4 (j @ r) = Some w" "0xD800 \<le> v" "v < 0xE000"
      "surrogate_pair v w = Some x" "u = rune_bytes x"
    | (lone) i v where "s = [backslash, CHR ''u''] @ i @ q" "list_all hex_char i" "length i = 4" "\<And>r. hex4 (i @ r) = Some v"
      "0xD800 \<le> v" "v < 0xE000" "Option.bind (getu4 q) (surrogate_pair v) = None" "u = RuneError"
    | (esc) e x where "s = [backslash, e] @ q" "e \<noteq> CHR ''u''" "simple_escape e = Some x" "u = [x]"
    | (run) c t n where "s = c # t @ q" "c \<noteq> backslash" "0x20 \<le> (of_char c :: nat)" "rune_len (of_char c # map of_char (take 3 (t @ q))) = Suc n"
      "length t = n" "u = c # t"
    | (bad) c where "s = c # q" "c \<noteq> backslash" "0x20 \<le> (of_char c :: nat)" "rune_len (of_char c # map of_char (take 3 q)) = 0" "u = RuneError"
proof -
  obtain c cs where s: "s = c # cs" using assms by (cases s) (auto simp: scan_item_def)
  show thesis
  proof (cases "c = backslash")
    case False
    let ?n = "rune_len (map of_char (c # take 3 cs))"
    have c: "0x20 \<le> (of_char c :: nat)" "?n = 0 \<Longrightarrow> u = RuneError \<and> q = cs" "?n \<noteq> 0 \<Longrightarrow> u = take ?n (c # cs) \<and> q = drop (?n - 1) cs"
      using assms False s by (auto simp: scan_item_def Let_def split: if_splits)
    show thesis
    proof (cases "?n = 0")
      case True
      with c s False show thesis by (intro bad [of c]) simp_all
    next
      case n: False
      then obtain m where m: "?n = Suc m" by (cases ?n) auto
      have "m \<le> length cs" using rune_len_le [of "map of_char (c # take 3 cs)"] m by simp
      moreover have "take m cs @ q = cs" using c(3) [OF n] m by simp
      ultimately show thesis using c s False m n by (intro run [of c "take m cs" m]) simp_all
    qed
  next
    case c: True
    obtain e es where e: "cs = e # es" using assms c s by (cases cs) (auto simp: scan_item_def)
    show thesis
    proof (cases "e = CHR ''u''")
      case False
      with assms c s e show thesis by (auto simp: scan_item_def intro!: esc)
    next
      case u: True
      obtain v where v: "hex4 es = Some v" using assms c s e u by (auto simp: scan_item_def split: option.splits)
      obtain i where i: "es = i @ drop 4 es" "list_all hex_char i" "length i = 4" "\<And>r. hex4 (i @ r) = Some v"
        using hex4_cases [OF v] by metis
      show thesis
      proof (cases "0xD800 \<le> v \<and> v < 0xE000")
        case False
        with assms c s e u v i show thesis by (intro uni [of i v]) (auto simp: scan_item_def)
      next
        case sur: True
        show thesis
        proof (cases "Option.bind (getu4 (drop 4 es)) (surrogate_pair v)")
          case None
          with sur assms c s e u v i show thesis by (intro lone [of i v]) (auto simp: scan_item_def)
        next
          case (Some x)
          then obtain w es' where w: "drop 4 es = [backslash, CHR ''u''] @ es'" "hex4 es' = Some w" "surrogate_pair v w = Some x"
            by (auto simp: getu4_def split: list.splits if_splits Option.bind_splits)
          obtain j where j: "es' = j @ drop 4 es'" "list_all hex_char j" "length j = 4" "\<And>r. hex4 (j @ r) = Some w"
            using hex4_cases [OF w(2)] by metis
          have "drop 10 es = drop 6 (drop 4 es)" by simp
          also have "\<dots> = drop 4 es'" by (simp add: w(1))
          finally have ten: "drop 10 es = drop 4 es'" .
          have "q = drop 4 es'" "u = rune_bytes x" using sur assms c s e u v Some ten by (auto simp: scan_item_def)
          moreover have "es = i @ [backslash, CHR ''u''] @ j @ drop 4 es'" using i(1) w(1) j(1) by simp
          ultimately show thesis using sur c s e u i(2-4) j(2-4) w(3)
            by (intro pair [of i j v w x]) simp_all
        qed
      qed
    qed
  qed
qed

lemma scan_item_run:
  assumes "c \<noteq> backslash" and "0x20 \<le> (of_char c :: nat)" and "rune_len (of_char c # map of_char (take 3 (t @ q))) = Suc n" and "length t = n"
  shows "scan_item (c # t @ q') = Some (c # t, q')"
proof -
  have n: "n \<le> 3" using rune_len_le [of "of_char c # map of_char (take 3 (t @ q))"] assms(3) by simp
  have "rune_len (of_char c # map of_char (take 3 (t @ q'))) = Suc n"
    using rune_len_prefix [of "of_char c" "map of_char (take 3 (t @ q))" "map of_char (take 3 (t @ q'))"] assms(3,4) n
    by (simp add: take_map)
  with assms n show ?thesis by (simp add: scan_item_def Let_def)
qed

lemma scan_item_again:
  assumes "scan_item s = Some (u, q)"
  obtains i where "s = i @ q" "i \<noteq> []" "\<And>q'. looks_like q q' \<Longrightarrow> scan_item (i @ q') = Some (u, q')"
  using assms
proof (cases rule: scan_item_cases)
  case (uni i v)
  then show thesis by (intro that [of "[backslash, CHR ''u''] @ i"]) (auto simp: scan_item_def)
next
  case (pair i j v w x)
  then show thesis
    by (intro that [of "[backslash, CHR ''u''] @ i @ [backslash, CHR ''u''] @ j"]) (auto simp: scan_item_def getu4_def)
next
  case (lone i v)
  then show thesis by (intro that [of "[backslash, CHR ''u''] @ i"]) (auto simp: scan_item_def looks_like_def)
next
  case (esc e x)
  then show thesis by (intro that [of "[backslash, e]"]) (auto simp: scan_item_def)
next
  case (run c t n)
  then show thesis using scan_item_run [OF run(2-5)] by (intro that [of "c # t"]) auto
next
  case (bad c)
  have c: "0x80 \<le> (of_char c :: nat)" using bad(4) by (auto simp: rune_len.simps split: if_splits)
  show thesis
  proof (rule that [of "[c]"])
    fix q'
    assume "looks_like q q'"
    then have "rune_len (of_char c # map of_char (take 3 q')) = 0" using bad(4) c unfolding looks_like_def by blast
    with bad show "scan_item ([c] @ q') = Some (u, q')" by (simp add: scan_item_def Let_def)
  qed (use bad in simp_all)
qed

text \<open>A way to see that two texts look alike: the second begins as the first as long as it could matter.\<close>

lemma looks_likeI:
  assumes "\<And>k. list_all cont_char (take k q') \<Longrightarrow> take k q' = take k q"
    and "\<And>w. getu4 q' = Some w \<Longrightarrow> 0xDC00 \<le> w \<Longrightarrow> getu4 q = Some w"
  shows "looks_like q q'"
  unfolding looks_like_def
proof (intro conjI allI impI)
  fix a :: nat
  assume z: "rune_len (a # map of_char (take 3 q)) = 0"
  show "rune_len (a # map of_char (take 3 q')) = 0"
  proof (rule ccontr)
    let ?n = "rune_len (a # map of_char (take 3 q')) - 1"
    assume "rune_len (a # map of_char (take 3 q')) \<noteq> 0"
    then have p: "0 < rune_len (a # map of_char (take 3 q'))" by simp
    have n: "?n \<le> 3" using rune_len_le [of "a # map of_char (take 3 q')"] by linarith
    from rune_len_conts [OF p] n have "list_all cont_char (take ?n q')" by (simp add: take_map list.pred_map comp_def)
    then have "take ?n q' = take ?n q" by (rule assms(1))
    then have "take ?n (map of_char (take 3 q)) = take ?n (map of_char (take 3 q') :: nat list)" using n by (simp add: take_map)
    from rune_len_prefix [OF p this] p z show False by simp
  qed
next
  fix v
  assume "Option.bind (getu4 q) (surrogate_pair v) = None"
  with assms(2) show "Option.bind (getu4 q') (surrogate_pair v) = None"
    by (cases "getu4 q'") (auto simp: surrogate_pair_def split: if_splits)
qed

lemma scan_str_step: "s \<noteq> [] \<Longrightarrow> hd s \<noteq> quote \<Longrightarrow> scan_item s = Some (u, q) \<Longrightarrow> scan_str s = emit u (scan_str q)"
  by (simp add: scan_str.simps [of s])

lemma special_chars:
  "cont_char c \<Longrightarrow> c \<noteq> quote \<and> c \<noteq> backslash" "hex_char c \<Longrightarrow> c \<noteq> quote \<and> c \<noteq> backslash"
  by (auto simp: cont_byte_def hex_char_def hex_val_def)

lemma getu4_take:
  assumes "getu4 s = Some w"
  shows "list_all (\<lambda>x. x \<noteq> quote) (take 6 s)" and "take 6 s' = take 6 s \<Longrightarrow> getu4 s' = Some w"
proof -
  obtain es where s: "s = [backslash, CHR ''u''] @ es" "hex4 es = Some w"
    using assms by (auto simp: getu4_def split: list.splits if_splits)
  obtain i where i: "es = i @ drop 4 es" "list_all hex_char i" "length i = 4" "\<And>r. hex4 (i @ r) = Some w"
    using hex4_cases [OF s(2)] by metis
  have six: "take 6 s = [backslash, CHR ''u''] @ i" using s(1) i(1,3) by (simp, metis append_eq_conv_conj)
  with i(2) show "list_all (\<lambda>x. x \<noteq> quote) (take 6 s)"
    using special_chars(2) by (fastforce simp: list_all_iff)
  show "getu4 s' = Some w" if "take 6 s' = take 6 s"
  proof -
    have "s' = take 6 s @ drop 6 s'" using that by (metis append_take_drop_id)
    then have "s' = backslash # CHR ''u'' # (i @ drop 6 s')" unfolding six by simp
    then obtain x where "s' = backslash # CHR ''u'' # (i @ x)" by blast
    then show ?thesis by (simp add: getu4_def i(4))
  qed
qed

section \<open>The end of a literal\<close>

lemma quote_in_front:
  assumes "quote \<in> set b" and "list_all (\<lambda>x. x \<noteq> quote) (take k (b @ r'))"
  shows "take k (b @ r') = take k (b @ r)"
proof -
  have "k < length b"
  proof (rule ccontr)
    assume "\<not> k < length b"
    then have "set b \<subseteq> set (take k (b @ r'))" by auto
    with assms show False by (auto simp: list_all_iff)
  qed
  then show ?thesis by simp
qed

lemma looks_like_prefix: "quote \<in> set b \<Longrightarrow> looks_like (b @ r) (b @ r')"
proof (rule looks_likeI)
  fix k
  assume "quote \<in> set b" "list_all cont_char (take k (b @ r'))"
  then show "take k (b @ r') = take k (b @ r)"
    using special_chars(1) by (intro quote_in_front) (auto simp only: list_all_iff)
next
  fix w
  assume "quote \<in> set b" "getu4 (b @ r') = Some w"
  with getu4_take quote_in_front show "getu4 (b @ r) = Some w" by metis
qed

lemma scan_str_prefix: "scan_str s = Some (t, r) \<Longrightarrow> \<exists>b. s = b @ r \<and> quote \<in> set b \<and> (\<forall>r'. scan_str (b @ r') = Some (t, r'))"
proof (induction s arbitrary: t rule: scan_str.induct)
  case (1 s)
  show ?case
  proof (cases "s = [] \<or> hd s = quote")
    case True
    with 1(2) show ?thesis by (cases s) (auto intro!: exI [of _ "[quote]"])
  next
    case False
    with 1(2) obtain u q t' where q: "scan_item s = Some (u, q)" "scan_str q = Some (t', r)" "t = u @ t'"
      by (auto simp: scan_str.simps [of s] split: option.splits)
    with 1(1) False obtain b where b: "q = b @ r" "quote \<in> set b" "\<And>r'. scan_str (b @ r') = Some (t', r')" by blast
    obtain i where i: "s = i @ q" "i \<noteq> []" "\<And>q'. looks_like q q' \<Longrightarrow> scan_item (i @ q') = Some (u, q')"
      using scan_item_again [OF q(1)] by blast
    have "scan_str ((i @ b) @ r') = Some (t, r')" for r'
      using scan_str_step [of "i @ b @ r'" u "b @ r'"] i b looks_like_prefix [OF b(2), of r r'] False q(3) by (simp add: hd_append)
    with i(1) b(1,2) show ?thesis by (intro exI [of _ "i @ b"]) simp
  qed
qed

section \<open>Compacting a literal\<close>

definition plain_char :: "char \<Rightarrow> bool" where
  "plain_char c \<longleftrightarrow> c \<notin> {quote, backslash, CHR ''<'', CHR ''>'', CHR ''&'', CHR 0xE2}"

lemma html_None: "c \<notin> {CHR ''<'', CHR ''>'', CHR ''&'', CHR 0xE2} \<Longrightarrow> html_escape (c # cs) = None"
proof -
  have "char_of (226 :: nat) = CHR 0xE2" by code_simp
  then show "c \<notin> {CHR ''<'', CHR ''>'', CHR ''&'', CHR 0xE2} \<Longrightarrow> html_escape (c # cs) = None"
    by (auto simp: html_escape_def utf8_def)
qed

lemma compact_keep: "html_escape (c # cs) = None \<Longrightarrow> st \<noteq> Out \<Longrightarrow> compact st (c # cs) = c # compact (lex_next st c) cs"
  by (simp add: compact.simps)

lemma compact_copy: "list_all plain_char i \<Longrightarrow> compact InStr (i @ q) = i @ compact InStr q"
  by (induction i) (auto simp: plain_char_def compact_keep html_None)

lemma compact_escape: "e \<notin> {CHR ''<'', CHR ''>'', CHR ''&'', CHR 0xE2} \<Longrightarrow>
    compact InStr (backslash # e # q) = backslash # e # compact InStr q"
  by (simp add: compact_keep html_None)

lemma html_hd: "html_escape s = Some (n, t) \<Longrightarrow> \<exists>t'. t = backslash # CHR ''u'' # t'"
  by (auto simp: html_escape_def split: if_splits)

lemma compact_take:
  assumes "\<And>x. P x \<Longrightarrow> x \<noteq> quote \<and> x \<noteq> backslash"
  shows "list_all P (take k (compact InStr q)) \<Longrightarrow> take k (compact InStr q) = take k q"
proof (induction k arbitrary: q)
  case (Suc k)
  show ?case
  proof (cases q)
    case (Cons c cs)
    show ?thesis
    proof (cases "html_escape q")
      case (Some x)
      with Suc.prems Cons html_hd [of q] have "P backslash" by (cases x) (auto simp: compact.simps)
      with assms [of backslash] show ?thesis by simp
    next
      case None
      with Suc Cons assms show ?thesis by (auto simp: compact_keep)
    qed
  qed (simp add: compact.simps)
qed simp

lemma hex4_compact: "hex4 (compact InStr q) = Some w \<Longrightarrow> hex4 q = Some w"
proof -
  assume h: "hex4 (compact InStr q) = Some w"
  obtain i where i: "compact InStr q = i @ drop 4 (compact InStr q)" "list_all hex_char i" "length i = 4" "\<And>r. hex4 (i @ r) = Some w"
    using hex4_cases [OF h] by metis
  have "take 4 (compact InStr q) = i" using i(1,3) by (metis append_eq_conv_conj)
  with i(2) compact_take [of hex_char 4 q] special_chars(2) have "i = take 4 q" by metis
  then have "q = i @ drop 4 q" by simp
  with i(4) show "hex4 q = Some w" by metis
qed

lemma html_getu4:
  assumes "html_escape s = Some (n, t)" and "getu4 (t @ r) = Some w"
  shows "w < 0xDC00"
  using assms by (auto simp: html_escape_def getu4_def hex_digit_def hex_val_def split: if_splits)

lemma compact_looks_like: "looks_like q (compact InStr q)"
proof (rule looks_likeI)
  show "take k (compact InStr q) = take k q" if "list_all cont_char (take k (compact InStr q))" for k
    using compact_take [of cont_char, OF _ that] special_chars(1) by blast
next
  fix w
  assume w: "getu4 (compact InStr q) = Some w" "0xDC00 \<le> w"
  obtain c cs where q: "q = c # cs" using w by (cases q) (auto simp: compact.simps getu4_def)
  have none: "html_escape q = None"
  proof (cases "html_escape q")
    case (Some x)
    then obtain n t where x: "html_escape q = Some (n, t)" by (cases x) auto
    with w(1) have "getu4 (t @ compact InStr (drop (n - 1) cs)) = Some w" by (simp add: q compact.simps)
    with html_getu4 [OF x] w(2) show ?thesis by fastforce
  qed
  obtain es where c: "c = backslash" "compact Esc cs = CHR ''u'' # es" "hex4 es = Some w"
    using w(1) none by (auto simp: q compact_keep getu4_def split: list.splits if_splits)
  obtain e es' where e: "cs = e # es'" using c(2) by (cases cs) (auto simp: compact.simps)
  have "html_escape cs = None" using c(2) html_hd [of cs] by (cases "html_escape cs") (auto simp: e compact.simps)
  with c(2) e have "e = CHR ''u''" "es = compact InStr es'" by (auto simp: compact_keep)
  with hex4_compact c(3) have "hex4 es' = Some w" by blast
  with q c(1) e \<open>e = CHR ''u''\<close> show "getu4 q = Some w" by (simp add: getu4_def)
qed

lemma hex_plain: "list_all hex_char i \<Longrightarrow> list_all plain_char i"
  by (auto simp: list_all_iff hex_char_def plain_char_def hex_val_def)

lemma cont_plain: "list_all cont_char i \<Longrightarrow> list_all plain_char i"
  by (auto simp: list_all_iff cont_byte_def plain_char_def)

lemma scan_unicode: "hex4 (i @ q) = Some v \<Longrightarrow> length i = 4 \<Longrightarrow> v < 0xD800 \<Longrightarrow> scan_item (backslash # CHR ''u'' # i @ q) = Some (rune_bytes v, q)"
  by (simp add: scan_item_def)

lemma html_item:
  assumes "html_escape (c # t @ q) = Some (n, e)" and "rune_len (of_char c # map of_char (take 3 (t @ q))) = Suc (length t)"
  shows "n = Suc (length t) \<and> (\<exists>e'. e = backslash # e') \<and> scan_item (e @ q') = Some (c # t, q')"
proof -
  let ?sep = "\<lambda>x. take 3 (c # t @ q) = utf8 [0xE2, 0x80, x] \<and> n = 3 \<and>
      e = [backslash] @ ''u202'' @ [if x = 0xA8 then CHR ''8'' else CHR ''9'']"
  have "c \<in> {CHR ''<'', CHR ''>'', CHR ''&''} \<and> n = 1 \<and>
      e = [backslash] @ ''u00'' @ [hex_digit (of_char c div 16), hex_digit (of_char c mod 16)] \<or> ?sep 0xA8 \<or> ?sep 0xA9"
    using assms(1) by (auto simp: html_escape_def split: if_splits)
  then consider (ascii) "c \<in> {CHR ''<'', CHR ''>'', CHR ''&''}" "n = 1"
      "e = [backslash] @ ''u00'' @ [hex_digit (of_char c div 16), hex_digit (of_char c mod 16)]"
    | (sep) x where "x \<in> {0xA8, 0xA9}" "take 3 (c # t @ q) = utf8 [0xE2, 0x80, x]" "n = 3"
      "e = [backslash] @ ''u202'' @ [if x = 0xA8 then CHR ''8'' else CHR ''9'']"
    by blast
  then show ?thesis
  proof cases
    case ascii
    have ch: "char_of (60 :: nat) = CHR ''<''" "char_of (62 :: nat) = CHR ''>''" "char_of (38 :: nat) = CHR ''&''" by code_simp+
    from ascii have "t = []" using assms(2) by (auto simp: rune_len.simps)
    with ascii show ?thesis
      by (auto simp: scan_item_def hex_digit_def hex_val_def rune_bytes_def utf8_def ch)
  next
    case sep
    then have c: "of_char c = (0xE2 :: nat)" "map of_char (take 2 (t @ q)) = [0x80, x]"
      by (auto simp: utf8_def)
    then have "map of_char (take 3 (t @ q)) = 0x80 # x # map of_char (take 1 (drop 2 (t @ q)))"
      by (cases "t @ q"; cases "tl (t @ q)") auto
    then have "length t = 2" using assms(2) c sep(1) by (auto simp: rune_len.simps cont_byte_def)
    moreover from this have "c # t = utf8 [0xE2, 0x80, x]" using sep(2) by simp
    ultimately show ?thesis
      using sep by (auto simp: scan_item_def hex_val_def rune_bytes_def utf8_def)
  qed
qed

lemma scan_item_compact:
  assumes "scan_item s = Some (u, q)" and "hd s \<noteq> quote"
  obtains i where "compact InStr s = i @ compact InStr q" "i \<noteq> []" "hd i \<noteq> quote" "\<And>q'. looks_like q q' \<Longrightarrow> scan_item (i @ q') = Some (u, q')"
  using assms(1)
proof (cases rule: scan_item_cases)
  case (uni i v)
  then show thesis
    by (intro that [of "[backslash, CHR ''u''] @ i"]) (auto simp: scan_item_def compact_escape compact_copy hex_plain)
next
  case (pair i j v w x)
  then show thesis
    by (intro that [of "[backslash, CHR ''u''] @ i @ [backslash, CHR ''u''] @ j"])
      (auto simp: scan_item_def getu4_def compact_escape compact_copy hex_plain)
next
  case (lone i v)
  then show thesis
    by (intro that [of "[backslash, CHR ''u''] @ i"]) (auto simp: scan_item_def looks_like_def compact_escape compact_copy hex_plain)
next
  case (esc e x)
  then have "e \<notin> {CHR ''<'', CHR ''>'', CHR ''&'', CHR 0xE2}" by (auto simp: simple_escape_def split: if_splits)
  with esc show thesis by (intro that [of "[backslash, e]"]) (auto simp: scan_item_def compact_escape)
next
  case (run c t n)
  show thesis
  proof (cases "html_escape s")
    case (Some x)
    then obtain m e where x: "html_escape (c # t @ q) = Some (m, e)" using run(1) by (cases x) auto
    note h = html_item [OF x run(4) [folded run(5)]]
    obtain e' where e: "e = backslash # e'" using h by blast
    from h have "compact InStr s = e @ compact InStr q" using run x by (simp add: compact.simps)
    with h e show thesis using run(6) by (intro that [of e]) auto
  next
    case None
    have "list_all cont_byte (take n (map of_char (take 3 (t @ q))))"
      using rune_len_conts [of "of_char c" "map of_char (take 3 (t @ q))"] run(4) by simp
    moreover have "n \<le> 3" using rune_len_le [of "of_char c # map of_char (take 3 (t @ q))"] run(4) by simp
    ultimately have "list_all cont_char t" using run(5) by (simp add: take_map list.pred_map comp_def)
    then have "compact InStr (t @ q) = t @ compact InStr q" by (intro compact_copy cont_plain)
    moreover have "c \<noteq> quote" using assms(2) run(1) by simp
    ultimately show thesis
      using None run scan_item_run [OF run(2-5)] by (intro that [of "c # t"]) (auto simp: compact_keep)
  qed
next
  case (bad c)
  have "html_escape s = None"
  proof (rule ccontr)
    assume "html_escape s \<noteq> None"
    moreover have "0x80 \<le> (of_char c :: nat)" using bad(4) by (auto simp: rune_len.simps split: if_splits)
    ultimately obtain x where x: "x \<in> {0xA8, 0xA9}" "take 3 (c # q) = utf8 [0xE2, 0x80, x]"
      using bad(1) by (auto simp: html_escape_def split: if_splits)
    then have "of_char c = (0xE2 :: nat)" "map of_char (take 2 q) = [0x80, x]" by (auto simp: utf8_def)
    then have "rune_len (of_char c # map of_char (take 3 q)) \<noteq> 0"
      using x(1) by (cases q; cases "tl q") (auto simp: rune_len.simps cont_byte_def)
    with bad(4) show False by simp
  qed
  moreover obtain i where "s = i @ q" "i \<noteq> []" "\<And>q'. looks_like q q' \<Longrightarrow> scan_item (i @ q') = Some (u, q')"
    using scan_item_again [OF assms(1)] by blast
  ultimately show thesis using bad assms(2) by (intro that [of "[c]"]) (auto simp: compact_keep)
qed

lemma scan_str_compact: "scan_str s = Some (t, r) \<Longrightarrow> scan_str (compact InStr s) = Some (t, compact Out r)"
proof (induction s arbitrary: t rule: scan_str.induct)
  case (1 s)
  show ?case
  proof (cases "s = [] \<or> hd s = quote")
    case True
    with 1(2) show ?thesis by (cases s) (auto simp: compact_keep html_None)
  next
    case False
    with 1(2) obtain u q t' where q: "scan_item s = Some (u, q)" "scan_str q = Some (t', r)" "t = u @ t'"
      by (auto simp: scan_str.simps [of s] split: option.splits)
    with 1(1) False have ih: "scan_str (compact InStr q) = Some (t', compact Out r)" by blast
    obtain i where i: "compact InStr s = i @ compact InStr q" "i \<noteq> []" "hd i \<noteq> quote"
      "\<And>q'. looks_like q q' \<Longrightarrow> scan_item (i @ q') = Some (u, q')"
      using scan_item_compact [OF q(1)] False by blast
    with scan_str_step [of "i @ compact InStr q" u "compact InStr q"] compact_looks_like [of q] ih q(3)
    show ?thesis by (simp add: hd_append)
  qed
qed

section \<open>Numbers\<close>

definition num_char :: "char \<Rightarrow> bool" where
  "num_char c \<longleftrightarrow> is_digit c \<or> c \<in> {CHR ''-'', CHR ''+'', CHR ''.'', CHR ''e'', CHR ''E''}"

abbreviation no_digit :: "string \<Rightarrow> bool" where
  "no_digit r \<equiv> r = [] \<or> \<not> is_digit (hd r)"

lemma scan_digits_again:
  assumes "scan_digits s = Some (t, r)"
  shows "s = t @ r \<and> t \<noteq> [] \<and> list_all is_digit t \<and> (\<forall>r'. no_digit r' \<longrightarrow> scan_digits (t @ r') = Some (t, r'))"
proof -
  have t: "t = takeWhile is_digit s" "r = dropWhile is_digit s" "t \<noteq> []"
    using assms by (auto simp: scan_digits_def split: if_splits)
  have d: "\<forall>x\<in>set t. is_digit x" using t(1) set_takeWhileD by metis
  then have "takeWhile is_digit (t @ r') = t \<and> dropWhile is_digit (t @ r') = r'" if "no_digit r'" for r'
    using that by (cases r') (auto simp: takeWhile_append2 dropWhile_append2)
  with t d show ?thesis by (auto simp: scan_digits_def list_all_iff)
qed

lemma scan_int_part_again:
  assumes "scan_int_part s = Some (t, r)"
  shows "s = t @ r \<and> t \<noteq> [] \<and> list_all is_digit t \<and> (\<forall>r'. no_digit r' \<longrightarrow> scan_int_part (t @ r') = Some (t, r'))"
proof (cases s)
  case (Cons c cs)
  show ?thesis
  proof (cases "c = CHR ''0''")
    case True
    with assms Cons show ?thesis by (auto simp: scan_int_part_def is_digit_def)
  next
    case False
    with assms Cons have d: "scan_digits s = Some (t, r)" by (simp add: scan_int_part_def)
    note a = scan_digits_again [OF d]
    then obtain t' where "t = c # t'" using Cons by (cases t) auto
    with a False show ?thesis by (auto simp: scan_int_part_def)
  qed
qed (use assms in \<open>simp add: scan_int_part_def\<close>)

lemma scan_frac_again:
  assumes "scan_frac s = Some (t, r)"
  shows "s = t @ r \<and> list_all num_char t \<and> (t = [] \<or> hd t = CHR ''.'') \<and>
    (\<forall>r'. no_digit r' \<longrightarrow> (r' = [] \<or> hd r' \<noteq> CHR ''.'') \<longrightarrow> scan_frac (t @ r') = Some (t, r'))"
proof (cases "s \<noteq> [] \<and> hd s = CHR ''.''")
  case True
  then obtain t' where t: "s = CHR ''.'' # tl s" "scan_digits (tl s) = Some (t', r)" "t = CHR ''.'' # t'"
    using assms by (cases s) (auto simp: scan_frac_def)
  then show ?thesis using scan_digits_again [OF t(2)]
    by (auto simp: scan_frac_def num_char_def list_all_iff)
next
  case False
  then have "t = [] \<and> r = s" using assms by (cases s) (auto simp: scan_frac_def)
  then show ?thesis by (auto simp: scan_frac_def split: list.splits)
qed

lemma scan_exp_again:
  assumes "scan_exp s = Some (t, r)"
  shows "s = t @ r \<and> list_all num_char t \<and> (t = [] \<or> hd t \<in> {CHR ''e'', CHR ''E''}) \<and>
    (\<forall>r'. num_stop r' \<longrightarrow> scan_exp (t @ r') = Some (t, r'))"
proof (cases "s \<noteq> [] \<and> hd s \<in> {CHR ''e'', CHR ''E''}")
  case True
  then obtain c d ds where s: "s = c # d # ds" "c \<in> {CHR ''e'', CHR ''E''}"
    using assms by (cases s; cases "tl s") (auto simp: scan_exp_def)
  show ?thesis
  proof (cases "d = CHR ''+'' \<or> d = CHR ''-''")
    case True
    then obtain t' where t: "scan_digits ds = Some (t', r)" "t = c # d # t'" using assms s by (auto simp: scan_exp_def)
    then show ?thesis using scan_digits_again [OF t(1)] s True
      by (auto simp: scan_exp_def num_char_def list_all_iff num_stop_def)
  next
    case False
    then obtain t' where t: "scan_digits (d # ds) = Some (t', r)" "t = c # t'" using assms s by (auto simp: scan_exp_def)
    note a = scan_digits_again [OF t(1)]
    then obtain t'' where "t' = d # t''" by (cases t') auto
    with a t s False show ?thesis by (auto simp: scan_exp_def num_char_def list_all_iff num_stop_def)
  qed
next
  case False
  then have "t = [] \<and> r = s" using assms by (cases s) (auto simp: scan_exp_def)
  then show ?thesis by (auto simp: scan_exp_def num_stop_def split: list.splits)
qed

lemma scan_num_again:
  assumes "scan_num s = Some (n, r)"
  shows "s = n @ r \<and> list_all num_char n \<and> (\<forall>r'. num_stop r' \<longrightarrow> scan_num (n @ r') = Some (n, r'))"
proof -
  define sg where "sg = (if s \<noteq> [] \<and> hd s = CHR ''-'' then ''-'' else [])"
  define s0 where "s0 = (if s \<noteq> [] \<and> hd s = CHR ''-'' then tl s else s)"
  have s: "s = sg @ s0" by (cases s) (auto simp: sg_def s0_def)
  have sc: "scan_num (sg @ x) = Option.bind (scan_int_part x) (\<lambda>(i, s1). Option.bind (scan_frac s1) (\<lambda>(f, s2).
      Option.bind (scan_exp s2) (\<lambda>(e, s3). Some (sg @ i @ f @ e, s3))))" if "sg = [] \<longrightarrow> x = [] \<or> hd x \<noteq> CHR ''-''" for x
    using that by (cases x) (auto simp: scan_num_def sg_def split: if_splits)
  have "sg = [] \<longrightarrow> s0 = [] \<or> hd s0 \<noteq> CHR ''-''" by (auto simp: sg_def s0_def split: if_splits)
  from assms [unfolded s sc [OF this]] obtain i s1 f s2 e where p: "scan_int_part s0 = Some (i, s1)"
    "scan_frac s1 = Some (f, s2)" "scan_exp s2 = Some (e, r)" "n = sg @ i @ f @ e"
    by (auto split: Option.bind_splits)
  note a = scan_int_part_again [OF p(1)] scan_frac_again [OF p(2)] scan_exp_again [OF p(3)]
  have a1: "scan_int_part (i @ x) = Some (i, x)" if "no_digit x" for x using a(1) that by metis
  have a2: "scan_frac (f @ x) = Some (f, x)" if "no_digit x" "x = [] \<or> hd x \<noteq> CHR ''.''" for x
    using a(2) that by metis
  have "list_all num_char n" using a p(4) by (auto simp: sg_def num_char_def list_all_iff)
  moreover have "scan_num (n @ r') = Some (n, r')" if "num_stop r'" for r'
  proof -
    have i: "i \<noteq> []" "is_digit (hd i)" using a(1) by (auto simp: list_all_iff)
    have n3: "scan_exp (e @ r') = Some (e, r')" using a(3) that by blast
    have heads: "t = [] \<or> hd t \<in> {CHR ''e'', CHR ''E'', CHR ''.''} \<Longrightarrow> no_digit x \<Longrightarrow> no_digit (t @ x)" for t x
      by (cases t) (auto simp: is_digit_def)
    have he: "e = [] \<or> hd e \<in> {CHR ''e'', CHR ''E''}" and hf: "f = [] \<or> hd f = CHR ''.''" using a(2,3) by blast+
    have "no_digit (e @ r')" by (rule heads) (use he that in \<open>auto simp: num_stop_def\<close>)
    moreover have "e @ r' = [] \<or> hd (e @ r') \<noteq> CHR ''.''" using he that by (cases e) (auto simp: num_stop_def)
    ultimately have n2: "scan_frac (f @ e @ r') = Some (f, e @ r')" by (rule a2)
    have "no_digit (f @ e @ r')" by (rule heads [OF _ \<open>no_digit (e @ r')\<close>]) (use hf in auto)
    then have n1: "scan_int_part (i @ f @ e @ r') = Some (i, f @ e @ r')" by (rule a1)
    have "hd (i @ f @ e @ r') \<noteq> CHR ''-''" using i by (cases i) (auto simp: is_digit_def)
    then show ?thesis using sc [of "i @ f @ e @ r'"] n1 n2 n3 p(4) by simp
  qed
  ultimately show ?thesis using s a p(4) by simp
qed

section \<open>Three ways to change a text\<close>

subsection \<open>What a parse consumes is a prefix\<close>

lemma skip_ws_suffix: "suffix (skip_ws s) s"
  by (simp add: skip_ws_def suffix_dropWhile)

interpretation consumed: text_sim "\<lambda>s s'. s' = s \<and> suffix s X" "\<lambda>s s'. s' = s \<and> suffix s X" 0 "\<lambda>r. True" for X
proof
  fix s s' c cs
  assume o: "s' = s \<and> suffix s X" and c: "skip_ws s = c # cs"
  have "suffix cs s" using skip_ws_suffix [of s] c by (metis suffix_ConsI suffix_order.trans suffix_order.refl)
  with o c show "\<exists>cs'. skip_ws s' = c # cs' \<and>
      (if c = quote then cs' = cs \<and> suffix cs X else cs' = cs \<and> suffix cs X)"
    by (auto intro: suffix_order.trans)
next
  fix s s' t r
  assume "s' = s \<and> suffix s X" and "scan_str s = Some (t, r)"
  with scan_str_prefix [of s t r] show "\<exists>r'. scan_str s' = Some (t, r') \<and> r' = r \<and> suffix r X"
    by (auto simp: suffix_def)
next
  fix s s' w r
  assume o: "s' = s \<and> suffix s X" and w: "skip_ws s = w @ r"
  have "suffix r s" using skip_ws_suffix [of s] w by (metis suffix_appendI suffix_order.refl suffix_order.trans)
  with o w show "\<exists>r'. skip_ws s' = w @ r' \<and> r' = r \<and> suffix r X" by (auto intro: suffix_order.trans)
next
  fix s s' n r
  assume o: "s' = s \<and> suffix s X" and n: "scan_num (skip_ws s) = Some (n, r)"
  have "suffix r s" using skip_ws_suffix [of s] scan_num_again [OF n] by (metis suffix_appendI suffix_order.refl suffix_order.trans)
  with o n show "\<exists>r'. scan_num (skip_ws s') = Some (n, r') \<and> r' = r \<and> suffix r X" by (auto intro: suffix_order.trans)
qed

lemma parse_suffix: "parse_value d s = Some (v, r) \<Longrightarrow> suffix r s"
  using consumed.parse_same [of d s v r s s] by auto

subsection \<open>What follows a value does not matter\<close>

lemma skip_ws_append: "skip_ws b \<noteq> [] \<Longrightarrow> skip_ws (b @ x) = skip_ws b @ x"
  by (induction b) (auto simp: skip_ws_def)

lemma skip_ws_all: "skip_ws b = [] \<Longrightarrow> skip_ws (b @ x) = skip_ws x"
  by (induction b) (auto simp: skip_ws_def split: if_splits)

lemma skip_ws_within:
  assumes "skip_ws (b @ x) = w @ r" and "w \<noteq> []" and "length x \<le> length r"
  obtains b' where "skip_ws b = w @ b'" "r = b' @ x" "\<And>y. skip_ws (b @ y) = w @ b' @ y"
proof -
  have ne: "skip_ws b \<noteq> []"
  proof
    assume "skip_ws b = []"
    from skip_ws_all [OF this] assms have "length (w @ r) \<le> length x" using skip_ws_length [of x] by simp
    with assms(2,3) show False by (cases w) auto
  qed
  then have "skip_ws b @ x = w @ r" using assms(1) skip_ws_append by metis
  then obtain b' where "skip_ws b = w @ b'" "r = b' @ x"
    using assms(3) by (auto simp: append_eq_append_conv2)
  with ne show thesis using that skip_ws_append by simp
qed

interpretation extended: text_sim "\<lambda>s s'. \<exists>b. s = b @ x \<and> s' = b @ y" "\<lambda>s s'. \<exists>b. s = b @ x \<and> s' = b @ y"
  "length x" "\<lambda>r. r = x \<and> num_stop y" for x y
proof
  fix s s' c cs
  assume "\<exists>b. s = b @ x \<and> s' = b @ y" and c: "skip_ws s = c # cs" "length x \<le> length cs"
  then obtain b where b: "s = b @ x" "s' = b @ y" by blast
  obtain b' where "cs = b' @ x" "skip_ws s' = c # b' @ y"
    using skip_ws_within [of b x "[c]" cs] c b by (metis append_Cons append_Nil list.distinct(1))
  then show "\<exists>cs'. skip_ws s' = c # cs' \<and>
      (if c = quote then \<exists>b. cs = b @ x \<and> cs' = b @ y else \<exists>b. cs = b @ x \<and> cs' = b @ y)" by auto
next
  fix s s' t r
  assume "\<exists>b. s = b @ x \<and> s' = b @ y" and l: "scan_str s = Some (t, r)" "length x \<le> length r"
  then obtain b where b: "s = b @ x" "s' = b @ y" by blast
  from scan_str_prefix [OF l(1)] obtain p where p: "b @ x = p @ r" "\<And>r'. scan_str (p @ r') = Some (t, r')" using b by auto
  with l(2) obtain q where "b = p @ q" "r = q @ x" by (auto simp: append_eq_append_conv2)
  with p b show "\<exists>r'. scan_str s' = Some (t, r') \<and> (\<exists>b. r = b @ x \<and> r' = b @ y)" by auto
next
  fix s s' w r
  assume "\<exists>b. s = b @ x \<and> s' = b @ y" and w: "skip_ws s = w @ r" "length x \<le> length r" "w \<in> set [''true'', ''false'', ''null'']"
  then obtain b where b: "s = b @ x" "s' = b @ y" by blast
  have "w \<noteq> []" using w(3) by auto
  with skip_ws_within [of b x w r] w b show "\<exists>r'. skip_ws s' = w @ r' \<and> (\<exists>b. r = b @ x \<and> r' = b @ y)" by metis
next
  fix s s' n r
  assume "\<exists>b. s = b @ x \<and> s' = b @ y" and n: "scan_num (skip_ws s) = Some (n, r)" "length x \<le> length r"
    and st: "r = x \<and> num_stop y \<or>
      (\<exists>c q. skip_ws r = c # q \<and> length x \<le> length q \<and> c \<in> set [CHR '','', CHR '']'', CHR ''}''])"
  then obtain b where b: "s = b @ x" "s' = b @ y" by blast
  note a = scan_num_again [OF n(1)]
  have "n \<noteq> []" using scan_num_length [OF n(1)] a by auto
  with skip_ws_within [of b x n r] a b n(2) obtain b' where b': "r = b' @ x" "skip_ws s' = n @ b' @ y" by metis
  have "num_stop (b' @ y)"
  proof (cases "b' = []")
    case True
    with b'(1) st show ?thesis using skip_ws_Cons [of r] by fastforce
  next
    case False
    with b'(1) have "hd (b' @ y) = hd r" "r \<noteq> []" by simp_all
    moreover from this False b'(1) st obtain c q where "skip_ws r = c # q" "c \<in> set [CHR '','', CHR '']'', CHR ''}'']" by auto
    then have "is_ws (hd r) \<or> hd r \<in> set [CHR '','', CHR '']'', CHR ''}'']" using \<open>r \<noteq> []\<close>
      by (cases r) (auto simp: skip_ws_def split: if_splits)
    ultimately show ?thesis by (auto simp: num_stop_def is_ws_def is_digit_def)
  qed
  with a b' show "\<exists>r'. scan_num (skip_ws s') = Some (n, r') \<and> (\<exists>b. r = b @ x \<and> r' = b @ y)" by auto
qed

lemma parse_extend:
  assumes "parse_value d (b @ x) = Some (v, x)" and "num_stop y"
  shows "parse_value d (b @ y) = Some (v, y)"
  using extended.parse_same [OF assms(1), of x "b @ y" y] assms(2) by auto

subsection \<open>Compacting\<close>

lemma compact_token:
  "\<not> is_ws c \<Longrightarrow> html_escape (c # cs) = None \<Longrightarrow> compact Out (c # cs) = c # compact (lex_next Out c) cs"
  by (simp add: compact.simps)

lemma compact_skip: "compact Out (skip_ws s) = compact Out s"
proof (induction s)
  case (Cons c cs)
  show ?case
  proof (cases "is_ws c")
    case True
    then have "html_escape (c # cs) = None" by (intro html_None) (auto simp: is_ws_def)
    with True Cons show ?thesis by (simp add: skip_ws_def compact.simps)
  qed simp
qed (simp add: skip_ws_def)

lemma compact_word:
  assumes "list_all (\<lambda>c. \<not> is_ws c \<and> c \<notin> {quote, CHR ''<'', CHR ''>'', CHR ''&'', CHR 0xE2}) w"
  shows "compact Out (w @ r) = w @ compact Out r"
  using assms by (induction w) (auto simp: compact_token html_None)

lemma digit_not_ws: "is_digit c \<or> c = CHR ''-'' \<Longrightarrow> \<not> is_ws c"
  by (auto simp: is_digit_def is_ws_def)

lemma num_word: "list_all num_char n \<Longrightarrow> list_all (\<lambda>c. \<not> is_ws c \<and> c \<notin> {quote, CHR ''<'', CHR ''>'', CHR ''&'', CHR 0xE2}) n"
  by (auto simp: list_all_iff num_char_def is_digit_def is_ws_def)

interpretation compacted: text_sim "\<lambda>s s'. s' = compact Out s" "\<lambda>s s'. s' = compact InStr s" 0 "\<lambda>r. skip_ws r = []"
proof
  fix s s' c cs
  assume s: "s' = compact Out s" "skip_ws s = c # cs"
    and c: "c \<in> set [quote, CHR ''{'', CHR ''}'', CHR ''['', CHR '']'', CHR '','', CHR '':'']"
  have "\<not> is_ws c" using c by (auto simp: is_ws_def)
  moreover have "html_escape (c # cs) = None" using c by (intro html_None) auto
  ultimately have "s' = c # compact (lex_next Out c) cs" using s compact_skip [of s] compact_token by simp
  with \<open>\<not> is_ws c\<close> show "\<exists>cs'. skip_ws s' = c # cs' \<and> (if c = quote then cs' = compact InStr cs else cs' = compact Out cs)"
    by simp
next
  fix s s' w r
  assume s: "s' = compact Out s" "skip_ws s = w @ r" and w: "w \<in> set [''true'', ''false'', ''null'']"
  have "compact Out (w @ r) = w @ compact Out r" by (rule compact_word) (use w in \<open>auto simp: is_ws_def\<close>)
  moreover have "skip_ws (w @ x) = w @ x" for x using w by (auto simp: is_ws_def)
  ultimately show "\<exists>r'. skip_ws s' = w @ r' \<and> r' = compact Out r" using s compact_skip [of s] by metis
next
  fix s s' n r
  assume s: "s' = compact Out s" "scan_num (skip_ws s) = Some (n, r)"
    and st: "skip_ws r = [] \<or> (\<exists>c q. skip_ws r = c # q \<and> 0 \<le> length q \<and> c \<in> set [CHR '','', CHR '']'', CHR ''}''])"
  note a = scan_num_again [OF s(2)]
  then have n: "s' = n @ compact Out r" using s(1) compact_skip [of s] compact_word [OF num_word] by metis
  have "num_stop (compact Out r)"
  proof (cases "skip_ws r = []")
    case True
    then show ?thesis using compact_skip [of r] by (simp add: compact.simps)
  next
    case False
    with st obtain c q where q: "skip_ws r = c # q" "c \<in> set [CHR '','', CHR '']'', CHR ''}'']" by blast
    then have "compact Out (c # q) = c # compact (lex_next Out c) q" by (intro compact_token html_None) auto
    then have "compact Out r = c # compact (lex_next Out c) q" using q(1) compact_skip [of r] by metis
    with q(2) show ?thesis by auto
  qed
  with a have "scan_num (n @ compact Out r) = Some (n, compact Out r)" by blast
  moreover from scan_num_hd [OF this] have "skip_ws (n @ compact Out r) = n @ compact Out r"
    by (auto intro!: skip_ws_char simp: digit_not_ws)
  ultimately show "\<exists>r'. scan_num (skip_ws s') = Some (n, r') \<and> r' = compact Out r" using n by simp
qed (auto dest: scan_str_compact)

text \<open>Compacting a text does not change the value that is read from it.\<close>

lemma parse_compact:
  assumes "parse_value d s = Some (v, [])"
  shows "parse_value d (compact Out s) = Some (v, [])"
  using compacted.parse_same [OF assms] by (simp add: skip_ws_def compact.simps)

lemma compact_hd:
  assumes "parse_value d s = Some (v, [])"
  shows "skip_ws (compact Out s) = compact Out s"
proof -
  obtain c cs where c: "skip_ws s = c # cs" "\<not> is_ws c" using parse_value_hd [OF assms] by blast
  have "compact Out (c # cs) \<noteq> [] \<and> \<not> is_ws (hd (compact Out (c # cs)))"
  proof (cases "html_escape (c # cs)")
    case None
    with c(2) show ?thesis by (simp add: compact_token)
  next
    case (Some x)
    then obtain n t where "html_escape (c # cs) = Some (n, t)" by (cases x) auto
    with html_hd [OF this] show ?thesis by (auto simp: compact.simps is_ws_def)
  qed
  with c compact_skip [of s] show ?thesis by (metis skip_ws_id)
qed

section \<open>Strings that were read can be written\<close>

text \<open>
  What the parser reads is always valid UTF-8 (invalid bytes are replaced), and every valid UTF-8
  string is read back from what the encoder writes for it.
\<close>

function valid_utf8 :: "string \<Rightarrow> bool" where
  "valid_utf8 [] = True"
| "valid_utf8 (c # cs) =
     (let n = rune_len (of_char c # map of_char (take 3 cs)) in n \<noteq> 0 \<and> valid_utf8 (drop (n - 1) cs))"
  by pat_completeness auto
termination by (relation "measure length") auto

declare valid_utf8.simps(2) [simp del]

lemma valid_utf8_run:
  assumes "rune_len (of_char c # map of_char (take 3 (t @ q))) = Suc (length t)"
  shows "valid_utf8 (c # t @ q) = valid_utf8 q"
  using assms by (simp add: valid_utf8.simps)

lemma valid_utf8_cases:
  assumes "valid_utf8 s" and "s \<noteq> []"
  obtains c t q where "s = c # t @ q" "\<And>q'. rune_len (of_char c # map of_char (take 3 (t @ q'))) = Suc (length t)" "valid_utf8 q"
proof -
  obtain c cs where s: "s = c # cs" using assms(2) by (cases s) auto
  obtain n where n: "rune_len (of_char c # map of_char (take 3 cs)) = Suc n"
    using assms(1) s by (cases "rune_len (of_char c # map of_char (take 3 cs))") (auto simp: valid_utf8.simps)
  have "n \<le> length cs" "n \<le> 3" using rune_len_le [of "of_char c # map of_char (take 3 cs)"] n by simp_all
  moreover have "rune_len (of_char c # map of_char (take 3 (take n cs @ q'))) = Suc n" for q'
    using rune_len_prefix [of "of_char c" "map of_char (take 3 cs)" "map of_char (take 3 (take n cs @ q'))"] n calculation
    by (simp add: take_map)
  moreover have "valid_utf8 (drop n cs)" using assms(1) s n by (simp add: valid_utf8.simps)
  ultimately show thesis using s by (intro that [of c "take n cs" "drop n cs"]) simp_all
qed

lemma valid_utf8_append: "valid_utf8 a \<Longrightarrow> valid_utf8 b \<Longrightarrow> valid_utf8 (a @ b)"
proof (induction a rule: length_induct)
  case (1 a)
  show ?case
  proof (cases "a = []")
    case False
    from 1(2) False obtain c t q where a: "a = c # t @ q" "\<And>q'. rune_len (of_char c # map of_char (take 3 (t @ q'))) = Suc (length t)" "valid_utf8 q"
      by (rule valid_utf8_cases) blast
    with 1 have "valid_utf8 (q @ b)" by simp
    with valid_utf8_run [OF a(2)] a(1) show ?thesis by simp
  qed (use 1 in simp)
qed

lemma of_char_byte: "n < 256 \<Longrightarrow> of_char (char_of n :: char) = (n :: nat)"
  by simp

lemma valid_rune: "valid_utf8 (rune_bytes r)"
proof -
  have e: "valid_utf8 RuneError" by code_simp
  consider "0xD800 \<le> r \<and> r < 0xE000 \<or> 0x10FFFF < r" | "r < 0x80" | "0x80 \<le> r" "r < 0x800"
    | "0x800 \<le> r" "r < 0x10000" "\<not> (0xD800 \<le> r \<and> r < 0xE000)" | "0x10000 \<le> r" "r \<le> 0x10FFFF"
    by linarith
  then show ?thesis
  proof cases
    case 1
    with e show ?thesis by (simp add: rune_bytes_def)
  next
    case 2
    then show ?thesis by (simp add: rune_bytes_def utf8_def valid_utf8.simps rune_len.simps)
  next
    case 3
    then have "0xC2 \<le> 0xC0 + r div 64" "0xC0 + r div 64 \<le> 0xDF" "r mod 64 < 64" by auto
    with 3 show ?thesis by (simp add: rune_bytes_def utf8_def valid_utf8.simps rune_len.simps cont_byte_def)
  next
    case 4
    define a b where "a = r div 4096" and "b = r div 64 mod 64"
    have "r div 4096 = r div 64 div 64" by (simp add: div_mult2_eq [symmetric])
    then have "r div 64 = 64 * a + b" by (simp add: a_def b_def)
    moreover have "32 \<le> r div 64" "r div 64 < 1024" "\<not> (864 \<le> r div 64 \<and> r div 64 < 896)" using 4 by auto
    moreover have "b < 64" by (simp add: b_def)
    ultimately have "a < 16" "a = 0 \<longrightarrow> 32 \<le> b" "a = 13 \<longrightarrow> b < 32" "b < 64" by linarith+
    moreover have "r mod 64 \<le> 63" using mod_less_divisor [of 64 r] by linarith
    moreover have "rune_bytes r = utf8 [0xE0 + a, 0x80 + b, 0x80 + r mod 64]" using 4 by (auto simp: rune_bytes_def a_def b_def)
    ultimately show ?thesis by (auto simp: utf8_def valid_utf8.simps rune_len.simps cont_byte_def)
  next
    case 5
    define a b where "a = r div 262144" and "b = r div 4096 mod 64"
    have "r div 262144 = r div 4096 div 64" by (simp add: div_mult2_eq [symmetric])
    then have "r div 4096 = 64 * a + b" by (simp add: a_def b_def)
    moreover have "16 \<le> r div 4096" "r div 4096 \<le> 271" using 5 by auto
    ultimately have "a \<le> 4" "a = 0 \<longrightarrow> 16 \<le> b" "a = 4 \<longrightarrow> b < 16" by linarith+
    moreover have "b \<le> 63" "r div 64 mod 64 \<le> 63" "r mod 64 \<le> 63"
      using mod_less_divisor [of 64 "r div 4096"] mod_less_divisor [of 64 "r div 64"] mod_less_divisor [of 64 r]
      by (simp_all add: b_def)
    moreover have "rune_bytes r = utf8 [0xF0 + a, 0x80 + b, 0x80 + r div 64 mod 64, 0x80 + r mod 64]"
      using 5 by (simp add: rune_bytes_def a_def b_def)
    ultimately show ?thesis by (auto simp: utf8_def valid_utf8.simps rune_len.simps cont_byte_def)
  qed
qed

lemma scan_item_valid: "scan_item s = Some (u, q) \<Longrightarrow> valid_utf8 u"
proof (erule scan_item_cases)
  fix e x
  assume "simple_escape e = Some x" "u = [x]"
  then show "valid_utf8 u" by (auto simp: simple_escape_def valid_utf8.simps rune_len.simps split: if_splits)
next
  fix c t n
  assume r: "rune_len (of_char c # map of_char (take 3 (t @ q))) = Suc n" "length t = n" "u = c # t"
  have "n \<le> 3" using rune_len_le [of "of_char c # map of_char (take 3 (t @ q))"] r by simp
  with r have "rune_len (of_char c # map of_char (take 3 (t @ []))) = Suc (length t)"
    using rune_len_prefix [of "of_char c" "map of_char (take 3 (t @ q))" "map of_char (take 3 (t @ []))"]
    by (simp add: take_map)
  from valid_utf8_run [OF this] r show "valid_utf8 u" by simp
next
  show "valid_utf8 u" if "u = RuneError" unfolding that by code_simp
  show "valid_utf8 u" if "u = RuneError" unfolding that by code_simp
qed (simp_all add: valid_rune)

lemma scan_str_valid: "scan_str s = Some (t, r) \<Longrightarrow> valid_utf8 t"
proof (induction s arbitrary: t rule: scan_str.induct)
  case (1 s)
  then show ?case
    by (subst (asm) (2) scan_str.simps) (auto split: if_splits option.splits intro!: valid_utf8_append dest: scan_item_valid)
qed

lemma scan_str_print: "valid_utf8 s \<Longrightarrow> scan_str (escape_body s @ quote # r) = Some (s, r)"
proof (induction s rule: length_induct)
  case (1 s)
  show ?case
  proof (cases "s = []")
    case False
    from 1(2) False obtain c t q where s: "s = c # t @ q" "\<And>q'. rune_len (of_char c # map of_char (take 3 (t @ q'))) = Suc (length t)" "valid_utf8 q"
      by (rule valid_utf8_cases) blast
    let ?r = "escape_body q @ quote # r"
    have ih: "scan_str ?r = Some (q, r)" using 1(1) s by simp
    obtain e where e: "escape_body s = e @ escape_body q" "scan_item (e @ ?r) = Some (c # t, ?r)" "e \<noteq> []" "hd e \<noteq> quote"
    proof (cases "(of_char c :: nat) < 0x80")
      case True
      then have "t = []" using s(2) [of "[]"] by (simp add: rune_len.simps)
      with True s scan_item_escape [OF True, of ?r] show thesis
        by (intro that [of "escape_ascii c"]) (auto simp: escape_body.simps hd_append split: if_splits)
    next
      case False
      have run: "rune_len (map of_char (c # take 3 (t @ q))) = Suc (length t)" using s(2) [of q] by simp
      show thesis
      proof (cases "html_escape (c # t @ q)")
        case (Some x)
        then obtain n w where x: "html_escape (c # t @ q) = Some (n, w)" by (cases x) auto
        note h = html_item [OF x s(2), of ?r]
        have "escape_body s = w @ escape_body q"
          using x False run h by (auto simp: s(1) escape_body.simps Let_def html_escape_def split: if_splits)
        with h show thesis by (intro that [of w]) auto
      next
        case None
        have "take 3 (c # t @ q) = c # t" if "c # t = utf8 [0xE2, 0x80, x]" for x
          using that by (auto simp: utf8_def)
        then have plain: "c # t \<noteq> utf8 [0xE2, 0x80, 0xA8]" "c # t \<noteq> utf8 [0xE2, 0x80, 0xA9]"
          using None by (auto simp: html_escape_def split: if_splits)
        have "escape_body s = (c # t) @ escape_body q"
          using plain False run by (simp add: s(1) escape_body.simps Let_def)
        moreover have "c \<noteq> backslash" "c \<noteq> quote" "0x20 \<le> (of_char c :: nat)" using False by auto
        ultimately show thesis using scan_item_run [OF _ _ s(2) refl, where q' = ?r] by (intro that [of "c # t"]) auto
      qed
    qed
    from scan_str_step [OF _ _ e(2)] e(3,4) ih have "scan_str (e @ ?r) = Some (s, r)" by (simp add: s(1) hd_append)
    with e(1) show ?thesis by simp
  qed (simp add: escape_body.simps)
qed

end
