(* ===== verification/Frames.thy ===== *)
theory Frames
  imports Compact Cluster
begin

text \<open>
  The frames of the relay as bytes (\<open>signaling/handlers.go\<close>: \<open>envelope\<close>, \<open>mustMarshal\<close> and the
  \<open>json.Unmarshal\<close> of \<open>readPump\<close>). The payload is a \<open>json.RawMessage\<close>: its text is kept when a message
  is read, and compacted when it is written. This is the codec that the relay runs with; what it
  forwards decodes to the type and the payload that were sent, under the role of the sender.
\<close>

section \<open>Reading\<close>

definition envelope_zero :: envelope where
  "envelope_zero = \<lparr>env_type = '''', env_from = '''', env_payload = ''''\<rparr>"

definition envelope_struct :: struct where
  "envelope_struct = [(''type'', VStr ''''), (''from'', VStr ''''), (''payload'', VBytes '''')]"

text \<open>The text of the value that starts \<open>s\<close> when \<open>r\<close> is left after it.\<close>

definition raw_text :: "string \<Rightarrow> string \<Rightarrow> string" where
  "raw_text s r = take (length (skip_ws s) - length r) (skip_ws s)"

text \<open>The members of an object, each with the text of its value.\<close>

function raw_members :: "nat \<Rightarrow> string \<Rightarrow> ((string \<times> string \<times> jv) list \<times> string) option" where
  "raw_members d s =
     (case skip_ws s of
        x # s1 \<Rightarrow>
          if x \<noteq> quote then None
          else (case scan_str s1 of
             None \<Rightarrow> None
           | Some (k, s2) \<Rightarrow>
               (case skip_ws s2 of
                  y # s3 \<Rightarrow>
                    if y \<noteq> CHR '':'' then None
                    else (case parse_value d s3 of
                       None \<Rightarrow> None
                     | Some (v, r) \<Rightarrow>
                         (case skip_ws r of
                            c # r1 \<Rightarrow>
                              if length r1 < length s then
                                (if c = CHR ''}'' then Some ([(k, raw_text s3 r, v)], r1)
                                 else if c = CHR '','' then map_option (\<lambda>(ms, q). ((k, raw_text s3 r, v) # ms, q)) (raw_members d r1)
                                 else None)
                              else None
                          | [] \<Rightarrow> None))
                | [] \<Rightarrow> None))
      | [] \<Rightarrow> None)"
  by pat_completeness auto
termination by (relation "measure (\<lambda>(d, s). length s)") auto

declare raw_members.simps [simp del]

text \<open>Storing a member: the two strings as in other structs, the payload as its text.\<close>

fun store_envelope :: "string \<times> string \<times> jv \<Rightarrow> envelope \<times> bool \<Rightarrow> envelope \<times> bool" where
  "store_envelope (k, raw, v) (env, ok) =
     (case find_field envelope_struct k of
        None \<Rightarrow> (env, ok)
      | Some f \<Rightarrow>
          if f = ''payload'' then (env\<lparr>env_payload := raw\<rparr>, ok)
          else (case v of
             JvStr t \<Rightarrow> (if f = ''type'' then env\<lparr>env_type := t\<rparr> else env\<lparr>env_from := t\<rparr>, ok)
           | JvNull \<Rightarrow> (env, ok)
           | _ \<Rightarrow> (env, False)))"

definition Unmarshal_envelope :: "string \<Rightarrow> envelope option" where
  "Unmarshal_envelope data =
     (case parse_value maxNestingDepth data of
        None \<Rightarrow> None
      | Some (v, r) \<Rightarrow>
          if skip_ws r \<noteq> [] then None
          else case v of
            JvNull \<Rightarrow> Some envelope_zero
          | JvObj [] \<Rightarrow> Some envelope_zero
          | JvObj _ \<Rightarrow>
              (case raw_members (maxNestingDepth - 1) (tl (skip_ws data)) of
                 None \<Rightarrow> None
               | Some (ms, _) \<Rightarrow>
                   (case fold store_envelope ms (envelope_zero, True) of (env, ok) \<Rightarrow> if ok then Some env else None))
          | _ \<Rightarrow> None)"

section \<open>Writing\<close>

definition valid_json :: "string \<Rightarrow> bool" where
  "valid_json t = (case parse_value maxNestingDepth t of None \<Rightarrow> False | Some (v, r) \<Rightarrow> skip_ws r = [])"

text \<open>Empty fields are left out; a payload that is not JSON makes \<open>json.Marshal\<close> fail, and nothing is written.\<close>

definition mustMarshal :: "envelope \<Rightarrow> frame" where
  "mustMarshal env =
     (if env_payload env \<noteq> '''' \<and> \<not> valid_json (env_payload env) then ''''
      else ''{'' @ print_str ''type'' @ '':'' @ print_str (env_type env)
        @ (if env_from env = '''' then '''' else '','' @ print_str ''from'' @ '':'' @ print_str (env_from env))
        @ (if env_payload env = '''' then '''' else '','' @ print_str ''payload'' @ '':'' @ compact Out (env_payload env))
        @ ''}'')"

definition json_codec :: codec where
  "json_codec = \<lparr>marshal = mustMarshal, unmarshal = Unmarshal_envelope\<rparr>"

section \<open>Texts of members\<close>

lemma raw_members_iff:
  "raw_members d s = Some (ms, r) \<longleftrightarrow>
     (\<exists>s1 k s2 s3 v q. skip_ws s = quote # s1 \<and> scan_str s1 = Some (k, s2) \<and> skip_ws s2 = CHR '':'' # s3 \<and>
       parse_value d s3 = Some (v, q) \<and>
       (skip_ws q = CHR ''}'' # r \<and> ms = [(k, raw_text s3 q, v)] \<or>
        (\<exists>q' us. skip_ws q = CHR '','' # q' \<and> raw_members d q' = Some (us, r) \<and> ms = (k, raw_text s3 q, v) # us)))"
proof -
  have "length q' < length s" if "skip_ws s = quote # s1" "scan_str s1 = Some (k, s2)" "skip_ws s2 = CHR '':'' # s3"
    "parse_value d s3 = Some (v, q)" "skip_ws q = c # q'" for s1 k s2 s3 v q c q'
    using skip_ws_Cons [OF that(1)] scan_str_length [OF that(2)] skip_ws_Cons [OF that(3)]
      parse_shorter(1) [OF that(4)] skip_ws_Cons [OF that(5)] by simp
  then show ?thesis
    by (subst raw_members.simps) (fastforce split: option.splits list.splits if_splits)
qed

text \<open>The members and their values are those of the parser; each text is the text of its value.\<close>

lemma raw_text_value:
  assumes "parse_value d s = Some (v, r)"
  shows "parse_value d (raw_text s r) = Some (v, [])" and "raw_text s r \<noteq> []"
proof -
  have p: "parse_value d (skip_ws s) = Some (v, r)" using assms parse_skip_ws by simp
  from parse_suffix [OF this] obtain t where t: "skip_ws s = t @ r" by (auto simp: suffix_def)
  then have raw: "raw_text s r = t" by (simp add: raw_text_def)
  show "parse_value d (raw_text s r) = Some (v, [])" using parse_extend [of d t r v "[]"] p t raw by simp
  show "raw_text s r \<noteq> []" using parse_shorter(1) [OF p] t raw by auto
qed

lemma raw_members_texts:
  "raw_members d s = Some (ms, r) \<Longrightarrow> (k, raw, v) \<in> set ms \<Longrightarrow>
     parse_value d raw = Some (v, []) \<and> raw \<noteq> [] \<and> valid_utf8 k"
proof (induction s arbitrary: ms rule: length_induct)
  case (1 s)
  from iffD1 [OF raw_members_iff 1(2)] obtain s1 k' s2 s3 v' q where p: "skip_ws s = quote # s1" "scan_str s1 = Some (k', s2)"
    "skip_ws s2 = CHR '':'' # s3" "parse_value d s3 = Some (v', q)" and
    m: "skip_ws q = CHR ''}'' # r \<and> ms = [(k', raw_text s3 q, v')] \<or>
        (\<exists>q' us. skip_ws q = CHR '','' # q' \<and> raw_members d q' = Some (us, r) \<and> ms = (k', raw_text s3 q, v') # us)" by blast
  have here: "parse_value d (raw_text s3 q) = Some (v', [])" "raw_text s3 q \<noteq> []" "valid_utf8 k'"
    using raw_text_value [OF p(4)] scan_str_valid [OF p(2)] by blast+
  show ?case
  proof (cases "(k, raw, v) = (k', raw_text s3 q, v')")
    case True
    with here show ?thesis by simp
  next
    case False
    with m 1(3) obtain q' us where u: "skip_ws q = CHR '','' # q'" "raw_members d q' = Some (us, r)" "(k, raw, v) \<in> set us" by auto
    have "length q' < length s"
      using skip_ws_Cons [OF p(1)] scan_str_length [OF p(2)] skip_ws_Cons [OF p(3)] parse_shorter(1) [OF p(4)] skip_ws_Cons [OF u(1)] by simp
    with 1(1) u show ?thesis by blast
  qed
qed

lemma parse_members_raw:
  "parse_members d s = Some (vs, r) \<Longrightarrow> \<exists>ms. raw_members d s = Some (ms, r) \<and> vs = map (\<lambda>(k, t, v). (k, v)) ms"
proof (induction s arbitrary: vs rule: length_induct)
  case (1 s)
  from iffD1 [OF parse_members_iff 1(2)] obtain s1 k s2 s3 v q where p: "skip_ws s = quote # s1" "scan_str s1 = Some (k, s2)"
    "skip_ws s2 = CHR '':'' # s3" "parse_value d s3 = Some (v, q)" and
    m: "skip_ws q = CHR ''}'' # r \<and> vs = [(k, v)] \<or>
        (\<exists>q' us. skip_ws q = CHR '','' # q' \<and> parse_members d q' = Some (us, r) \<and> vs = (k, v) # us)" by blast
  from m show ?case
  proof (elim disjE conjE exE)
    assume "skip_ws q = CHR ''}'' # r" "vs = [(k, v)]"
    with p show ?thesis unfolding raw_members_iff [of d s] by (intro exI [of _ "[(k, raw_text s3 q, v)]"]) auto
  next
    fix q' us
    assume u: "skip_ws q = CHR '','' # q'" "parse_members d q' = Some (us, r)" "vs = (k, v) # us"
    have "length q' < length s"
      using skip_ws_Cons [OF p(1)] scan_str_length [OF p(2)] skip_ws_Cons [OF p(3)] parse_shorter(1) [OF p(4)] skip_ws_Cons [OF u(1)] by simp
    with 1(1) u(2) obtain ws where "raw_members d q' = Some (ws, r)" "us = map (\<lambda>(k, t, v). (k, v)) ws" by blast
    with p u show ?thesis unfolding raw_members_iff [of d s] by (intro exI [of _ "(k, raw_text s3 q, v) # ws"]) auto
  qed
qed

lemma raw_members_parse:
  "raw_members d s = Some (ms, r) \<Longrightarrow> parse_members d s = Some (map (\<lambda>(k, t, v). (k, v)) ms, r)"
proof (induction s arbitrary: ms rule: length_induct)
  case (1 s)
  from iffD1 [OF raw_members_iff 1(2)] obtain s1 k s2 s3 v q where p: "skip_ws s = quote # s1" "scan_str s1 = Some (k, s2)"
    "skip_ws s2 = CHR '':'' # s3" "parse_value d s3 = Some (v, q)" and
    m: "skip_ws q = CHR ''}'' # r \<and> ms = [(k, raw_text s3 q, v)] \<or>
        (\<exists>q' us. skip_ws q = CHR '','' # q' \<and> raw_members d q' = Some (us, r) \<and> ms = (k, raw_text s3 q, v) # us)" by blast
  from m show ?case
  proof (elim disjE conjE exE)
    assume "skip_ws q = CHR ''}'' # r" "ms = [(k, raw_text s3 q, v)]"
    with p show ?thesis unfolding parse_members_iff [of d s] by auto
  next
    fix q' us
    assume u: "skip_ws q = CHR '','' # q'" "raw_members d q' = Some (us, r)" "ms = (k, raw_text s3 q, v) # us"
    have "length q' < length s"
      using skip_ws_Cons [OF p(1)] scan_str_length [OF p(2)] skip_ws_Cons [OF p(3)] parse_shorter(1) [OF p(4)] skip_ws_Cons [OF u(1)] by simp
    with 1(1) u(2) have "parse_members d q' = Some (map (\<lambda>(k, t, v). (k, v)) us, r)" by blast
    with p u show ?thesis unfolding parse_members_iff [of d s] by auto
  qed
qed

section \<open>What is read\<close>

lemma parse_JvStr: "parse_value d s = Some (JvStr t, r) \<Longrightarrow> valid_utf8 t"
  by (erule parse_value_cases) (auto simp: words_def dest: scan_str_valid)

text \<open>The decoded envelope: a valid type, and a payload that is absent or the text of a value.\<close>

definition payload_ok :: "string \<Rightarrow> bool" where
  "payload_ok p \<longleftrightarrow> p = [] \<or> (\<exists>v. parse_value (maxNestingDepth - 1) p = Some (v, []))"

lemma store_envelope_ok:
  assumes "parse_value (maxNestingDepth - 1) raw = Some (v, [])" and "valid_utf8 (env_type env)" and "payload_ok (env_payload env)"
    and "store_envelope (k, raw, v) (env, ok) = (env', ok')"
  shows "valid_utf8 (env_type env') \<and> payload_ok (env_payload env')"
proof -
  have "v = JvStr t \<Longrightarrow> valid_utf8 t" for t using assms(1) parse_JvStr by blast
  with assms show ?thesis by (auto simp: payload_ok_def split: option.splits if_splits jv.splits)
qed

lemma store_envelopes_ok:
  assumes "\<forall>(k, raw, v) \<in> set ms. parse_value (maxNestingDepth - 1) raw = Some (v, [])"
    and "valid_utf8 (env_type env)" and "payload_ok (env_payload env)" and "fold store_envelope ms (env, ok) = (env', ok')"
  shows "valid_utf8 (env_type env') \<and> payload_ok (env_payload env')"
  using assms
proof (induction ms arbitrary: env ok)
  case (Cons m ms)
  obtain k raw v where m: "m = (k, raw, v)" by (cases m)
  obtain e o1 where e: "store_envelope m (env, ok) = (e, o1)" by fastforce
  from store_envelope_ok [of raw v env k ok e o1] Cons.prems(1-3) e m have "valid_utf8 (env_type e) \<and> payload_ok (env_payload e)" by auto
  with Cons.IH [of e o1] Cons.prems(1,4) e show ?case by auto
qed simp

lemma Unmarshal_envelope_ok:
  assumes "Unmarshal_envelope data = Some env"
  shows "valid_utf8 (env_type env) \<and> payload_ok (env_payload env)"
proof -
  have zero: "valid_utf8 (env_type envelope_zero)" "payload_ok (env_payload envelope_zero)"
    by (simp_all add: envelope_zero_def payload_ok_def)
  from assms consider "env = envelope_zero"
    | ms r ok where "raw_members (maxNestingDepth - 1) (tl (skip_ws data)) = Some (ms, r)"
      "fold store_envelope ms (envelope_zero, True) = (env, ok)"
    by (auto simp: Unmarshal_envelope_def split: option.splits prod.splits if_splits jv.splits list.splits)
  then show ?thesis
  proof cases
    case 2
    have "\<forall>(k, raw, v) \<in> set ms. parse_value (maxNestingDepth - 1) raw = Some (v, [])"
      using raw_members_texts [OF 2(1)] by blast
    from store_envelopes_ok [OF this zero 2(2)] show ?thesis .
  qed (use zero in simp)
qed

section \<open>What is written\<close>

lemma parse_deeper: "parse_value d s = Some (v, r) \<Longrightarrow> parse_value (Suc d) s = Some (v, r)"
proof -
  have "(\<forall>d v r. parse_value d s = Some (v, r) \<longrightarrow> parse_value (Suc d) s = Some (v, r)) \<and>
      (\<forall>d vs r. parse_elems d s = Some (vs, r) \<longrightarrow> parse_elems (Suc d) s = Some (vs, r)) \<and>
      (\<forall>d ms r. parse_members d s = Some (ms, r) \<longrightarrow> parse_members (Suc d) s = Some (ms, r))"
  proof (induction s rule: length_induct)
    case (1 s)
    have v: "parse_value (Suc d) s = Some (v, r)" if "parse_value d s = Some (v, r)" for d v r
      using that
    proof (cases rule: parse_value_cases)
      case (obj cs ms)
      with 1 skip_ws_Cons [OF obj(1)] have "parse_members (Suc (d - 1)) cs = Some (ms, r)" by blast
      with obj parse_value_obj [OF obj(1), of "Suc d" ms r] show ?thesis by simp
    next
      case (arr cs vs)
      with 1 skip_ws_Cons [OF arr(1)] have "parse_elems (Suc (d - 1)) cs = Some (vs, r)" by blast
      with arr parse_value_arr [OF arr(1), of "Suc d" vs r] show ?thesis by simp
    qed (auto intro: parse_value_simple parse_value_word parse_value_num)
    have "parse_elems (Suc d) s = Some (vs, r)" if e: "parse_elems d s = Some (vs, r)" for d vs r
    proof -
      from iffD1 [OF parse_elems_iff e] obtain w q where w: "parse_value d s = Some (w, q)"
        "skip_ws q = CHR '']'' # r \<and> vs = [w] \<or>
          (\<exists>q' us. skip_ws q = CHR '','' # q' \<and> parse_elems d q' = Some (us, r) \<and> vs = w # us)" by blast
      have "parse_elems (Suc d) q' = Some (us, r)" if "skip_ws q = CHR '','' # q'" "parse_elems d q' = Some (us, r)" for q' us
        using 1 that skip_ws_Cons [OF that(1)] parse_shorter(1) [OF w(1)] by (meson less_trans)
      with v [OF w(1)] w(2) show ?thesis unfolding parse_elems_iff [of "Suc d" s] by blast
    qed
    moreover have "parse_members (Suc d) s = Some (ms, r)" if e: "parse_members d s = Some (ms, r)" for d ms r
    proof -
      from iffD1 [OF parse_members_iff e] obtain s1 k s2 s3 w q where p: "skip_ws s = quote # s1" "scan_str s1 = Some (k, s2)"
        "skip_ws s2 = CHR '':'' # s3" "parse_value d s3 = Some (w, q)" and
        m: "skip_ws q = CHR ''}'' # r \<and> ms = [(k, w)] \<or>
          (\<exists>q' us. skip_ws q = CHR '','' # q' \<and> parse_members d q' = Some (us, r) \<and> ms = (k, w) # us)" by blast
      note len = skip_ws_Cons [OF p(1)] scan_str_length [OF p(2)] skip_ws_Cons [OF p(3)] parse_shorter(1) [OF p(4)]
      have "parse_value (Suc d) s3 = Some (w, q)" using 1 p(4) len by (meson less_trans)
      moreover have "parse_members (Suc d) q' = Some (us, r)" if "skip_ws q = CHR '','' # q'" "parse_members d q' = Some (us, r)" for q' us
        using 1 that skip_ws_Cons [OF that(1)] len by (meson less_trans)
      ultimately show ?thesis using p(1-3) m unfolding parse_members_iff [of "Suc d" s] by blast
    qed
    ultimately show ?case using v by blast
  qed
  then show "parse_value d s = Some (v, r) \<Longrightarrow> parse_value (Suc d) s = Some (v, r)" by blast
qed

lemma payload_ok_valid: "payload_ok p \<Longrightarrow> p = [] \<or> valid_json p"
  using parse_deeper [of "maxNestingDepth - 1" p]
  by (auto simp: payload_ok_def valid_json_def maxNestingDepth_def skip_ws_def)

lemma raw_text_at:
  assumes "skip_ws b = b" and "b \<noteq> []"
  shows "raw_text (b @ y) y = b"
  using assms skip_ws_append [of b y] by (simp add: raw_text_def)

lemma parse_print_str: "valid_utf8 t \<Longrightarrow> parse_value d (print_str t @ r) = Some (JvStr t, r)"
  using parse_value_simple(1) [of "print_str t @ r" "escape_body t @ quote # r" t r d] scan_str_print [of t r]
  by (simp add: print_str_def)

lemma raw_member_last:
  assumes "valid_utf8 k" and "parse_value d (b @ CHR ''}'' # r) = Some (v, CHR ''}'' # r)" and "skip_ws b = b" and "b \<noteq> []"
  shows "raw_members d (print_str k @ '':'' @ b @ CHR ''}'' # r) = Some ([(k, b, v)], r)"
  unfolding raw_members_iff [of d "print_str k @ '':'' @ b @ CHR ''}'' # r"]
  using assms scan_str_print [OF assms(1), of "CHR '':'' # b @ CHR ''}'' # r"] raw_text_at [OF assms(3,4)]
  by (auto simp: print_str_def)

lemma raw_member_more:
  assumes "valid_utf8 k" and "parse_value d (b @ CHR '','' # s) = Some (v, CHR '','' # s)" and "skip_ws b = b" and "b \<noteq> []"
    and "raw_members d s = Some (ms, r)"
  shows "raw_members d (print_str k @ '':'' @ b @ CHR '','' # s) = Some ((k, b, v) # ms, r)"
  unfolding raw_members_iff [of d "print_str k @ '':'' @ b @ CHR '','' # s"]
  using assms scan_str_print [OF assms(1), of "CHR '':'' # b @ CHR '','' # s"] raw_text_at [OF assms(3,4)]
  by (auto simp: print_str_def)

lemma print_str_value: "skip_ws (print_str t) = print_str t" "print_str t \<noteq> []"
  by (simp_all add: print_str_def)

text \<open>The members that \<open>mustMarshal\<close> writes.\<close>

definition written :: "envelope \<Rightarrow> (string \<times> string \<times> jv) list" where
  "written env = [(''type'', print_str (env_type env), JvStr (env_type env))]
     @ (if env_from env = '''' then [] else [(''from'', print_str (env_from env), JvStr (env_from env))])
     @ (if env_payload env = '''' then [] else
          [(''payload'', compact Out (env_payload env), fst (the (parse_value (maxNestingDepth - 1) (env_payload env))))])"

lemma names: "valid_utf8 ''type''" "valid_utf8 ''from''" "valid_utf8 ''payload''"
  "find_field envelope_struct ''type'' = Some ''type''" "find_field envelope_struct ''from'' = Some ''from''"
  "find_field envelope_struct ''payload'' = Some ''payload''"
  by code_simp+

lemma raw_members_written:
  assumes "valid_utf8 (env_type env)" and "valid_utf8 (env_from env)" and "payload_ok (env_payload env)"
  shows "raw_members (maxNestingDepth - 1) (tl (mustMarshal env)) = Some (written env, [])"
proof -
  let ?d = "maxNestingDepth - 1" and ?b = "compact Out (env_payload env)"
  let ?P = "if env_payload env = '''' then '''' else '','' @ print_str ''payload'' @ '':'' @ ?b"
  let ?pay = "[(''payload'', ?b, fst (the (parse_value ?d (env_payload env))))]"
  note str = raw_member_more [OF _ parse_print_str print_str_value] raw_member_last [OF _ parse_print_str print_str_value]
  have shape: "tl (mustMarshal env) = print_str ''type'' @ '':'' @ print_str (env_type env)
      @ (if env_from env = '''' then '''' else '','' @ print_str ''from'' @ '':'' @ print_str (env_from env)) @ ?P @ ''}''"
    using payload_ok_valid [OF assms(3)] by (auto simp: mustMarshal_def)
  have pay: "raw_members ?d (print_str ''payload'' @ '':'' @ ?b @ ''}'') = Some (?pay, [])" if ne: "env_payload env \<noteq> ''''"
  proof -
    from assms(3) ne obtain v where v: "parse_value ?d (env_payload env) = Some (v, [])" by (auto simp: payload_ok_def)
    have c: "parse_value ?d ?b = Some (v, [])" by (rule parse_compact [OF v])
    then have "parse_value ?d (?b @ ''}'') = Some (v, ''}'')" using parse_extend [of ?d ?b "[]" v "''}''"] by simp
    moreover have "?b \<noteq> []" using parse_shorter(1) [OF c] by auto
    ultimately show ?thesis using raw_member_last [OF names(3), of ?d ?b "[]" v] compact_hd [OF v] v by simp
  qed
  show ?thesis
  proof (cases "env_payload env = ''''"; cases "env_from env = ''''")
    assume "env_payload env = ''''" "env_from env = ''''"
    then show ?thesis using str(2) [OF names(1) assms(1), of ?d "[]"] by (simp add: shape written_def)
  next
    assume "env_payload env = ''''" "env_from env \<noteq> ''''"
    then show ?thesis using str(1) [OF names(1) assms(1) str(2) [OF names(2) assms(2), of ?d "[]"]] by (simp add: shape written_def)
  next
    assume h: "env_payload env \<noteq> ''''" "env_from env = ''''"
    from str(1) [OF names(1) assms(1) pay [OF h(1)]] h show ?thesis by (simp add: shape written_def)
  next
    assume h: "env_payload env \<noteq> ''''" "env_from env \<noteq> ''''"
    from str(1) [OF names(1) assms(1) str(1) [OF names(2) assms(2) pay [OF h(1)]]] h show ?thesis by (simp add: shape written_def)
  qed
qed

lemma store_written:
  "fold store_envelope (written env) (envelope_zero, True) = (env\<lparr>env_payload := compact Out (env_payload env)\<rparr>, True)"
  by (cases env) (simp add: written_def envelope_zero_def names compact.simps)

lemma Unmarshal_mustMarshal:
  assumes "valid_utf8 (env_type env)" and "valid_utf8 (env_from env)" and "payload_ok (env_payload env)"
  shows "Unmarshal_envelope (mustMarshal env) = Some (env\<lparr>env_payload := compact Out (env_payload env)\<rparr>)"
proof -
  obtain t where t: "mustMarshal env = CHR ''{'' # t" using payload_ok_valid [OF assms(3)] by (auto simp: mustMarshal_def)
  note raw = raw_members_written [OF assms]
  have "parse_value maxNestingDepth (mustMarshal env) = Some (JvObj (map (\<lambda>(k, t, v). (k, v)) (written env)), [])"
    using parse_value_obj [of "mustMarshal env" t maxNestingDepth] raw_members_parse [OF raw] t by (simp add: maxNestingDepth_def)
  moreover have "map (\<lambda>(k, t, v). (k, v)) (written env) \<noteq> []" by (simp add: written_def)
  ultimately show ?thesis using raw store_written [of env] t
    by (simp add: Unmarshal_envelope_def skip_ws_def split: list.split)
qed

section \<open>What is passed on\<close>

definition payload_value :: "string \<Rightarrow> jv option" where
  "payload_value p = (if p = '''' then None else map_option fst (parse_value maxNestingDepth p))"

lemma payload_value_compact:
  assumes "payload_ok p"
  shows "payload_value (compact Out p) = payload_value p" and "p \<noteq> '''' \<Longrightarrow> payload_value p \<noteq> None"
proof -
  consider "p = ''''" | v where "p \<noteq> ''''" "parse_value maxNestingDepth p = Some (v, [])"
    using assms parse_deeper [of "maxNestingDepth - 1" p] by (auto simp: payload_ok_def maxNestingDepth_def)
  then have "payload_value (compact Out p) = payload_value p \<and> (p \<noteq> '''' \<longrightarrow> payload_value p \<noteq> None)"
  proof cases
    case 2
    have c: "parse_value maxNestingDepth (compact Out p) = Some (v, [])" by (rule parse_compact [OF 2(2)])
    with parse_shorter(1) [OF c] 2 show ?thesis by (auto simp: payload_value_def)
  qed (simp add: payload_value_def compact.simps)
  then show "payload_value (compact Out p) = payload_value p" "p \<noteq> '''' \<Longrightarrow> payload_value p \<noteq> None" by blast+
qed

text \<open>Every frame that one connection causes another to be sent can be decoded, to this:\<close>

definition passed_on :: "role \<Rightarrow> envelope \<Rightarrow> bool" where
  "passed_on r env \<longleftrightarrow> env = ready_envelope \<or> env = bye_envelope r \<or>
     (\<exists>data env0. Unmarshal_envelope data = Some env0 \<and> env_type env = env_type env0 \<and> env_from env = r \<and>
        payload_value (env_payload env) = payload_value (env_payload env0))"

lemma role_utf8: "r \<in> {RoleAgent, RolePhone} \<Longrightarrow> valid_utf8 r"
proof -
  have "valid_utf8 RoleAgent" "valid_utf8 RolePhone" by code_simp+
  then show "r \<in> {RoleAgent, RolePhone} \<Longrightarrow> valid_utf8 r" by blast
qed

lemma stamped_decodes:
  assumes "stamped json_codec r f" and "r \<in> {RoleAgent, RolePhone}"
  shows "\<exists>env. Unmarshal_envelope f = Some env \<and> passed_on r env"
proof -
  have own: "valid_utf8 (env_type ready_envelope)" "valid_utf8 (env_type (bye_envelope r))" "valid_utf8 ''''"
    by (simp_all add: ready_envelope_def bye_envelope_def valid_utf8.simps rune_len.simps)
  from assms(1) consider "f = mustMarshal ready_envelope" | "f = mustMarshal (bye_envelope r)"
    | data env where "Unmarshal_envelope data = Some env" "f = mustMarshal (env\<lparr>env_from := r\<rparr>)"
    by (auto simp: stamped_def json_codec_def)
  then show ?thesis
  proof cases
    case 1
    with own Unmarshal_mustMarshal [of ready_envelope] show ?thesis
      by (simp add: passed_on_def ready_envelope_def payload_ok_def compact.simps)
  next
    case 2
    with own role_utf8 [OF assms(2)] Unmarshal_mustMarshal [of "bye_envelope r"] show ?thesis
      by (simp add: passed_on_def bye_envelope_def payload_ok_def compact.simps)
  next
    case 3
    note ok = Unmarshal_envelope_ok [OF 3(1)]
    with Unmarshal_mustMarshal [of "env\<lparr>env_from := r\<rparr>"] role_utf8 [OF assms(2)]
    have "Unmarshal_envelope f = Some (env\<lparr>env_from := r, env_payload := compact Out (env_payload env)\<rparr>)" by (simp add: 3(2))
    moreover have "passed_on r (env\<lparr>env_from := r, env_payload := compact Out (env_payload env)\<rparr>)"
      unfolding passed_on_def using 3(1) payload_value_compact(1) ok by (intro disjI2 exI [of _ data] exI [of _ env]) simp
    ultimately show ?thesis by blast
  qed
qed


definition demo_envelope :: envelope where
  "demo_envelope = \<lparr>env_type = ''offer'', env_from = ''phone'', env_payload = [quote] @ ''a<b'' @ [quote]\<rparr>"

lemma demo_envelope_read: "Unmarshal_envelope (mustMarshal demo_envelope) = Some (demo_envelope\<lparr>env_payload := compact Out (env_payload demo_envelope)\<rparr>)"
proof (rule Unmarshal_mustMarshal)
  have "scan_str (''a<b'' @ [quote]) = Some (''a<b'', [])" by code_simp
  then show "payload_ok (env_payload demo_envelope)"
    using parse_value_simple(1) [of "env_payload demo_envelope" "''a<b'' @ [quote]" "''a<b''" "[]" "maxNestingDepth - 1"]
    by (simp add: demo_envelope_def payload_ok_def)
qed (simp_all add: demo_envelope_def valid_utf8.simps rune_len.simps)


text \<open>So it is across instances, where frames travel as bytes in a JSON message of their own.\<close>

lemma cluster_is_transparent:
  assumes "cl_reach ce redis_ops json_codec (ks_empty t0) s" and "\<forall>m. ce_opens ce m \<longrightarrow> is_ascii m"
    and "(p, q, f, b) \<in> set (h_sent (sy_hub (cl_sys s)))" and "q \<noteq> p"
  shows "\<exists>c env. sy_conn (cl_sys s) p = Some c \<and> Unmarshal_envelope f = Some env \<and> passed_on (cn_role c) env"
proof -
  have inv: "cl_inv ce json_codec rp_present rp_wf s" using cluster_all [OF assms(1,2)] by blast
  obtain c where c: "sy_conn (cl_sys s) p = Some c" "stamped json_codec (cn_role c) f"
    using cl_invD(3) [OF inv] assms(3,4) by (fastforce simp: stamp_inv_def)
  have "cn_role c \<in> {RoleAgent, RolePhone}" using cl_invD(1) [OF inv] c(1) unfolding peers_inv_def by blast
  from stamped_decodes [OF c(2) this] c(1) show ?thesis by blast
qed

end
