(* ===== verification/Spec2Isabelle.thy ===== *)
theory Spec2Isabelle
  imports Whole_Server Identity_Tokens Signaling_Termination Recorders Keepalive Frames
begin

text \<open>
  Verification of the Go backend of the remote-assistance application (\<open>src/backend\<close>): accounts
  and organizations, connection tokens that bring a technician and a phone together, the WebSocket
  relay between the two, recordings, and the HTTP surface over all of it.

  \<^bold>\<open>Parts and theories.\<close> Every operation is a HOL function from its arguments and the state to
  its result and the new state; errors are values of \<open>go_error + 'a\<close>, panics values of \<open>'a go\<close>.

  \<^item> \<open>Prelude\<close>, \<open>Go_Strings\<close>, \<open>Http\<close>, \<open>Base64\<close>, \<open>Calendar\<close>: Go errors, maps,
    64-bit integers, strings as byte lists, decimal numbers, splitting and trimming, requests and
    responses, base64 and hex, UTC dates.
  \<^item> \<open>Json\<close>, \<open>Requests\<close> (\<open>httputil/json.go\<close>): the parser and printer of \<open>encoding/json\<close> on bytes,
    decoding into a struct (field names up to case, unknown fields, type errors that are kept until
    the end), \<open>DecodeJSON\<close> with its size limit. Printing and parsing are inverse; a body is accepted
    under exactly stated conditions; the destination keeps its types whatever arrives.
  \<^item> \<open>Redis_Service\<close>, \<open>Postgres_Service\<close>: the two servers. They are not in the repository:
    operations take a client as an argument, and the locales \<open>redis_service\<close> and \<open>pg_service\<close>
    state what is relied on. A command that succeeds had exactly its effect, at some later instant;
    one that fails had its effect or none. The meaning of the commands and SQL statements of the
    sources is defined on a keyspace with expiry times and on the tables of
    \<open>store/migrations\<close> with their constraints. Both locales are interpreted on servers that fail
    according to a plan.
  \<^item> \<open>Ws_Peer\<close>, \<open>Keepalive\<close>, \<open>Presence\<close>, \<open>Redis_Presence\<close>, \<open>Hub\<close>, \<open>Signaling_System\<close>,
    \<open>Signaling_Invariants\<close>, \<open>Signaling_Properties\<close>, \<open>Signaling_Termination\<close>: the relay of one instance
    (\<open>signaling/handlers.go\<close>, \<open>hub.go\<close>, \<open>fanout.go\<close>, \<open>presence_local.go\<close>, \<open>redis.go\<close>). Goroutines
    interleave at the granularity of locked sections, as a step relation; the invariants are by
    rule induction, over the interface \<open>presence\<close>, which the in-process and the Redis
    implementations interpret. No deadlock and no panic, work between two reads ends,
    \<open>peer-ready\<close> is never lost, frames stay in their room and carry their sender's role, the
    room-ended callback fires exactly at the last departure, responsive peers are not timed out; a
    presence hash that expires under live connections breaks the callback's guarantee.
  \<^item> \<open>Redis_Fanout\<close>, \<open>Cluster\<close> (\<open>redis.go\<close>): messages between instances as JSON over Redis
    pub/sub, with each instance's receiving goroutine, and several instances sharing presence. The
    guarantees of one instance are proved again for the cluster, over an unreliable pub/sub
    (\<open>pubsub_service\<close>) or a reliable one (\<open>reliable_pubsub\<close>).
  \<^item> \<open>Compact\<close>, \<open>Frames\<close> (\<open>handlers.go\<close>: \<open>envelope\<close>, \<open>mustMarshal\<close>): the frames as JSON bytes, with the
    payload as a raw message that \<open>encoding/json\<close> compacts. The parser cannot tell a text from its
    compacted form (locale \<open>text_sim\<close>, interpreted three times), so the relay is transparent: what
    it forwards decodes to the type and the payload that were sent, under the role of the sender.
  \<^item> \<open>Auth\<close>: tokens and the bearer middleware (\<open>auth/jwt.go\<close>, \<open>auth/middleware.go\<close>, the
    authorizer of \<open>run\<close>). \<open>golang-jwt\<close> is a parameter with the contract \<open>jwt_library\<close>:
    parsing accepts exactly what was signed with the key and has not expired.
  \<^item> \<open>Admission\<close>: the guards of \<open>ServeWS\<close>, and who can be in a room.
  \<^item> \<open>Ratelimit\<close> (\<open>ratelimit/*.go\<close>), \<open>Turn\<close> (\<open>turn/turn.go\<close>), \<open>Password\<close>
    (\<open>crypto/password.go\<close>, with Argon2id as a parameter).
  \<^item> \<open>Session\<close>, \<open>Session_Redeem\<close>, \<open>Session_Status\<close> (\<open>session/*.go\<close>, the callback and
    the sweeper of \<open>cmd/server/main.go\<close>): minting and redeeming, the bound on guesses, the
    life of a session row. The guarantees hold for requests in sequence; two theorems show that
    overlapping requests escape them.
  \<^item> \<open>Identity\<close>, \<open>Identity_Users\<close>, \<open>Identity_Tokens\<close> (\<open>identity/*.go\<close>): registration,
    login, refresh, logout, administration; unique addresses, organization scope, revocation.
  \<^item> \<open>Recordings\<close>, \<open>S3_Presign\<close> (\<open>recordings/*.go\<close>): rows, upload slots, completion;
    presigned URLs against an independent specification of Signature V4 checking.
  \<^item> \<open>Config\<close> (\<open>config/config.go\<close>): the environment, with the syntax of durations and its
    overflow checks, and lists. \<open>Migrations\<close> (\<open>store/store.go\<close>): opening connections, applying
    migrations, over the contract \<open>migration_db\<close>.
  \<^item> \<open>Router\<close>, \<open>Recorders\<close>, \<open>Bodies\<close> (\<open>httpapi/router.go\<close>, \<open>metrics/metrics.go\<close>, the readiness
    probe): the handlers of all components behind their middleware, as one function on one state,
    from the bytes of a request body on; the writers that record a status for metrics and log, over
    the interface \<open>response_writer\<close>.
  \<^item> \<open>Server\<close> (\<open>cmd/server/main.go\<close>, \<open>cmd/signaling-dev/main.go\<close>): from the environment to the
    running server, with every early return of \<open>run\<close>; the background loops; the development relay.
  \<^item> \<open>Whole_Server\<close>: all requests, the sweeper and the room-ended callback together, on the
    dependencies that \<open>run\<close> builds; the invariants of the tables under all of them.

  \<^bold>\<open>Contracts.\<close> \<open>redis_service\<close>, \<open>pg_service\<close>, \<open>migration_db\<close> (servers, with all
  outcomes of a failed call), \<open>pubsub_service\<close> and \<open>reliable_pubsub\<close>, \<open>jwt_library\<close>, \<open>uuid_codec\<close>
  (printing and parsing identifiers), \<open>codec_ok\<close> (identifiers are printed in ASCII), \<open>argon2_ok\<close>,
  \<open>presence\<close>, \<open>response_writer\<close>. HMAC, SHA-1 and SHA-256 are arbitrary functions. Every contract
  is interpreted on a concrete instance, and every theorem with hypotheses has a concrete instance
  of its own.

  \<^bold>\<open>Choices.\<close> Instants and durations are integers in nanoseconds; the readings of the clock,
  random bytes and new identifiers are arguments. Go maps are association lists with distinct keys;
  their order stands for one iteration order. 64-bit counters wrap around. Lower-casing is that
  of ASCII. Request bodies, the record of a token, the messages between instances and the frames of the
  relay are JSON bytes; the theorems on the relay hold for every codec of frames, of which \<open>json_codec\<close>
  is the one it runs with. The database executes one statement (or one transaction) at a time. Converting a duration to seconds goes through a 64-bit float in Go; the
  model is exact where that is (whole seconds, or below ninety days). No definition uses fuel:
  loops end by structural recursion or with a measure, and the JSON parser by the nesting limit of
  \<open>encoding/json\<close> and the length of its input.

  \<^bold>\<open>Not modelled.\<close> The registry and the scrape handler of Prometheus, the text and the latency of
  log lines, the WebSocket upgrade and framing, listeners, signals and timers are library and
  operating system behaviour: what they deliver is an argument. The clients (\<open>windows-agent\<close>,
  \<open>mobile-client\<close>), the JavaScript harness, deployment files and schemas are not Go.
\<close>

end
